(* ===== verification/Prelude.thy ===== *)
theory Prelude
  imports Complex_Main "HOL-Library.Word" "HOL-Library.Product_Lexorder"
begin

text \<open>
  Shared vocabulary of the development.

  \<^item> The effects of the Python code. A coroutine or method is an action
    \<open>('s, 'a) py\<close>: it takes the state and returns either the exception it raised or its value,
    together with the state it left behind. An exception does not undo what was written before
    it; only \<open>transaction\<close>-style combinators of later theories roll back.
  \<^item> The exceptions of the program, one constructor per class.
  \<^item> Triples and \<open>keeps\<close>: the partial-correctness rules the invariant proofs run on.
  \<^item> The list operations that the SQL statements of the providers denote.
  \<^item> The interface locales that several providers share.
\<close>

named_theorems py_defs \<open>the combinators of the action monad, unfolded\<close>
named_theorems keeps_intro \<open>compositional rules for preserved predicates\<close>
named_theorems sql_simps \<open>facts on the list operations behind SQL statements\<close>

type_synonym uuid = "128 word"
type_synonym timestamp = int

section \<open>Exceptions\<close>

text \<open>
  One constructor per exception class the code raises or catches. The asyncpg errors are the ones
  PostgreSQL reports for the constraints of the schema. \<open>HTTPError\<close> is FastAPI's HTTPException with
  its status code and detail. \<open>TimeoutError\<close> stands for the three timeout classes the code always catches
  together (the builtin, httpx.TimeoutException and openai.APITimeoutError). \<open>OtherError\<close> is any exception of a third-party call.
\<close>

datatype exn =
    ValueError string
  | FileNotFoundError string
  | OSError string
  | TimeoutError string
  | AnalysisTimeoutError string
  | UnreadableReceiptError string
  | UnsupportedImageTypeError string
  | NameConflictError string
  | NotFoundError string
  | ReceiptReferencedError
  | UniqueViolation
  | ForeignKeyViolation
  | CheckViolation
  | NotNullViolation
  | DataError
  | HTTPError nat string
  | OtherError string

section \<open>Actions\<close>

type_synonym ('s, 'a) py = "'s \<Rightarrow> (exn + 'a) \<times> 's"

definition ret :: "'a \<Rightarrow> ('s, 'a) py" where
  "ret x s = (Inr x, s)"

definition raise :: "exn \<Rightarrow> ('s, 'a) py" where
  "raise e s = (Inl e, s)"

definition bind :: "('s, 'a) py \<Rightarrow> ('a \<Rightarrow> ('s, 'b) py) \<Rightarrow> ('s, 'b) py" where
  "bind m f s = (case m s of (Inl e, t) \<Rightarrow> (Inl e, t) | (Inr x, t) \<Rightarrow> f x t)"

definition seq :: "('s, 'a) py \<Rightarrow> ('s, 'b) py \<Rightarrow> ('s, 'b) py" where
  "seq m n = bind m (\<lambda>_. n)"

text \<open>\<open>try: m except: h\<close>; the handler re-raises what it does not match.\<close>

definition catch :: "('s, 'a) py \<Rightarrow> (exn \<Rightarrow> ('s, 'a) py) \<Rightarrow> ('s, 'a) py" where
  "catch m h s = (case m s of (Inl e, t) \<Rightarrow> h e t | (Inr x, t) \<Rightarrow> (Inr x, t))"

definition gets :: "('s \<Rightarrow> 'a) \<Rightarrow> ('s, 'a) py" where
  "gets f s = (Inr (f s), s)"

definition modify :: "('s \<Rightarrow> 's) \<Rightarrow> ('s, unit) py" where
  "modify f s = (Inr (), f s)"

definition guard :: "bool \<Rightarrow> exn \<Rightarrow> ('s, unit) py" where
  "guard b e = (if b then ret () else raise e)"

definition lift_result :: "exn + 'a \<Rightarrow> ('s, 'a) py" where
  "lift_result r = (case r of Inl e \<Rightarrow> raise e | Inr x \<Rightarrow> ret x)"

primrec for_each :: "'a list \<Rightarrow> ('a \<Rightarrow> ('s, unit) py) \<Rightarrow> ('s, unit) py" where
  "for_each [] f = ret ()"
| "for_each (x # xs) f = seq (f x) (for_each xs f)"

primrec collect :: "'a list \<Rightarrow> ('a \<Rightarrow> ('s, 'b) py) \<Rightarrow> ('s, 'b list) py" where
  "collect [] f = ret []"
| "collect (x # xs) f = bind (f x) (\<lambda>y. bind (collect xs f) (\<lambda>ys. ret (y # ys)))"

lemmas [py_defs] =
  ret_def raise_def bind_def seq_def catch_def gets_def modify_def guard_def lift_result_def

text \<open>Value and state of a run, as the properties read them.\<close>

definition value_of :: "('s, 'a) py \<Rightarrow> 's \<Rightarrow> exn + 'a" where
  "value_of m s = fst (m s)"

definition state_of :: "('s, 'a) py \<Rightarrow> 's \<Rightarrow> 's" where
  "state_of m s = snd (m s)"

lemma bind_Inr [simp]: "m s = (Inr x, t) \<Longrightarrow> bind m f s = f x t"
  by (simp add: bind_def)

lemma bind_Inl [simp]: "m s = (Inl e, t) \<Longrightarrow> bind m f s = (Inl e, t)"
  by (simp add: bind_def)

lemma ret_apply [simp]: "ret x s = (Inr x, s)"
  by (simp add: ret_def)

lemma raise_apply [simp]: "raise e s = (Inl e, s)"
  by (simp add: raise_def)

lemma gets_apply [simp]: "gets f s = (Inr (f s), s)"
  by (simp add: gets_def)

lemma modify_apply [simp]: "modify f s = (Inr (), f s)"
  by (simp add: modify_def)

lemma bind_ret [simp]: "bind (ret x) f = f x"
  by (rule ext) (simp add: py_defs)

lemma bind_gets [simp]: "bind (gets g) f s = f (g s) s"
  by (simp add: py_defs)

lemma bind_raise [simp]: "bind (raise e) f = raise e"
  by (rule ext) (simp add: py_defs)

lemma seq_modify [simp]: "seq (modify g) n s = n (g s)"
  by (simp add: py_defs)

lemma seq_ret [simp]: "seq (ret x) n = n"
  by (simp add: seq_def)

lemma guard_True [simp]: "guard True e = ret ()"
  by (simp add: guard_def)

lemma guard_False [simp]: "guard False e = raise e"
  by (simp add: guard_def)

lemma bind_assoc: "bind (bind m f) g = bind m (\<lambda>x. bind (f x) g)"
  by (rule ext) (simp add: bind_def split: prod.splits sum.splits)

lemma bind_eq_Inr:
  "bind m f s = (Inr y, u) \<longleftrightarrow> (\<exists>x t. m s = (Inr x, t) \<and> f x t = (Inr y, u))"
  by (auto simp: bind_def split: prod.splits sum.splits)

lemma seq_eq_Inr:
  "seq m n s = (Inr y, u) \<longleftrightarrow> (\<exists>x t. m s = (Inr x, t) \<and> n t = (Inr y, u))"
  by (auto simp: seq_def bind_eq_Inr)

lemma guard_eq_Inr: "guard b e s = (Inr x, t) \<longleftrightarrow> b \<and> t = s"
  by (auto simp: guard_def)

section \<open>Preserved predicates\<close>

text \<open>\<open>keeps P m\<close>: whatever \<open>m\<close> does, exceptions included, \<open>P\<close> survives it.\<close>

definition keeps :: "('s \<Rightarrow> bool) \<Rightarrow> ('s, 'a) py \<Rightarrow> bool" where
  "keeps P m \<longleftrightarrow> (\<forall>s. P s \<longrightarrow> P (snd (m s)))"

lemma keepsI: "(\<And>s. P s \<Longrightarrow> P (snd (m s))) \<Longrightarrow> keeps P m"
  by (simp add: keeps_def)

lemma keepsD: "keeps P m \<Longrightarrow> P s \<Longrightarrow> P (snd (m s))"
  by (simp add: keeps_def)

lemma keeps_run: "keeps P m \<Longrightarrow> P s \<Longrightarrow> m s = (x, t) \<Longrightarrow> P t"
  by (metis keepsD snd_conv)

lemma keeps_ret [keeps_intro]: "keeps P (ret x)"
  by (simp add: keeps_def)

lemma keeps_raise [keeps_intro]: "keeps P (raise e)"
  by (simp add: keeps_def)

lemma keeps_gets [keeps_intro]: "keeps P (gets f)"
  by (simp add: keeps_def)

lemma keeps_modify [keeps_intro]: "(\<And>s. P s \<Longrightarrow> P (f s)) \<Longrightarrow> keeps P (modify f)"
  by (simp add: keeps_def)

lemma keeps_Pair [keeps_intro]: "keeps P (Pair x)"
  by (simp add: keeps_def)

lemma keeps_bind [keeps_intro]: "keeps P m \<Longrightarrow> (\<And>x. keeps P (f x)) \<Longrightarrow> keeps P (bind m f)"
  by (fastforce simp: keeps_def bind_def split: prod.splits sum.splits)

lemma keeps_seq [keeps_intro]: "keeps P m \<Longrightarrow> keeps P n \<Longrightarrow> keeps P (seq m n)"
  by (simp add: seq_def keeps_bind)

lemma keeps_catch [keeps_intro]: "keeps P m \<Longrightarrow> (\<And>e. keeps P (h e)) \<Longrightarrow> keeps P (catch m h)"
  by (fastforce simp: keeps_def catch_def split: prod.splits sum.splits)

lemma keeps_guard [keeps_intro]: "keeps P (guard b e)"
  by (simp add: guard_def keeps_ret keeps_raise)

lemma keeps_lift [keeps_intro]: "keeps P (lift_result r)"
  by (cases r) (simp_all add: lift_result_def keeps_ret keeps_raise)

lemma keeps_if [keeps_intro]:
  "(b \<Longrightarrow> keeps P m) \<Longrightarrow> (\<not> b \<Longrightarrow> keeps P n) \<Longrightarrow> keeps P (if b then m else n)"
  by simp

lemma keeps_case_option [keeps_intro]:
  "keeps P m \<Longrightarrow> (\<And>x. keeps P (f x)) \<Longrightarrow> keeps P (case r of None \<Rightarrow> m | Some x \<Rightarrow> f x)"
  by (cases r) simp_all

lemma keeps_case_sum [keeps_intro]:
  "(\<And>x. keeps P (f x)) \<Longrightarrow> (\<And>y. keeps P (g y)) \<Longrightarrow>
   keeps P (case r of Inl x \<Rightarrow> f x | Inr y \<Rightarrow> g y)"
  by (cases r) simp_all

lemma keeps_case_prod [keeps_intro]:
  "(\<And>x y. keeps P (f x y)) \<Longrightarrow> keeps P (case r of (x, y) \<Rightarrow> f x y)"
  by (cases r) simp

lemma keeps_let [keeps_intro]: "keeps P (f x) \<Longrightarrow> keeps P (let y = x in f y)"
  by simp

lemma keeps_for_each [keeps_intro]: "(\<And>x. keeps P (f x)) \<Longrightarrow> keeps P (for_each xs f)"
  by (induction xs) (auto intro: keeps_intro)

lemma keeps_collect [keeps_intro]: "(\<And>x. keeps P (f x)) \<Longrightarrow> keeps P (collect xs f)"
  by (induction xs) (auto intro: keeps_intro)

text \<open>\<open>reads m\<close>: the action leaves the state as it is.\<close>

definition reads :: "('s, 'a) py \<Rightarrow> bool" where
  "reads m \<longleftrightarrow> (\<forall>s. snd (m s) = s)"

lemma reads_keeps: "reads m \<Longrightarrow> keeps P m"
  by (simp add: reads_def keeps_def)

lemma reads_gets [simp]: "reads (gets f)"
  by (simp add: reads_def)

section \<open>SQL statements as list operations\<close>

text \<open>
  A table is the list of its rows, in insertion order. \<open>SELECT ... WHERE p\<close> filters,
  \<open>UPDATE ... SET f WHERE p\<close> maps, \<open>DELETE ... WHERE p\<close> filters out, and a statement with
  RETURNING hands back the rows it touched; \<open>fetchrow\<close> is asyncpg's first row or None.
\<close>

definition sql_update :: "('r \<Rightarrow> bool) \<Rightarrow> ('r \<Rightarrow> 'r) \<Rightarrow> 'r list \<Rightarrow> 'r list" where
  "sql_update p f t = map (\<lambda>r. if p r then f r else r) t"

definition sql_delete :: "('r \<Rightarrow> bool) \<Rightarrow> 'r list \<Rightarrow> 'r list" where
  "sql_delete p t = filter (\<lambda>r. \<not> p r) t"

definition sql_exists :: "('r \<Rightarrow> bool) \<Rightarrow> 'r list \<Rightarrow> bool" where
  "sql_exists p t = list_ex p t"

definition fetchrow :: "'r list \<Rightarrow> 'r option" where
  "fetchrow rows = (case rows of [] \<Rightarrow> None | r # _ \<Rightarrow> Some r)"

lemma sql_exists_iff [sql_simps]: "sql_exists p t \<longleftrightarrow> (\<exists>r \<in> set t. p r)"
  by (simp add: sql_exists_def list_ex_iff)

lemma set_sql_update [sql_simps]:
  "set (sql_update p f t) = {f r | r. r \<in> set t \<and> p r} \<union> {r \<in> set t. \<not> p r}"
  by (auto simp: sql_update_def)

lemma set_sql_delete [sql_simps]: "set (sql_delete p t) = {r \<in> set t. \<not> p r}"
  by (auto simp: sql_delete_def)

lemma sql_update_none: "\<forall>r \<in> set t. \<not> p r \<Longrightarrow> sql_update p f t = t"
  by (induction t) (simp_all add: sql_update_def)

lemma sql_delete_none: "\<forall>r \<in> set t. \<not> p r \<Longrightarrow> sql_delete p t = t"
  by (simp add: sql_delete_def)

lemma map_sql_update [sql_simps]:
  "(\<And>r. p r \<Longrightarrow> g (f r) = g r) \<Longrightarrow> map g (sql_update p f t) = map g t"
  by (simp add: sql_update_def)

lemma filter_sql_update_frame [sql_simps]:
  "(\<And>r. p r \<Longrightarrow> \<not> q r \<and> \<not> q (f r)) \<Longrightarrow> filter q (sql_update p f t) = filter q t"
  by (induction t) (auto simp: sql_update_def)

lemma filter_sql_delete_frame [sql_simps]:
  "(\<And>r. p r \<Longrightarrow> \<not> q r) \<Longrightarrow> filter q (sql_delete p t) = filter q t"
  by (induction t) (auto simp: sql_delete_def)

lemma fetchrow_filter_Some: "fetchrow (filter p t) = Some r \<Longrightarrow> r \<in> set t \<and> p r"
  by (induction t) (auto simp: fetchrow_def split: if_splits)

lemma fetchrow_filter_None [sql_simps]: "fetchrow (filter p t) = None \<longleftrightarrow> (\<forall>r \<in> set t. \<not> p r)"
  by (induction t) (auto simp: fetchrow_def)

lemma fetchrow_Nil [simp]: "fetchrow [] = None"
  by (simp add: fetchrow_def)

lemma fetchrow_Cons [simp]: "fetchrow (r # rs) = Some r"
  by (simp add: fetchrow_def)

lemma fetchrow_None: "fetchrow rows = None \<longleftrightarrow> rows = []"
  by (cases rows) simp_all

lemma fetchrow_mem: "fetchrow rows = Some r \<Longrightarrow> r \<in> set rows"
  by (cases rows) simp_all

text \<open>With a unique key at most one row answers a lookup.\<close>

lemma fetchrow_unique:
  assumes "distinct (map key t)" and "r \<in> set t" and "p r" and "\<And>r'. p r' \<Longrightarrow> key r' = key r"
  shows "fetchrow (filter p t) = Some r"
proof (cases "fetchrow (filter p t)")
  case None
  with assms(2,3) show ?thesis by (simp add: fetchrow_filter_None)
next
  case (Some r')
  then have "r' \<in> set t" "p r'" by (auto dest: fetchrow_filter_Some)
  with assms have "r' = r" by (metis distinct_map inj_onD)
  with Some show ?thesis by simp
qed

lemma distinct_map_sql_update [sql_simps]:
  "(\<And>r. p r \<Longrightarrow> key (f r) = key r) \<Longrightarrow> distinct (map key (sql_update p f t)) = distinct (map key t)"
  by (simp add: map_sql_update)

lemma distinct_map_sql_delete: "distinct (map key t) \<Longrightarrow> distinct (map key (sql_delete p t))"
  by (simp add: sql_delete_def distinct_map_filter)

end
