(* ===== verification/PyText.thy ===== *)
theory PyText
  imports Prelude "HOL-Library.Sublist"
begin

text \<open>
  Text handling: the \<open>str\<close> methods the code uses and the normalisations built on them
  (model/item_category.py, model/collection.py, model/receipt.py, service/receipt_service.py).

  A \<open>string\<close> holds the code points U+0000 to U+00FF, one \<open>char\<close> each. On that range white space,
  \<open>lower\<close> and \<open>casefold\<close> are Python's, sharp s included (it folds to ss); the one exception is
  U+00B5, which Python folds to a code point outside the range and which is left alone here.
\<close>

section \<open>White space, split and join\<close>

definition code_of :: "char \<Rightarrow> nat" where
  "code_of c = of_char c"

definition py_space :: "char \<Rightarrow> bool" where
  "py_space c = (let n = code_of c in (9 \<le> n \<and> n \<le> 13) \<or> (28 \<le> n \<and> n \<le> 32) \<or> n = 133 \<or> n = 160)"

text \<open>\<open>s.split()\<close>: maximal runs of characters that are not white space.\<close>

fun split_from :: "string \<Rightarrow> string \<Rightarrow> string list" where
  "split_from w [] = (if w = [] then [] else [w])"
| "split_from w (c # cs) =
     (if py_space c then (if w = [] then split_from [] cs else w # split_from [] cs)
      else split_from (w @ [c]) cs)"

definition py_split :: "string \<Rightarrow> string list" where
  "py_split s = split_from [] s"

fun py_join :: "string \<Rightarrow> string list \<Rightarrow> string" where
  "py_join sep [] = []"
| "py_join sep [w] = w"
| "py_join sep (w # v # ws) = w @ sep @ py_join sep (v # ws)"

definition py_lstrip :: "string \<Rightarrow> string" where
  "py_lstrip s = dropWhile py_space s"

definition py_strip :: "string \<Rightarrow> string" where
  "py_strip s = rev (dropWhile py_space (rev (dropWhile py_space s)))"

text \<open>\<open>s.split(sep)\<close> for a one-character separator: never empty.\<close>

fun split_on :: "char \<Rightarrow> string \<Rightarrow> string list" where
  "split_on d [] = [[]]"
| "split_on d (c # cs) =
     (if c = d then [] # split_on d cs
      else case split_on d cs of [] \<Rightarrow> [[c]] | w # ws \<Rightarrow> (c # w) # ws)"

definition py_startswith :: "string \<Rightarrow> string \<Rightarrow> bool" where
  "py_startswith s p = prefix p s"

definition removeprefix :: "string \<Rightarrow> string \<Rightarrow> string" where
  "removeprefix s p = (if prefix p s then drop (length p) s else s)"

definition removesuffix :: "string \<Rightarrow> string \<Rightarrow> string" where
  "removesuffix s p = (if p \<noteq> [] \<and> suffix p s then take (length s - length p) s else s)"

section \<open>Case\<close>

definition lower_char :: "char \<Rightarrow> char" where
  "lower_char c = (let n = code_of c in
     if (65 \<le> n \<and> n \<le> 90) \<or> (192 \<le> n \<and> n \<le> 222 \<and> n \<noteq> 215) then char_of (n + 32) else c)"

definition py_lower :: "string \<Rightarrow> string" where
  "py_lower s = map lower_char s"

definition casefold_char :: "char \<Rightarrow> string" where
  "casefold_char c = (if code_of c = 223 then ''ss'' else [lower_char c])"

definition py_casefold :: "string \<Rightarrow> string" where
  "py_casefold s = concat (map casefold_char s)"

section \<open>The normalisations of the program\<close>

definition collapse :: "string \<Rightarrow> string" where
  "collapse s = py_join '' '' (py_split s)"

definition normalize_collection_name :: "string \<Rightarrow> string" where
  "normalize_collection_name raw = py_strip (py_join '' '' (py_split raw))"

definition is_hex :: "char \<Rightarrow> bool" where
  "is_hex c = (let n = code_of c in
     (48 \<le> n \<and> n \<le> 57) \<or> (97 \<le> n \<and> n \<le> 102) \<or> (65 \<le> n \<and> n \<le> 70))"

text \<open>
  The pattern \<open>^#(?:[0-9a-fA-F]{3}|[0-9a-fA-F]{6})$\<close> under \<open>re.match\<close>: the dollar sign also
  matches just before a final line feed.
\<close>

definition drop_final_newline :: "string \<Rightarrow> string" where
  "drop_final_newline s = (if s \<noteq> [] \<and> last s = CHR 0x0A then butlast s else s)"

definition hex_body :: "string \<Rightarrow> bool" where
  "hex_body s = (case s of [] \<Rightarrow> False
     | c # ds \<Rightarrow> c = CHR ''#'' \<and> (length ds = 3 \<or> length ds = 6) \<and> list_all is_hex ds)"

definition is_valid_hex_color :: "string \<Rightarrow> bool" where
  "is_valid_hex_color v = (hex_body v \<or> hex_body (drop_final_newline v))"

definition normalize_history_key :: "string \<Rightarrow> string" where
  "normalize_history_key v = py_casefold (py_join '' '' (py_split v))"

definition MAX_TAG_LENGTH :: nat where
  "MAX_TAG_LENGTH = 100"

text \<open>The loop of \<open>LineItem._normalize_tags\<close>, with its set of seen keys.\<close>

fun normalize_tags_from :: "string list \<Rightarrow> string list \<Rightarrow> string list" where
  "normalize_tags_from seen [] = []"
| "normalize_tags_from seen (tag # tags) =
     (let name = py_strip (py_join '' '' (py_split tag)) in
      if name = [] \<or> MAX_TAG_LENGTH < length name then normalize_tags_from seen tags
      else let key = py_casefold name in
           if key \<in> set seen then normalize_tags_from seen tags
           else name # normalize_tags_from (key # seen) tags)"

definition normalize_tags :: "string list \<Rightarrow> string list" where
  "normalize_tags v = normalize_tags_from [] v"

text \<open>The name \<open>ReceiptService.create_tag\<close> stores, or the ValueError it raises.\<close>

definition tag_name :: "string \<Rightarrow> exn + string" where
  "tag_name raw = (let name = py_lower (py_join '' '' (py_split raw)) in
     if name = [] then Inl (ValueError ''Tag name must not be blank'')
     else if 100 < length name then Inl (ValueError ''Tag name must be at most 100 characters long'')
     else Inr name)"

section \<open>Splitting and joining\<close>

text \<open>The words of a string: nonempty and free of white space.\<close>

definition wordy :: "string \<Rightarrow> bool" where
  "wordy w \<longleftrightarrow> w \<noteq> [] \<and> (\<forall>c \<in> set w. \<not> py_space c)"

lemma py_space_blank [simp]: "py_space CHR '' ''"
  by (simp add: py_space_def code_of_def)

lemma split_from_wordy:
  assumes "\<forall>c \<in> set w. \<not> py_space c" and "v \<in> set (split_from w s)"
  shows "wordy v"
  using assms
proof (induction s arbitrary: w)
  case Nil
  then show ?case by (simp add: wordy_def split: if_splits)
next
  case (Cons c s)
  show ?case
  proof (cases "py_space c")
    case True
    with Cons.prems have "(w \<noteq> [] \<and> v = w) \<or> v \<in> set (split_from [] s)"
      by (simp split: if_splits)
    then show ?thesis using Cons.IH [of "[]"] Cons.prems(1) by (auto simp: wordy_def)
  next
    case False
    with Cons.prems show ?thesis by (intro Cons.IH [of "w @ [c]"]) simp_all
  qed
qed

lemma py_split_wordy: "v \<in> set (py_split s) \<Longrightarrow> wordy v"
  using split_from_wordy [of "[]" v s] by (simp add: py_split_def)

lemma split_from_nospace: "\<forall>c \<in> set v. \<not> py_space c \<Longrightarrow> split_from w (v @ s) = split_from (w @ v) s"
  by (induction v arbitrary: w) auto

lemma split_from_word_blank: "w \<noteq> [] \<Longrightarrow> split_from w (CHR '' '' # s) = w # split_from [] s"
  by simp

lemma py_split_join: "\<forall>w \<in> set ws. wordy w \<Longrightarrow> py_split (py_join '' '' ws) = ws"
proof (induction "'' ''" ws rule: py_join.induct)
  case 1
  then show ?case by (simp add: py_split_def)
next
  case (2 w)
  then show ?case using split_from_nospace [of w "[]" "[]"] by (simp add: py_split_def wordy_def)
next
  case (3 w v ws)
  then have w: "wordy w" and rest: "split_from [] (py_join '' '' (v # ws)) = v # ws"
    by (simp_all add: py_split_def)
  from w have "split_from [] (w @ '' '' @ py_join '' '' (v # ws)) = w # v # ws"
    using rest by (simp add: split_from_nospace wordy_def)
  then show ?case by (simp add: py_split_def)
qed

lemma py_split_collapse [simp]: "py_split (collapse s) = py_split s"
  by (simp add: collapse_def py_split_join py_split_wordy)

lemma collapse_idem [simp]: "collapse (collapse s) = collapse s"
  by (metis collapse_def py_split_collapse)

text \<open>A joined string starts and ends with a word, so stripping it changes nothing.\<close>

lemma join_ends:
  "\<forall>w \<in> set ws. wordy w \<Longrightarrow> ws \<noteq> [] \<Longrightarrow>
   py_join '' '' ws \<noteq> [] \<and> \<not> py_space (hd (py_join '' '' ws)) \<and> \<not> py_space (last (py_join '' '' ws))"
  by (induction "'' ''" ws rule: py_join.induct) (auto simp: wordy_def)

lemma dropWhile_fixed: "s \<noteq> [] \<Longrightarrow> \<not> p (hd s) \<Longrightarrow> dropWhile p s = s"
  by (cases s) simp_all

lemma py_strip_fixed: "s \<noteq> [] \<Longrightarrow> \<not> py_space (hd s) \<Longrightarrow> \<not> py_space (last s) \<Longrightarrow> py_strip s = s"
  by (simp add: py_strip_def dropWhile_fixed hd_rev)

lemma py_strip_collapse [simp]: "py_strip (collapse s) = collapse s"
proof (cases "py_split s = []")
  case True
  then show ?thesis by (simp add: collapse_def py_strip_def)
next
  case False
  then show ?thesis
    using join_ends [of "py_split s"] py_strip_fixed by (auto simp: collapse_def dest: py_split_wordy)
qed

lemma normalize_collection_name_eq: "normalize_collection_name raw = collapse raw"
  using py_strip_collapse [of raw] by (simp add: normalize_collection_name_def collapse_def)

lemma collapse_eq_Nil: "collapse s = [] \<longleftrightarrow> py_split s = []"
  using join_ends [of "py_split s"] by (auto simp: collapse_def dest: py_split_wordy)

section \<open>Case folding\<close>

lemma code_of_less: "code_of c < 256"
  by (simp add: code_of_def)

lemma code_of_lower:
  "code_of (lower_char c) =
     (if (65 \<le> code_of c \<and> code_of c \<le> 90) \<or> (192 \<le> code_of c \<and> code_of c \<le> 222 \<and> code_of c \<noteq> 215)
      then code_of c + 32 else code_of c)"
  using code_of_less [of c] by (auto simp: lower_char_def code_of_def Let_def)

lemma lower_char_space [simp]: "py_space (lower_char c) = py_space c"
  by (auto simp: py_space_def code_of_lower Let_def)

lemma lower_char_idem [simp]: "lower_char (lower_char c) = lower_char c"
  by (subst lower_char_def) (auto simp: code_of_lower Let_def)

lemma py_lower_idem [simp]: "py_lower (py_lower s) = py_lower s"
  by (simp add: py_lower_def comp_def)

lemma casefold_char_space: "x \<in> set (casefold_char c) \<Longrightarrow> py_space x = py_space c"
proof (cases "code_of c = 223")
  case True
  moreover assume "x \<in> set (casefold_char c)"
  ultimately show ?thesis by (simp add: casefold_char_def py_space_def) (simp add: code_of_def)
next
  case False
  moreover assume "x \<in> set (casefold_char c)"
  ultimately show ?thesis by (simp add: casefold_char_def)
qed

lemma casefold_char_idem: "concat (map casefold_char (casefold_char c)) = casefold_char c"
proof (cases "code_of c = 223")
  case True
  then show ?thesis by (simp add: casefold_char_def lower_char_def code_of_def)
next
  case False
  then have "code_of (lower_char c) \<noteq> 223" by (simp add: code_of_lower)
  with False show ?thesis by (simp add: casefold_char_def)
qed

lemma py_casefold_Nil [simp]: "py_casefold [] = []"
  by (simp add: py_casefold_def)

lemma py_casefold_append: "py_casefold (s @ t) = py_casefold s @ py_casefold t"
  by (simp add: py_casefold_def)

lemma py_casefold_blank [simp]: "py_casefold '' '' = '' ''"
  by (simp add: py_casefold_def casefold_char_def lower_char_def code_of_def)

lemma py_casefold_idem [simp]: "py_casefold (py_casefold s) = py_casefold s"
proof (induction s)
  case (Cons c s)
  have "py_casefold (c # s) = casefold_char c @ py_casefold s" by (simp add: py_casefold_def)
  with Cons casefold_char_idem [of c] show ?case
    by (simp add: py_casefold_append) (simp add: py_casefold_def)
qed simp

lemma casefold_char_ne [simp]: "casefold_char c \<noteq> []"
  by (simp add: casefold_char_def)

lemma wordy_casefold: "wordy w \<Longrightarrow> wordy (py_casefold w)"
  by (auto simp: wordy_def py_casefold_def casefold_char_space)

lemma wordy_lower: "wordy w \<Longrightarrow> wordy (py_lower w)"
  by (auto simp: wordy_def py_lower_def)

lemma casefold_join: "py_casefold (py_join '' '' ws) = py_join '' '' (map py_casefold ws)"
proof (induction "'' ''" ws rule: py_join.induct)
  case (3 w v ws)
  then show ?case using py_casefold_append [of "'' ''"] by (simp add: py_casefold_append)
qed simp_all

lemma lower_join: "py_lower (py_join '' '' ws) = py_join '' '' (map py_lower ws)"
  by (induction "'' ''" ws rule: py_join.induct)
     (simp_all add: py_lower_def lower_char_def code_of_def)

lemma split_history_key: "py_split (normalize_history_key v) = map py_casefold (py_split v)"
  by (simp add: normalize_history_key_def casefold_join py_split_join wordy_casefold py_split_wordy)

lemma history_key_join: "normalize_history_key v = py_join '' '' (map py_casefold (py_split v))"
  by (simp add: normalize_history_key_def casefold_join)

section \<open>What the normalisations guarantee\<close>

text \<open>
  Fact: two texts get the same history key exactly when they have the same words up to case,
  and the key of a key is itself, so looking an alias up under a stored key finds it.
\<close>

theorem history_key_spec:
  "(normalize_history_key a = normalize_history_key b
      \<longleftrightarrow> map py_casefold (py_split a) = map py_casefold (py_split b))
   \<and> normalize_history_key (normalize_history_key a) = normalize_history_key a"
proof
  show "normalize_history_key a = normalize_history_key b
      \<longleftrightarrow> map py_casefold (py_split a) = map py_casefold (py_split b)"
    by (metis split_history_key history_key_join)
  show "normalize_history_key (normalize_history_key a) = normalize_history_key a"
    by (simp add: history_key_join [of "normalize_history_key a"] split_history_key comp_def)
       (simp add: history_key_join)
qed

lemma history_key_empty: "normalize_history_key v = [] \<longleftrightarrow> py_split v = []"
  using join_ends [of "map py_casefold (py_split v)"]
  by (auto simp: history_key_join wordy_casefold py_split_wordy)

text \<open>Tags: what the cleaning loop keeps, by induction over its input with the seen keys general.\<close>

abbreviation tag_ok :: "string \<Rightarrow> bool" where
  "tag_ok name \<equiv> name \<noteq> [] \<and> length name \<le> MAX_TAG_LENGTH"

lemma normalize_tags_from_Cons:
  "normalize_tags_from seen (tag # tags) =
     (if tag_ok (collapse tag) \<and> py_casefold (collapse tag) \<notin> set seen
      then collapse tag # normalize_tags_from (py_casefold (collapse tag) # seen) tags
      else normalize_tags_from seen tags)"
  using py_strip_collapse [of tag] by (auto simp: collapse_def Let_def)

declare normalize_tags_from.simps(2) [simp del]

lemmas normalize_tags_from_simps = normalize_tags_from.simps(1) normalize_tags_from_Cons

lemma normalize_tags_from_ok: "n \<in> set (normalize_tags_from seen tags) \<Longrightarrow> tag_ok n"
  by (induction tags arbitrary: seen) (auto simp: normalize_tags_from_simps split: if_splits)

lemma normalize_tags_from_distinct:
  "distinct (map py_casefold (normalize_tags_from seen tags))
   \<and> set (map py_casefold (normalize_tags_from seen tags)) \<inter> set seen = {}"
proof (induction tags arbitrary: seen)
  case (Cons tag tags)
  show ?case
    using Cons [of seen] Cons [of "py_casefold (collapse tag) # seen"]
    by (auto simp: normalize_tags_from_simps)
qed (simp add: normalize_tags_from_simps)

lemma normalize_tags_from_subseq: "subseq (normalize_tags_from seen tags) (map collapse tags)"
  by (induction tags arbitrary: seen) (auto simp: normalize_tags_from_simps)

lemma normalize_tags_from_complete:
  "tag \<in> set tags \<Longrightarrow> tag_ok (collapse tag) \<Longrightarrow>
   py_casefold (collapse tag) \<in> set seen \<union> py_casefold ` set (normalize_tags_from seen tags)"
proof (induction tags arbitrary: seen)
  case (Cons t tags)
  show ?case
    using Cons.IH [of seen] Cons.IH [of "py_casefold (collapse t) # seen"] Cons.prems
    by (auto simp: normalize_tags_from_simps)
qed simp

lemma normalize_tags_from_fixed:
  "\<forall>n \<in> set ns. tag_ok n \<and> collapse n = n \<Longrightarrow> distinct (map py_casefold ns) \<Longrightarrow>
   set (map py_casefold ns) \<inter> set seen = {} \<Longrightarrow> normalize_tags_from seen ns = ns"
  by (induction ns arbitrary: seen) (auto simp: normalize_tags_from_simps)

lemma normalize_tags_collapsed: "n \<in> set (normalize_tags v) \<Longrightarrow> collapse n = n"
  using normalize_tags_from_subseq [of "[]" v]
  by (auto simp: normalize_tags_def elim!: list_emb_set)

lemma normalize_tags_idem: "normalize_tags (normalize_tags v) = normalize_tags v"
proof -
  have "\<forall>n \<in> set (normalize_tags v). tag_ok n \<and> collapse n = n"
    using normalize_tags_from_ok normalize_tags_collapsed by (auto simp: normalize_tags_def)
  moreover have "distinct (map py_casefold (normalize_tags v))"
    using normalize_tags_from_distinct [of "[]" v] by (simp add: normalize_tags_def)
  ultimately show ?thesis
    using normalize_tags_from_fixed [of "normalize_tags v" "[]"] by (simp add: normalize_tags_def)
qed

text \<open>
  Fact: the tags of a line item come out nonblank and at most 100 characters long, pairwise
  different up to case, in input order, none that is admissible is lost (up to case), and cleaning
  them again changes nothing.
\<close>

theorem normalize_tags_spec:
  "list_all (\<lambda>n. n \<noteq> [] \<and> length n \<le> 100) (normalize_tags v)
   \<and> distinct (map py_casefold (normalize_tags v))
   \<and> subseq (normalize_tags v) (map collapse v)
   \<and> {py_casefold (collapse t) | t. t \<in> set v \<and> tag_ok (collapse t)}
       = py_casefold ` set (normalize_tags v)
   \<and> normalize_tags (normalize_tags v) = normalize_tags v"
proof -
  let ?out = "normalize_tags v"
  have ok: "\<forall>n \<in> set ?out. tag_ok n" and dist: "distinct (map py_casefold ?out)"
    using normalize_tags_from_ok normalize_tags_from_distinct [of "[]" v]
    by (auto simp: normalize_tags_def)
  have sub: "subseq ?out (map collapse v)"
    by (simp add: normalize_tags_def normalize_tags_from_subseq)
  have "py_casefold ` set ?out \<subseteq> {py_casefold (collapse t) | t. t \<in> set v \<and> tag_ok (collapse t)}"
    using sub ok by (fastforce elim!: list_emb_set)
  moreover have "{py_casefold (collapse t) | t. t \<in> set v \<and> tag_ok (collapse t)} \<subseteq> py_casefold ` set ?out"
    using normalize_tags_from_complete [where seen = "[]"] by (auto simp: normalize_tags_def)
  ultimately show ?thesis
    using ok dist sub normalize_tags_idem [of v] by (auto simp: list_all_iff MAX_TAG_LENGTH_def)
qed

text \<open>Lower-casing and splitting commute, so the stored form of a tag is a normal form.\<close>

lemma split_from_lower: "split_from (py_lower w) (py_lower s) = map py_lower (split_from w s)"
proof (induction s arbitrary: w)
  case (Cons c s)
  show ?case using Cons [of "[]"] Cons [of "w @ [c]"] by (simp add: py_lower_def)
qed (simp add: py_lower_def)

lemma py_split_lower: "py_split (py_lower s) = map py_lower (py_split s)"
  using split_from_lower [of "[]" s] by (simp add: py_split_def) (simp add: py_lower_def)

lemma collapse_lower: "collapse (py_lower s) = py_lower (collapse s)"
  by (simp add: collapse_def py_split_lower lower_join)

text \<open>
  Fact: the names that \<open>create_tag\<close> stores are nonblank, at most 100 characters long and in normal
  form, so creating a stored tag again hits the same name; blank or longer names are refused.
\<close>

theorem tag_name_spec:
  "tag_name raw =
     (if py_split raw = [] then Inl (ValueError ''Tag name must not be blank'')
      else if 100 < length (collapse (py_lower raw))
      then Inl (ValueError ''Tag name must be at most 100 characters long'')
      else Inr (collapse (py_lower raw)))
   \<and> (case tag_name raw of Inl e \<Rightarrow> True | Inr n \<Rightarrow> tag_name n = Inr n)"
proof -
  have eq: "tag_name raw =
     (if py_split raw = [] then Inl (ValueError ''Tag name must not be blank'')
      else if 100 < length (collapse (py_lower raw))
      then Inl (ValueError ''Tag name must be at most 100 characters long'')
      else Inr (collapse (py_lower raw)))" for raw
    using collapse_eq_Nil [of raw]
    by (simp add: tag_name_def collapse_lower Let_def) (simp add: collapse_def py_lower_def)
  have "collapse (py_lower (collapse (py_lower raw))) = collapse (py_lower raw)"
    by (simp add: collapse_lower [of "collapse (py_lower raw)"]) (simp add: collapse_lower)
  then show ?thesis by (auto simp: eq py_split_lower)
qed

text \<open>
  Fact: the colour check accepts a hash sign and three or six hexadecimal digits, and also
  such a value followed by one line feed, because the pattern ends in a dollar sign.
\<close>

theorem is_valid_hex_color_iff:
  "is_valid_hex_color v \<longleftrightarrow>
     (\<exists>ds. (length ds = 3 \<or> length ds = 6) \<and> list_all is_hex ds
        \<and> (v = CHR ''#'' # ds \<or> v = CHR ''#'' # ds @ [CHR 0x0A]))"
proof -
  have body: "hex_body s \<longleftrightarrow>
      (\<exists>ds. (length ds = 3 \<or> length ds = 6) \<and> list_all is_hex ds \<and> s = CHR ''#'' # ds)" for s
    by (auto simp: hex_body_def split: list.splits)
  have nl: "drop_final_newline (s @ [CHR 0x0A]) = s" for s
    by (simp add: drop_final_newline_def)
  have cases: "drop_final_newline v = v \<or> v = drop_final_newline v @ [CHR 0x0A]"
    by (cases v rule: rev_cases) (auto simp: drop_final_newline_def)
  show ?thesis
  proof
    assume "is_valid_hex_color v"
    with cases show "\<exists>ds. (length ds = 3 \<or> length ds = 6) \<and> list_all is_hex ds
        \<and> (v = CHR ''#'' # ds \<or> v = CHR ''#'' # ds @ [CHR 0x0A])"
      by (auto simp: is_valid_hex_color_def body)
  next
    assume "\<exists>ds. (length ds = 3 \<or> length ds = 6) \<and> list_all is_hex ds
        \<and> (v = CHR ''#'' # ds \<or> v = CHR ''#'' # ds @ [CHR 0x0A])"
    then obtain ds where "(length ds = 3 \<or> length ds = 6) \<and> list_all is_hex ds"
      and v: "v = CHR ''#'' # ds \<or> v = (CHR ''#'' # ds) @ [CHR 0x0A]" by auto
    then have "hex_body (CHR ''#'' # ds)" by (auto simp: body)
    with v nl [of "CHR ''#'' # ds"] show "is_valid_hex_color v"
      by (auto simp: is_valid_hex_color_def)
  qed
qed

end
