(* ===== verification/PyDate.thy ===== *)
theory PyDate
  imports PyText
begin

text \<open>
  Calendar dates and times of day: the \<open>datetime\<close> operations the code uses (comparison, month
  arithmetic in service/item_statistics_service.py, ISO weekday and week for the statistics SQL,
  \<open>Time.fromisoformat\<close> and \<open>isoformat\<close> in provider/db/receipt_db.py).
\<close>

section \<open>Dates\<close>

datatype date = Date (date_year: int) (date_month: int) (date_day: int)

instantiation date :: linorder
begin

definition less_eq_date :: "date \<Rightarrow> date \<Rightarrow> bool" where
  "less_eq_date a b \<longleftrightarrow>
     (date_year a, date_month a, date_day a) \<le> (date_year b, date_month b, date_day b)"

definition less_date :: "date \<Rightarrow> date \<Rightarrow> bool" where
  "less_date a b \<longleftrightarrow>
     (date_year a, date_month a, date_day a) < (date_year b, date_month b, date_day b)"

instance
  by standard (auto simp: less_eq_date_def less_date_def date.expand)

end

definition leap_year :: "int \<Rightarrow> bool" where
  "leap_year y \<longleftrightarrow> y mod 4 = 0 \<and> (y mod 100 \<noteq> 0 \<or> y mod 400 = 0)"

definition days_in_month :: "int \<Rightarrow> int \<Rightarrow> int" where
  "days_in_month y m =
     (if m = 2 then (if leap_year y then 29 else 28)
      else if m \<in> {4, 6, 9, 11} then 30 else 31)"

text \<open>\<open>date(y, m, d)\<close>: ValueError outside the calendar.\<close>

definition mk_date :: "int \<Rightarrow> int \<Rightarrow> int \<Rightarrow> exn + date" where
  "mk_date y m d =
     (if 1 \<le> y \<and> y \<le> 9999 \<and> 1 \<le> m \<and> m \<le> 12 \<and> 1 \<le> d \<and> d \<le> days_in_month y m
      then Inr (Date y m d) else Inl (ValueError ''date out of range''))"

definition valid_date :: "date \<Rightarrow> bool" where
  "valid_date v \<longleftrightarrow> mk_date (date_year v) (date_month v) (date_day v) = Inr v"

definition month_start :: "date \<Rightarrow> int \<Rightarrow> exn + date" where
  "month_start v offset =
     (let n = date_year v * 12 + date_month v - 1 + offset in mk_date (n div 12) (n mod 12 + 1) 1)"

text \<open>The number of whole months since year 0, on which \<open>month_start\<close> is an addition.\<close>

definition month_index :: "date \<Rightarrow> int" where
  "month_index v = date_year v * 12 + date_month v - 1"

lemma month_start_alt:
  "month_start v k = mk_date ((month_index v + k) div 12) ((month_index v + k) mod 12 + 1) 1"
  by (simp add: month_start_def month_index_def Let_def)

lemma month_start_Inr:
  "month_start v k = Inr d \<longleftrightarrow>
     12 \<le> month_index v + k \<and> month_index v + k < 120000
     \<and> d = Date ((month_index v + k) div 12) ((month_index v + k) mod 12 + 1) 1"
proof -
  have "0 \<le> n mod 12" "n mod 12 < 12" for n :: int by simp_all
  then have "1 \<le> days_in_month y m" for y m by (simp add: days_in_month_def)
  moreover have "1 \<le> (n :: int) div 12 \<longleftrightarrow> 12 \<le> n" "n div 12 \<le> 9999 \<longleftrightarrow> n < 120000" for n by presburger+
  moreover have "1 \<le> (n :: int) mod 12 + 1" "n mod 12 + 1 \<le> 12" for n by presburger+
  ultimately show ?thesis
    by (auto simp: month_start_def mk_date_def month_index_def Let_def)
qed

lemma month_index_month_start: "month_start v k = Inr d \<Longrightarrow> month_index d = month_index v + k"
  by (auto simp: month_start_Inr month_index_def)

text \<open>
  Fact: months are counted correctly. Where it returns, \<open>month_start\<close> is the first day of a month,
  going \<open>a\<close> months and then \<open>b\<close> months is going \<open>a + b\<close> months, and a later month is a later date.
\<close>

theorem month_start_additive:
  assumes "month_start v a = Inr d"
  shows "date_day d = 1 \<and> month_start d b = month_start v (a + b)
    \<and> (month_start v c = Inr e \<longrightarrow> (d < e \<longleftrightarrow> a < c))"
proof -
  have lex: "(i div 12, i mod 12 + 1, 1 :: int) < (j div 12, j mod 12 + 1, 1) \<longleftrightarrow> i < j" for i j :: int
  proof -
    have aux: "(q, r + 1, 1 :: int) < (q', r' + 1, 1) \<longleftrightarrow> 12 * q + r < 12 * q' + r'"
      if "0 \<le> r" "r < 12" "0 \<le> r'" "r' < 12" for q r q' r' :: int
      using that by (auto simp: less_prod_simp)
    show ?thesis using aux [of "i mod 12" "j mod 12" "i div 12" "j div 12"] by simp
  qed
  have "d < e \<longleftrightarrow> a < c" if "month_start v c = Inr e"
    using assms that lex [of "month_index v + a" "month_index v + c"]
    by (simp add: month_start_Inr less_date_def)
  moreover have "month_start d b = month_start v (a + b)"
    using month_index_month_start [OF assms]
    by (simp add: month_start_alt add.assoc)
  ultimately show ?thesis using assms by (auto simp: month_start_Inr)
qed

theorem month_start_additive_witness:
  "month_start (Date 2026 3 17) (- 3) = Inr (Date 2025 12 1)
   \<and> month_start (Date 2025 12 1) 3 = Inr (Date 2026 3 1)"
proof -
  have a: "month_start (Date 2026 3 17) (- 3) = Inr (Date 2025 12 1)"
    by (simp add: month_start_Inr month_index_def)
  have "month_start (Date 2025 12 1) 3 = month_start (Date 2026 3 17) 0"
    using month_start_additive [OF a, of 3] by simp
  also have "\<dots> = Inr (Date 2026 3 1)" by (simp add: month_start_Inr month_index_def)
  finally show ?thesis using a by simp
qed

section \<open>Ordinals, ISO weekdays and weeks\<close>

definition days_before_month :: "int \<Rightarrow> int \<Rightarrow> int" where
  "days_before_month y m = sum_list (map (days_in_month y) [1..m - 1])"

definition toordinal :: "date \<Rightarrow> int" where
  "toordinal v = (let y = date_year v - 1 in
     365 * y + y div 4 - y div 100 + y div 400 + days_before_month (date_year v) (date_month v) + date_day v)"

text \<open>\<open>EXTRACT(ISODOW FROM date)\<close>: Monday is 1.\<close>

definition isodow :: "date \<Rightarrow> int" where
  "isodow v = (toordinal v - 1) mod 7 + 1"

text \<open>\<open>date_trunc('week', date)\<close>, as an ordinal: the Monday of the week.\<close>

definition week_start :: "date \<Rightarrow> int" where
  "week_start v = toordinal v - (isodow v - 1)"

lemma week_start_monday: "week_start v mod 7 = 1 \<and> week_start v \<le> toordinal v \<and> toordinal v < week_start v + 7"
proof -
  define n where "n = toordinal v - 1"
  have "week_start v = n - n mod 7 + 1" by (simp add: week_start_def isodow_def n_def)
  also have "n - n mod 7 = 7 * (n div 7)" by (rule minus_mod_eq_mult_div)
  finally have w: "week_start v = 7 * (n div 7) + 1" .
  have "0 \<le> n mod 7" "n mod 7 < 7" "7 * (n div 7) + n mod 7 = n" by simp_all
  then have "7 * (n div 7) \<le> n" "n < 7 * (n div 7) + 7" by linarith+
  then show ?thesis unfolding w by (simp add: n_def)
qed

section \<open>Times of day\<close>

datatype tod = Time (tod_hour: nat) (tod_minute: nat) (tod_second: nat) (tod_micro: nat)

definition valid_tod :: "tod \<Rightarrow> bool" where
  "valid_tod t \<longleftrightarrow> tod_hour t < 24 \<and> tod_minute t < 60 \<and> tod_second t < 60 \<and> tod_micro t < 1000000"

definition is_digit :: "char \<Rightarrow> bool" where
  "is_digit c \<longleftrightarrow> 48 \<le> code_of c \<and> code_of c \<le> 57"

definition digit_val :: "char \<Rightarrow> nat" where
  "digit_val c = code_of c - 48"

definition nat_of_digits :: "string \<Rightarrow> nat" where
  "nat_of_digits s = foldl (\<lambda>n c. 10 * n + digit_val c) 0 s"

text \<open>The last \<open>w\<close> decimal digits of a number, padded with zeros.\<close>

definition digit_char :: "nat \<Rightarrow> char" where
  "digit_char d = char_of (48 + d)"

fun digits_of :: "nat \<Rightarrow> nat \<Rightarrow> string" where
  "digits_of 0 n = []"
| "digits_of (Suc w) n = digits_of w (n div 10) @ [digit_char (n mod 10)]"

definition two_digits :: "string \<Rightarrow> nat option" where
  "two_digits s = (if length s = 2 \<and> list_all is_digit s then Some (nat_of_digits s) else None)"

text \<open>The fraction: one to any number of digits, of which the first six count.\<close>

definition parse_fraction :: "string \<Rightarrow> nat option" where
  "parse_fraction s =
     (if s \<noteq> [] \<and> list_all is_digit s
      then Some (nat_of_digits (take 6 s) * 10 ^ (6 - length (take 6 s))) else None)"

text \<open>
  CPython's \<open>_parse_hh_mm_ss_ff\<close>: two digits of hours, then minutes and seconds, with or without
  colons but consistently so, then an optional fraction after a full stop or a comma.
\<close>

definition frac_part :: "nat \<Rightarrow> nat \<Rightarrow> nat \<Rightarrow> string \<Rightarrow> tod option" where
  "frac_part h m s r = (case r of [] \<Rightarrow> Some (Time h m s 0)
     | c # f \<Rightarrow> if c = CHR ''.'' \<or> c = CHR '','' then map_option (Time h m s) (parse_fraction f) else None)"

definition parse_hms :: "string \<Rightarrow> tod option" where
  "parse_hms t = (case two_digits (take 2 t) of None \<Rightarrow> None | Some h \<Rightarrow>
     (case drop 2 t of [] \<Rightarrow> Some (Time h 0 0 0)
      | c # r \<Rightarrow>
          let sep = (c = CHR '':''); rest = (if sep then r else c # r) in
          (case two_digits (take 2 rest) of None \<Rightarrow> None | Some m \<Rightarrow>
             (case drop 2 rest of [] \<Rightarrow> Some (Time h m 0 0)
              | c' # r' \<Rightarrow>
                  if sep \<and> c' \<noteq> CHR '':'' then None
                  else let rest' = (if sep then r' else c' # r') in
                    (case two_digits (take 2 rest') of None \<Rightarrow> None
                     | Some s \<Rightarrow> frac_part h m s (drop 2 rest'))))))"

text \<open>
  \<open>Time.fromisoformat\<close>. A UTC offset is checked and then dropped: the TIME column of the schema
  stores the clock reading only.
\<close>

definition is_zone_mark :: "char \<Rightarrow> bool" where
  "is_zone_mark c \<longleftrightarrow> c = CHR ''-'' \<or> c = CHR ''+'' \<or> c = CHR ''Z''"

definition valid_zone :: "string \<Rightarrow> bool" where
  "valid_zone z = (case z of [] \<Rightarrow> True
     | c # r \<Rightarrow> if c = CHR ''Z'' then r = []
        else (case parse_hms r of None \<Rightarrow> False | Some t \<Rightarrow> valid_tod t))"

definition time_fromisoformat :: "string \<Rightarrow> exn + tod" where
  "time_fromisoformat s =
     (let s' = removeprefix s ''T''; clock = takeWhile (\<lambda>c. \<not> is_zone_mark c) s';
          zone = dropWhile (\<lambda>c. \<not> is_zone_mark c) s'
      in case parse_hms clock of
           None \<Rightarrow> Inl (ValueError ''Invalid isoformat string'')
         | Some t \<Rightarrow> if valid_tod t \<and> valid_zone zone then Inr t
                     else Inl (ValueError ''Invalid isoformat string''))"

definition time_isoformat :: "tod \<Rightarrow> string" where
  "time_isoformat t =
     digits_of 2 (tod_hour t) @ '':'' @ digits_of 2 (tod_minute t) @ '':'' @ digits_of 2 (tod_second t)
     @ (if tod_micro t = 0 then [] else ''.'' @ digits_of 6 (tod_micro t))"

lemma code_of_digit_char: "d < 10 \<Longrightarrow> code_of (digit_char d) = 48 + d"
  by (simp add: code_of_def digit_char_def)

lemma is_digit_char [simp]: "d < 10 \<Longrightarrow> is_digit (digit_char d)"
  by (simp add: is_digit_def code_of_digit_char)

lemma digit_val_char [simp]: "d < 10 \<Longrightarrow> digit_val (digit_char d) = d"
  by (simp add: digit_val_def code_of_digit_char)

lemma length_digits_of [simp]: "length (digits_of w n) = w"
  by (induction w arbitrary: n) simp_all

lemma digits_of_digits [simp]: "list_all is_digit (digits_of w n)"
  by (induction w arbitrary: n) simp_all

lemma nat_of_digits_of: "n < 10 ^ w \<Longrightarrow> nat_of_digits (digits_of w n) = n"
proof (induction w arbitrary: n)
  case (Suc w)
  then have "n div 10 < 10 ^ w" by (simp add: less_mult_imp_div_less)
  with Suc.IH [of "n div 10"] show ?case by (simp add: nat_of_digits_def)
qed (simp add: nat_of_digits_def)

lemma two_digits_of: "n < 100 \<Longrightarrow> two_digits (digits_of 2 n) = Some n"
  using nat_of_digits_of [of n 2] by (simp add: two_digits_def)

lemma parse_fraction_of: "n < 1000000 \<Longrightarrow> parse_fraction (digits_of 6 n) = Some n"
  using nat_of_digits_of [of n 6] length_digits_of [of 6 n]
  by (simp add: parse_fraction_def del: length_digits_of flip: length_greater_0_conv)

lemma parse_hms_isoformat:
  assumes "valid_tod t"
  shows "parse_hms (time_isoformat t) = Some t"
proof -
  obtain h m s u where t: "t = Time h m s u" by (cases t)
  have two: "take 2 (digits_of 2 n @ r) = digits_of 2 n" "drop 2 (digits_of 2 n @ r) = r" for n r
    by simp_all
  have bounds: "h < 100" "m < 100" "s < 100" "u < 1000000" using assms by (simp_all add: t valid_tod_def)
  show ?thesis
    using bounds
    by (simp add: t time_isoformat_def parse_hms_def two two_digits_of frac_part_def parse_fraction_of
          del: digits_of.simps take_append drop_append)
qed

lemma digit_not_zone: "is_digit c \<Longrightarrow> \<not> is_zone_mark c"
  by (auto simp: is_digit_def is_zone_mark_def code_of_def)

lemma isoformat_no_zone: "c \<in> set (time_isoformat t) \<Longrightarrow> \<not> is_zone_mark c"
proof -
  have "is_digit c \<or> c = CHR '':'' \<or> c = CHR ''.''" if "c \<in> set (time_isoformat t)"
    using that digits_of_digits unfolding time_isoformat_def list_all_iff
    by (auto simp del: digits_of.simps split: if_splits)
  then show "c \<in> set (time_isoformat t) \<Longrightarrow> \<not> is_zone_mark c"
    using digit_not_zone by (auto simp: is_zone_mark_def)
qed

lemma isoformat_no_T: "\<not> prefix ''T'' (time_isoformat t)"
proof -
  have "\<exists>c r. digits_of 2 n = c # r \<and> is_digit c" for n
    using length_digits_of [of 2 n] digits_of_digits [of 2 n]
    by (cases "digits_of 2 n") (simp_all del: digits_of.simps)
  then obtain c r where "time_isoformat t = c # r" "is_digit c"
    unfolding time_isoformat_def by (metis append_Cons)
  then show ?thesis by (auto simp: is_digit_def code_of_def)
qed

text \<open>
  Fact: a time of day read back from the database (written with \<open>isoformat\<close>) is parsed by
  \<open>fromisoformat\<close> to the same time, so saving an unchanged receipt does not move its time.
\<close>

theorem time_roundtrip:
  assumes "valid_tod t"
  shows "time_fromisoformat (time_isoformat t) = Inr t"
proof -
  let ?s = "time_isoformat t"
  have "takeWhile (\<lambda>c. \<not> is_zone_mark c) ?s = ?s" "dropWhile (\<lambda>c. \<not> is_zone_mark c) ?s = []"
    using isoformat_no_zone by (auto simp: takeWhile_eq_all_conv dropWhile_eq_Nil_conv)
  then show ?thesis
    using assms by (simp only: time_fromisoformat_def removeprefix_def isoformat_no_T if_False Let_def)
      (simp add: parse_hms_isoformat valid_zone_def)
qed

theorem time_roundtrip_witness:
  "time_isoformat (Time 9 5 0 0) = ''09:05:00'' \<and> time_fromisoformat ''09:05:00'' = Inr (Time 9 5 0 0)"
proof -
  have s: "time_isoformat (Time 9 5 0 0) = ''09:05:00''" by code_simp
  have "valid_tod (Time 9 5 0 0)" by (simp add: valid_tod_def)
  from time_roundtrip [OF this] s show ?thesis by simp
qed

end
