(* ===== verification/PyNumeric.thy ===== *)
theory PyNumeric
  imports Prelude "HOL-Library.Log_Nat"
begin

text \<open>
  Numbers. A \<open>Decimal\<close> and a \<open>float\<close> are both rationals; what the machine does to them is a
  rounding function applied where the code converts or divides:
  \<^item> \<open>to_double\<close> is \<open>float(...)\<close> on a Decimal: 53 binary digits, ties to even (the exponent range
    is not bounded: amounts that overflow or underflow a double are outside NUMERIC(14,2) anyway);
  \<^item> \<open>dec28\<close> is the rounding of a Decimal operation in the default context: 28 digits, ties to even;
  \<^item> \<open>store_numeric\<close> is what a NUMERIC(p,s) column keeps of a float: the driver hands over its exact
    value, the column rounds half away from zero and refuses what does not fit.
  Used by provider/db/receipt_db.py, service/benchmark_scoring.py and
  service/item_statistics_service.py.
\<close>

section \<open>Rounding\<close>

definition round_half_even :: "rat \<Rightarrow> int" where
  "round_half_even x = (let f = \<lfloor>x\<rfloor>; d = x - of_int f in
     if d < 1 / 2 then f else if 1 / 2 < d then f + 1 else if even f then f else f + 1)"

definition round_half_up :: "rat \<Rightarrow> int" where
  "round_half_up x = (if 0 \<le> x then \<lfloor>x + 1 / 2\<rfloor> else - \<lfloor>1 / 2 - x\<rfloor>)"

text \<open>The largest exponent \<open>e\<close> with \<open>b ^ e \<le> x\<close>, from the digit counts of numerator and denominator.\<close>

definition ilog :: "nat \<Rightarrow> rat \<Rightarrow> int" where
  "ilog b x = (case quotient_of x of (n, d) \<Rightarrow>
     let e = int (floorlog b (nat n)) - int (floorlog b (nat d))
     in if of_nat b powi e \<le> x then e else e - 1)"

definition round_sig :: "nat \<Rightarrow> nat \<Rightarrow> rat \<Rightarrow> rat" where
  "round_sig b p x =
     (if x = 0 then 0
      else let q = of_nat b powi (ilog b \<bar>x\<bar> - int p + 1)
           in of_int (round_half_even (x / q)) * q)"

definition to_double :: "rat \<Rightarrow> rat" where
  "to_double x = round_sig 2 53 x"

definition dec28 :: "rat \<Rightarrow> rat" where
  "dec28 x = round_sig 10 28 x"

definition numeric_scale :: "nat \<Rightarrow> rat \<Rightarrow> rat" where
  "numeric_scale s x = of_int (round_half_up (x * 10 ^ s)) / 10 ^ s"

definition store_numeric :: "nat \<Rightarrow> nat \<Rightarrow> rat \<Rightarrow> exn + rat" where
  "store_numeric p s x = (let r = numeric_scale s (to_double x) in
     if 10 ^ (p - s) \<le> \<bar>r\<bar> then Inl DataError else Inr r)"

section \<open>Error bounds\<close>

lemma round_half_even_error: "\<bar>of_int (round_half_even x) - x\<bar> \<le> 1 / 2"
proof -
  define f where "f = \<lfloor>x\<rfloor>"
  have "of_int f \<le> x" "x < of_int f + 1" using floor_correct [of x] by (simp_all add: f_def)
  then show ?thesis
    unfolding round_half_even_def f_def [symmetric] Let_def by (auto simp: abs_le_iff)
qed

lemma round_half_even_int [simp]: "round_half_even (of_int k) = k"
  by (simp add: round_half_even_def)

lemma round_half_up_near:
  assumes "\<bar>x - of_int k\<bar> < 1 / 2"
  shows "round_half_up x = k"
proof -
  have "x - of_int k < 1 / 2" "- (1 / 2) < x - of_int k" using assms by linarith+
  then have "\<lfloor>x + 1 / 2\<rfloor> = k" "\<lfloor>1 / 2 - x\<rfloor> = - k"
    by (auto simp: floor_eq_iff)
  then show ?thesis by (simp add: round_half_up_def)
qed

lemma floorlog_powi:
  assumes "1 < b" and "0 < n"
  shows "of_nat b powi (int (floorlog b n) - 1) \<le> (of_nat n :: rat)"
    and "(of_nat n :: rat) < of_nat b powi int (floorlog b n)"
proof -
  have bnd: "b ^ (floorlog b n - 1) \<le> n \<and> n < b ^ floorlog b n"
    using floorlog_bounds [of n b] assms by simp
  have "0 < floorlog b n" using assms floorlog_eq_zero_iff [of b n] by auto
  then have "of_nat b powi (int (floorlog b n) - 1) = (of_nat (b ^ (floorlog b n - 1)) :: rat)"
    by (simp add: power_int_def nat_diff_distrib)
  with bnd show "of_nat b powi (int (floorlog b n) - 1) \<le> (of_nat n :: rat)"
    by (simp del: of_nat_power)
  have "(of_nat n :: rat) < of_nat (b ^ floorlog b n)" using bnd by (simp del: of_nat_power)
  then show "(of_nat n :: rat) < of_nat b powi int (floorlog b n)" by simp
qed

lemma ilog_bounds:
  assumes "1 < b" and "0 < x"
  shows "of_nat b powi ilog b x \<le> x \<and> x < of_nat b powi (ilog b x + 1)"
proof -
  obtain n d where q: "quotient_of x = (n, d)" by (cases "quotient_of x")
  have d: "0 < d" using quotient_of_denom_pos [OF q] .
  have x: "x = of_int n / of_int d" using quotient_of_div [OF q] .
  with assms(2) d have n: "0 < n" by (simp add: zero_less_divide_iff)
  let ?B = "of_nat b :: rat"
  let ?ln = "int (floorlog b (nat n))" and ?ld = "int (floorlog b (nat d))"
  have B: "1 < ?B" using assms(1) by simp
  have N: "?B powi (?ln - 1) \<le> of_int n" "of_int n < ?B powi ?ln"
    using floorlog_powi [OF assms(1), of "nat n"] n by simp_all
  have D: "?B powi (?ld - 1) \<le> of_int d" "of_int d < ?B powi ?ld"
    using floorlog_powi [OF assms(1), of "nat d"] d by simp_all
  have pos: "0 < ?B powi k" for k using B by simp
  have split: "?B powi (k + l) = ?B powi k * ?B powi l" for k l
    using B by (simp add: power_int_add)
  have "of_int n < ?B powi ?ln" by (rule N(2))
  also have "\<dots> = ?B powi (?ln - ?ld + 1) * ?B powi (?ld - 1)"
    using split [of "?ln - ?ld + 1" "?ld - 1"] by simp
  also have "\<dots> \<le> ?B powi (?ln - ?ld + 1) * of_int d" using D(1) pos by simp
  finally have hi: "x < ?B powi (?ln - ?ld + 1)" using d by (simp add: x divide_less_eq)
  have "?B powi (?ln - ?ld - 1) * of_int d \<le> ?B powi (?ln - ?ld - 1) * ?B powi ?ld"
    using D(2) pos by simp
  also have "\<dots> = ?B powi (?ln - 1)" using split [of "?ln - ?ld - 1" ?ld] by simp
  also have "\<dots> \<le> of_int n" by (rule N(1))
  finally have lo: "?B powi (?ln - ?ld - 1) \<le> x" using d by (simp add: x le_divide_eq)
  show ?thesis using hi lo by (auto simp: ilog_def q Let_def)
qed

lemma round_sig_error:
  assumes "1 < b"
  shows "\<bar>round_sig b p x - x\<bar> \<le> \<bar>x\<bar> * of_nat b powi (1 - int p) / 2"
proof (cases "x = 0")
  case False
  let ?B = "of_nat b :: rat"
  define q where "q = ?B powi (ilog b \<bar>x\<bar> - int p + 1)"
  have B: "1 < ?B" using assms by simp
  then have q: "0 < q" by (simp add: q_def)
  have "q = ?B powi (ilog b \<bar>x\<bar> + (1 - int p))" by (simp add: q_def algebra_simps)
  also have "\<dots> = ?B powi ilog b \<bar>x\<bar> * ?B powi (1 - int p)" using B by (subst power_int_add) simp_all
  also have "\<dots> \<le> \<bar>x\<bar> * ?B powi (1 - int p)"
    using ilog_bounds [OF assms, of "\<bar>x\<bar>"] False B by (intro mult_right_mono) simp_all
  finally have qx: "q \<le> \<bar>x\<bar> * ?B powi (1 - int p)" .
  have "round_sig b p x - x = (of_int (round_half_even (x / q)) - x / q) * q"
    using False q by (simp add: round_sig_def Let_def q_def [symmetric] left_diff_distrib)
  then have "\<bar>round_sig b p x - x\<bar> \<le> 1 / 2 * q"
    using round_half_even_error [of "x / q"] q by (simp add: abs_mult mult_right_mono)
  with qx show ?thesis by simp
qed (simp add: round_sig_def)

lemma to_double_error: "\<bar>to_double x - x\<bar> \<le> \<bar>x\<bar> / 2 ^ 53"
  using round_sig_error [of 2 53 x] by (simp add: to_double_def power_int_def power_one_over field_simps)

lemma dec28_error: "\<bar>dec28 x - x\<bar> \<le> \<bar>x\<bar> / (2 * 10 ^ 27)"
  using round_sig_error [of 10 28 x] by (simp add: dec28_def power_int_def power_one_over field_simps)

section \<open>Exact operations\<close>

lemma round_sig_exact:
  assumes "1 < b" and x: "x = of_int n * of_nat b powi k" and n: "\<bar>n\<bar> < int b ^ p"
  shows "round_sig b p x = x"
proof (cases "n = 0")
  case False
  let ?B = "of_nat b :: rat"
  have B: "1 < ?B" using assms(1) by simp
  have ax: "\<bar>x\<bar> = of_int \<bar>n\<bar> * ?B powi k" and x0: "x \<noteq> 0" using B False by (simp_all add: x abs_mult)
  have "of_int \<bar>n\<bar> < (of_int (int b ^ p) :: rat)" using n by (simp only: of_int_less_iff)
  then have "\<bar>x\<bar> < ?B powi int p * ?B powi k" using B unfolding ax by simp
  also have "\<dots> = ?B powi (int p + k)" using B by (simp add: power_int_add)
  finally have "?B powi ilog b \<bar>x\<bar> < ?B powi (int p + k)"
    using ilog_bounds [OF assms(1), of "\<bar>x\<bar>"] x0 by (auto intro: le_less_trans)
  then have "ilog b \<bar>x\<bar> < int p + k" using B power_int_increasing [of "int p + k" "ilog b \<bar>x\<bar>" ?B] by (metis less_imp_le linorder_not_less)
  then have e: "ilog b \<bar>x\<bar> - int p + 1 \<le> k" by simp
  define q where "q = ?B powi (ilog b \<bar>x\<bar> - int p + 1)"
  have "x / q = of_int n * ?B powi (k - (ilog b \<bar>x\<bar> - int p + 1))"
    using B by (simp add: x q_def power_int_diff)
  also have "\<dots> = of_int (n * int b ^ nat (k - (ilog b \<bar>x\<bar> - int p + 1)))"
    using e by (simp add: power_int_def)
  finally have "of_int (round_half_even (x / q)) = x / q" by (metis round_half_even_int)
  moreover have "q \<noteq> 0" using B by (simp add: q_def)
  ultimately show ?thesis using x0 by (simp add: round_sig_def Let_def q_def [symmetric])
qed (simp add: round_sig_def x)

text \<open>Whole cents: what the money columns hold. Sums below 10^26 are exact in the default context.\<close>

definition cents :: "rat \<Rightarrow> bool" where
  "cents x \<longleftrightarrow> x * 100 \<in> \<int>"

lemma cents_code [code]: "cents x \<longleftrightarrow> of_int \<lfloor>x * 100\<rfloor> = x * 100"
  unfolding cents_def by (metis Ints_of_int floor_of_int Ints_cases)

lemma cents_add [intro]: "cents x \<Longrightarrow> cents y \<Longrightarrow> cents (x + y)"
  by (simp add: cents_def distrib_right)

lemma dec28_cents: "cents x \<Longrightarrow> \<bar>x\<bar> < 10 ^ 26 \<Longrightarrow> dec28 x = x"
proof -
  assume "cents x" and b: "\<bar>x\<bar> < 10 ^ 26"
  then obtain n where n: "x * 100 = of_int n" unfolding cents_def by (metis Ints_cases)
  have "of_int \<bar>n\<bar> = \<bar>x\<bar> * 100" using n by (simp add: abs_mult flip: n)
  then have "of_int \<bar>n\<bar> < (of_int (10 ^ 28) :: rat)" using b by simp
  then have "\<bar>n\<bar> < int 10 ^ 28" by (simp only: of_int_less_iff) simp
  then show ?thesis
    using n round_sig_exact [of 10 x n "-2" 28] by (simp add: dec28_def power_int_def field_simps)
qed

lemma dec28_fold:
  assumes "\<forall>x \<in> set xs. cents x \<and> \<bar>x\<bar> \<le> B" and "cents a" and "\<bar>a\<bar> + of_nat (length xs) * B < 10 ^ 26" and "0 \<le> B"
  shows "foldl (\<lambda>a x. dec28 (a + x)) a xs = a + sum_list xs"
  using assms
proof (induction xs arbitrary: a)
  case (Cons x xs)
  have m: "0 \<le> of_nat (length xs) * B" using Cons.prems(4) by simp
  have ax: "\<bar>a + x\<bar> \<le> \<bar>a\<bar> + B" using Cons.prems(1) abs_triangle_ineq [of a x] by force
  have len: "\<bar>a\<bar> + B + of_nat (length xs) * B < 10 ^ 26" using Cons.prems(3) by (simp add: algebra_simps)
  have "dec28 (a + x) = a + x" using Cons.prems(1,2) ax len m by (intro dec28_cents cents_add) auto
  moreover have "\<bar>a + x\<bar> + of_nat (length xs) * B < 10 ^ 26" using ax len by linarith
  ultimately show ?case using Cons.IH [of "a + x"] Cons.prems by (simp add: cents_add add.assoc)
qed simp

section \<open>Amounts survive storage\<close>

text \<open>
  Fact: an amount in whole cents below 10^12 goes through \<open>float(...)\<close> and a NUMERIC(14,2) column
  unchanged, so money columns return exactly what was written.
\<close>

theorem store_cents_exact:
  assumes "x = of_int k / 100" and "\<bar>x\<bar> < 10 ^ 12"
  shows "store_numeric 14 2 x = Inr x"
proof -
  have "\<bar>to_double x - x\<bar> \<le> 10 ^ 12 / 2 ^ 53"
    using to_double_error [of x] assms(2) by (simp add: field_simps)
  then have "\<bar>to_double x * 10 ^ 2 - of_int k\<bar> < 1 / 2"
    by (simp add: assms(1) abs_if split: if_splits)
  then have "numeric_scale 2 (to_double x) = x"
    by (simp add: numeric_scale_def round_half_up_near [where k = k] assms(1))
  then show ?thesis using assms(2) by (simp add: store_numeric_def)
qed

theorem store_cents_exact_witness: "store_numeric 14 2 (1999 / 100) = Inr (1999 / 100)"
  using store_cents_exact [of "1999 / 100" 1999] by simp

end
