(* ===== verification/Models.thy ===== *)
theory Models
  imports PyDate PyNumeric
begin

text \<open>
  The values the layers exchange: JSON payloads, the pydantic models of an extracted or edited
  receipt (model/receipt.py, api/receipts.py), the spending categories (model/item_category.py)
  and the parts of an uploaded submission (model/db/image.py). Fields are named after the model's,
  with a prefix. Field constraints that pydantic enforces are predicates here
  (\<open>valid_line_item\<close>, \<open>valid_receipt\<close>); the before/after validators are functions.
\<close>

section \<open>JSON\<close>

datatype json = JNull | JBool bool | JInt int | JNum rat | JStr string | JArr "json list" | JObj "(string \<times> json) list"

text \<open>\<open>payload.get(key)\<close> on a decoded object; of repeated keys the last counts, as in a dict.\<close>

definition jget :: "string \<Rightarrow> json \<Rightarrow> json option" where
  "jget k j = (case j of JObj kvs \<Rightarrow> map_of (rev kvs) k | _ \<Rightarrow> None)"

section \<open>Spending categories\<close>

definition CATEGORY_CODES :: "string list" where
  "CATEGORY_CODES =
    [''unknown'', ''other'', ''milk'', ''cheese'', ''yogurt'', ''eggs'', ''butter_spreads'',
     ''bread_bakery'', ''cereals'', ''pasta_rice_grains'', ''vegetables'', ''fruit'',
     ''meat'', ''fish'', ''ready_meals'', ''snacks_sweets'', ''coffee_tea'', ''water'',
     ''soft_drinks'', ''alcohol'', ''sauces_spices'', ''cleaning'', ''household'',
     ''personal_care'', ''pet'', ''health'', ''clothing'', ''electronics'', ''hardware'',
     ''restaurant'', ''fuel'', ''services'', ''deposit'']"

definition known_category :: "string \<Rightarrow> bool" where
  "known_category c \<longleftrightarrow> c \<in> set CATEGORY_CODES"

definition llm_category :: "json \<Rightarrow> string" where
  "llm_category v = (case v of JStr s \<Rightarrow> if known_category s then s else ''unknown'' | _ \<Rightarrow> ''unknown'')"

section \<open>Receipts as the model and the editor send them\<close>

text \<open>
  A line item. The last three fields belong to \<open>LineItemUpdate\<close>: the id of the stored row, the
  request to remember the category, and whether the body named the category at all
  (\<open>"spending_category" in model_fields_set\<close>).
\<close>

record line_item =
  i_description :: string
  i_category :: string
  i_quantity :: rat
  i_unit_price :: rat
  i_total_price :: rat
  i_tags :: "string list"
  i_id :: "uuid option"
  i_remember :: bool
  i_category_set :: bool

record tax_line =
  x_name :: string
  x_rate :: "rat option"
  x_amount :: rat

record receipt =
  rc_confidence :: int
  rc_merchant_name :: string
  rc_merchant_address :: "string option"
  rc_receipt_number :: "string option"
  rc_date :: date
  rc_time :: "string option"
  rc_currency :: string
  rc_category :: string
  rc_line_items :: "line_item list"
  rc_taxes :: "tax_line list"
  rc_subtotal :: rat
  rc_discount_total :: rat
  rc_tax_total :: rat
  rc_tip :: "rat option"
  rc_total :: rat
  rc_payment_method :: string

definition RECEIPT_CATEGORIES :: "string list" where
  "RECEIPT_CATEGORIES = [''grocery'', ''electronics'', ''clothing'', ''restaurant'', ''fuel'',
     ''pharmacy'', ''entertainment'', ''other'']"

definition PAYMENT_METHODS :: "string list" where
  "PAYMENT_METHODS = [''cash'', ''credit_card'', ''debit_card'', ''mobile_payment'', ''check'',
     ''other'', ''unknown'']"

text \<open>
  \<open>LineItem(...)\<close>: the category goes through the before-validator (an omitted one is "unknown"),
  the quantity must be positive, the tags are cleaned.
\<close>

definition mk_line_item ::
  "string \<Rightarrow> json option \<Rightarrow> rat \<Rightarrow> rat \<Rightarrow> rat \<Rightarrow> string list \<Rightarrow> exn + line_item" where
  "mk_line_item description category quantity unit_price total_price tags =
     (if quantity \<le> 0 then Inl (ValueError ''quantity must be positive'')
      else Inr \<lparr>i_description = description,
                i_category = (case category of None \<Rightarrow> ''unknown'' | Some v \<Rightarrow> llm_category v),
                i_quantity = quantity, i_unit_price = unit_price, i_total_price = total_price,
                i_tags = normalize_tags tags, i_id = None, i_remember = False,
                i_category_set = (category \<noteq> None)\<rparr>)"

text \<open>
  \<open>LineItemUpdate(...)\<close>: the model validator runs first and refuses a category that is not in the
  vocabulary, where the plain model would replace it by "unknown".
\<close>

definition check_category :: "json option \<Rightarrow> bool" where
  "check_category category = (case category of None \<Rightarrow> True
     | Some v \<Rightarrow> (case v of JStr s \<Rightarrow> known_category s | _ \<Rightarrow> False))"

definition mk_line_item_update ::
  "string \<Rightarrow> json option \<Rightarrow> rat \<Rightarrow> rat \<Rightarrow> rat \<Rightarrow> string list \<Rightarrow> uuid option \<Rightarrow> bool \<Rightarrow> exn + line_item" where
  "mk_line_item_update description category quantity unit_price total_price tags ident remember =
     (if \<not> check_category category then Inl (ValueError ''Unsupported spending category'')
      else case mk_line_item description category quantity unit_price total_price tags of
             Inl e \<Rightarrow> Inl e
           | Inr item \<Rightarrow> Inr (item\<lparr>i_id := ident, i_remember := remember\<rparr>))"

definition valid_line_item :: "line_item \<Rightarrow> bool" where
  "valid_line_item i \<longleftrightarrow> known_category (i_category i) \<and> 0 < i_quantity i \<and> normalize_tags (i_tags i) = i_tags i"

definition valid_receipt :: "receipt \<Rightarrow> bool" where
  "valid_receipt r \<longleftrightarrow>
     0 \<le> rc_confidence r \<and> rc_confidence r \<le> 100
     \<and> rc_category r \<in> set RECEIPT_CATEGORIES \<and> rc_payment_method r \<in> set PAYMENT_METHODS
     \<and> 0 \<le> rc_discount_total r \<and> 0 \<le> rc_tax_total r
     \<and> (case rc_tip r of None \<Rightarrow> True | Some t \<Rightarrow> 0 \<le> t)
     \<and> list_all valid_line_item (rc_line_items r)
     \<and> list_all (\<lambda>x. 0 \<le> x_amount x) (rc_taxes r)"

section \<open>Submissions\<close>

record image_part =
  part_path :: string
  part_thumb :: "string option"
  part_filename :: "string option"
  part_media :: "string option"
  part_size :: "int option"

section \<open>What validation guarantees\<close>

lemma unknown_known [simp]: "known_category ''unknown''"
  by (simp add: known_category_def CATEGORY_CODES_def)

lemma llm_category_known [simp]: "known_category (llm_category v)"
  by (simp add: llm_category_def split: json.split)

lemma mk_line_item_valid: "mk_line_item d c q u t g = Inr i \<Longrightarrow> valid_line_item i"
  using normalize_tags_idem by (auto simp: mk_line_item_def valid_line_item_def split: if_splits option.split)



end
