(* ===== verification/Schema.thy ===== *)
theory Schema
  imports Models
begin

text \<open>
  The database: the tables of alembic/versions/0001 to 0009 as lists of rows, the world that
  carries them with the clock, the identifier supply and the files on disk, and the engine's
  part of every statement: primary keys, foreign keys with their ON DELETE rules, CHECK, UNIQUE and
  length constraints. A violated constraint is an exception and the statement has no effect.

  \<open>gen_random_uuid()\<close> and \<open>uuid4()\<close> read the next entry of \<open>w_supply\<close>, of which nothing is
  assumed: a repeated identifier hits the primary key. \<open>CURRENT_TIMESTAMP\<close> and \<open>now()\<close> read
  \<open>w_clock\<close>, in seconds.
\<close>

section \<open>Rows\<close>

datatype image_status = Pending | Processing | Analyzed | Failed | TimedOut | Unreadable

datatype receipt_status = Unverified | Verified

datatype category_source = FromLlm | FromHistory | FromUser | FromUnknown

record user_row =
  u_id :: uuid
  u_username :: string
  u_hash :: string
  u_admin :: bool

record receipt_row =
  r_id :: uuid
  r_confidence :: int
  r_merchant_name :: string
  r_merchant_address :: "string option"
  r_receipt_number :: "string option"
  r_date :: date
  r_time :: "tod option"
  r_currency :: string
  r_category :: string
  r_subtotal :: rat
  r_discount_total :: rat
  r_tax_total :: rat
  r_tip :: "rat option"
  r_total :: rat
  r_payment_method :: string
  r_created_at :: timestamp
  r_status :: receipt_status
  r_image_id :: "uuid option"
  r_verified :: bool
  r_user_id :: "uuid option"

record item_row =
  li_id :: uuid
  li_receipt_id :: uuid
  li_description :: string
  li_original :: string
  li_category :: string
  li_source :: category_source
  li_quantity :: rat
  li_unit_price :: rat
  li_total_price :: rat
  li_tags :: "string list"
  li_position :: nat

record tax_row =
  tx_id :: uuid
  tx_receipt_id :: uuid
  tx_name :: string
  tx_rate :: "rat option"
  tx_amount :: rat

record image_row =
  im_id :: uuid
  im_filename :: "string option"
  im_media :: "string option"
  im_size :: "int option"
  im_path :: "string option"
  im_thumb :: "string option"
  im_status :: image_status
  im_error :: "string option"
  im_receipt_id :: "uuid option"
  im_bypass :: bool
  im_user_id :: "uuid option"
  im_created_at :: timestamp
  im_analyzed_at :: "timestamp option"
  im_processing_at :: "timestamp option"
  im_additional :: "image_part list"
  im_model_id :: "string option"

record collection_row =
  c_id :: uuid
  c_user_id :: uuid
  c_name :: string
  c_color :: "string option"
  c_start :: "date option"
  c_end :: "date option"
  c_active :: bool
  c_created_at :: timestamp

record link_row =
  lk_receipt_id :: uuid
  lk_collection_id :: uuid

record alias_row =
  al_user_id :: uuid
  al_merchant :: string
  al_description :: string
  al_category :: string

datatype task_status = Queued | Running | WaitingForModel | Retrying

record run_row =
  b_id :: uuid
  b_completed :: bool
  b_model_ids :: "string list"
  b_receipt_ids :: "uuid list"
  b_fingerprint :: string
  b_digests :: "(string \<times> string option) list"
  b_prompt_version :: string
  b_scoring_version :: string
  b_timeout :: int
  b_created_at :: timestamp
  b_completed_at :: "timestamp option"

record task_row =
  k_run_id :: uuid
  k_model_id :: string
  k_receipt_id :: uuid
  k_status :: task_status
  k_attempts :: int
  k_leased_until :: "timestamp option"
  k_retry_at :: "timestamp option"
  k_started_at :: "timestamp option"

record summary_row =
  s_run_id :: uuid
  s_model_id :: string
  s_digest :: "string option"
  s_completed :: int
  s_succeeded :: int
  s_failed :: int
  s_total_score :: rat
  s_total_confidence :: rat
  s_total_attempts :: int
  s_total_latency :: rat

record world =
  users_t :: "user_row list"
  receipts_t :: "receipt_row list"
  items_t :: "item_row list"
  taxes_t :: "tax_row list"
  images_t :: "image_row list"
  collections_t :: "collection_row list"
  links_t :: "link_row list"
  tags_t :: "string list"
  aliases_t :: "alias_row list"
  runs_t :: "run_row list"
  tasks_t :: "task_row list"
  summaries_t :: "summary_row list"
  w_files :: "string \<Rightarrow> string option"
  w_clock :: timestamp
  w_tick :: nat
  w_supply :: "nat \<Rightarrow> uuid"
  w_db_ready :: bool

definition gen_uuid :: "(world, uuid) py" where
  "gen_uuid w = (Inr (w_supply w (w_tick w)), w\<lparr>w_tick := Suc (w_tick w)\<rparr>)"

text \<open>
  \<open>async with conn.transaction()\<close>: an exception undoes the statements of the block; the identifiers
  it drew and the time it took are gone all the same.
\<close>

definition transaction :: "(world, 'a) py \<Rightarrow> (world, 'a) py" where
  "transaction m w = (case m w of
     (Inl e, w') \<Rightarrow> (Inl e, w\<lparr>w_tick := w_tick w', w_clock := w_clock w'\<rparr>)
   | (Inr x, w') \<Rightarrow> (Inr x, w'))"

text \<open>
  The ownership clause of the scoped statements: \<open>AND user_id = $n\<close> is added unless the caller may
  see everything or has no id; a row without owner never satisfies it.
\<close>

definition visible :: "uuid option \<Rightarrow> bool \<Rightarrow> uuid option \<Rightarrow> bool" where
  "visible user_id can_see_all owner \<longleftrightarrow> can_see_all \<or> user_id = None \<or> owner = user_id"

section \<open>Row constraints\<close>

definition varchar :: "nat \<Rightarrow> string \<Rightarrow> bool" where
  "varchar n s \<longleftrightarrow> length s \<le> n"

definition varchar_opt :: "nat \<Rightarrow> string option \<Rightarrow> bool" where
  "varchar_opt n s \<longleftrightarrow> (case s of None \<Rightarrow> True | Some t \<Rightarrow> length t \<le> n)"

definition receipt_fits :: "receipt_row \<Rightarrow> bool" where
  "receipt_fits r \<longleftrightarrow> varchar 255 (r_merchant_name r) \<and> varchar_opt 100 (r_receipt_number r)
     \<and> varchar 10 (r_currency r) \<and> varchar 50 (r_payment_method r) \<and> varchar 50 (r_category r)
     \<and> - 32768 \<le> r_confidence r \<and> r_confidence r \<le> 32767"

definition collection_fits :: "collection_row \<Rightarrow> bool" where
  "collection_fits c \<longleftrightarrow> varchar 100 (c_name c) \<and> varchar_opt 20 (c_color c)"

definition has_user :: "world \<Rightarrow> uuid \<Rightarrow> bool" where
  "has_user w i \<longleftrightarrow> i \<in> u_id ` set (users_t w)"

definition has_receipt :: "world \<Rightarrow> uuid \<Rightarrow> bool" where
  "has_receipt w i \<longleftrightarrow> i \<in> r_id ` set (receipts_t w)"

definition has_image :: "world \<Rightarrow> uuid \<Rightarrow> bool" where
  "has_image w i \<longleftrightarrow> i \<in> im_id ` set (images_t w)"

definition has_collection :: "world \<Rightarrow> uuid \<Rightarrow> bool" where
  "has_collection w i \<longleftrightarrow> i \<in> c_id ` set (collections_t w)"

definition has_run :: "world \<Rightarrow> uuid \<Rightarrow> bool" where
  "has_run w i \<longleftrightarrow> i \<in> b_id ` set (runs_t w)"

definition ref_opt :: "(uuid \<Rightarrow> bool) \<Rightarrow> uuid option \<Rightarrow> bool" where
  "ref_opt p i \<longleftrightarrow> (case i of None \<Rightarrow> True | Some k \<Rightarrow> p k)"

definition image_taken :: "world \<Rightarrow> uuid option \<Rightarrow> bool" where
  "image_taken w i \<longleftrightarrow> i \<noteq> None \<and> i \<in> r_image_id ` set (receipts_t w)"

section \<open>INSERT\<close>

definition insert_user :: "user_row \<Rightarrow> (world, user_row) py" where
  "insert_user u w =
     (if \<not> varchar 100 (u_username u) then (Inl DataError, w)
      else if has_user w (u_id u) \<or> u_username u \<in> u_username ` set (users_t w) then (Inl UniqueViolation, w)
      else (Inr u, w\<lparr>users_t := users_t w @ [u]\<rparr>))"

definition insert_receipt :: "receipt_row \<Rightarrow> (world, receipt_row) py" where
  "insert_receipt r w =
     (if \<not> receipt_fits r then (Inl DataError, w)
      else if has_receipt w (r_id r) \<or> image_taken w (r_image_id r) then (Inl UniqueViolation, w)
      else if \<not> ref_opt (has_user w) (r_user_id r) \<or> \<not> ref_opt (has_image w) (r_image_id r)
      then (Inl ForeignKeyViolation, w)
      else (Inr r, w\<lparr>receipts_t := receipts_t w @ [r]\<rparr>))"

definition insert_item :: "item_row \<Rightarrow> (world, unit) py" where
  "insert_item i w =
     (if \<not> varchar 255 (li_description i) then (Inl DataError, w)
      else if li_id i \<in> li_id ` set (items_t w) then (Inl UniqueViolation, w)
      else if \<not> has_receipt w (li_receipt_id i) then (Inl ForeignKeyViolation, w)
      else (Inr (), w\<lparr>items_t := items_t w @ [i]\<rparr>))"

definition insert_tax :: "tax_row \<Rightarrow> (world, unit) py" where
  "insert_tax t w =
     (if \<not> varchar 100 (tx_name t) then (Inl DataError, w)
      else if tx_id t \<in> tx_id ` set (taxes_t w) then (Inl UniqueViolation, w)
      else if \<not> has_receipt w (tx_receipt_id t) then (Inl ForeignKeyViolation, w)
      else (Inr (), w\<lparr>taxes_t := taxes_t w @ [t]\<rparr>))"

definition insert_image :: "image_row \<Rightarrow> (world, image_row) py" where
  "insert_image i w =
     (if \<not> varchar_opt 255 (im_filename i) \<or> \<not> varchar_opt 100 (im_media i) then (Inl DataError, w)
      else if has_image w (im_id i) then (Inl UniqueViolation, w)
      else if \<not> ref_opt (has_user w) (im_user_id i) \<or> \<not> ref_opt (has_receipt w) (im_receipt_id i)
      then (Inl ForeignKeyViolation, w)
      else (Inr i, w\<lparr>images_t := images_t w @ [i]\<rparr>))"

text \<open>The partial unique index \<open>ux_collections_one_active_per_user\<close>.\<close>

definition active_taken :: "world \<Rightarrow> uuid \<Rightarrow> uuid \<Rightarrow> bool" where
  "active_taken w user c \<longleftrightarrow>
     sql_exists (\<lambda>d. c_user_id d = user \<and> c_active d \<and> c_id d \<noteq> c) (collections_t w)"

definition insert_collection :: "collection_row \<Rightarrow> (world, collection_row) py" where
  "insert_collection c w =
     (if \<not> collection_fits c then (Inl DataError, w)
      else if has_collection w (c_id c) \<or> (c_active c \<and> active_taken w (c_user_id c) (c_id c))
      then (Inl UniqueViolation, w)
      else if \<not> has_user w (c_user_id c) then (Inl ForeignKeyViolation, w)
      else (Inr c, w\<lparr>collections_t := collections_t w @ [c]\<rparr>))"

text \<open>\<open>ON CONFLICT (receipt_id, collection_id) DO NOTHING\<close>.\<close>

definition insert_link :: "uuid \<Rightarrow> uuid \<Rightarrow> (world, unit) py" where
  "insert_link receipt collection w =
     (let l = \<lparr>lk_receipt_id = receipt, lk_collection_id = collection\<rparr> in
      if l \<in> set (links_t w) then (Inr (), w)
      else if \<not> has_receipt w receipt \<or> \<not> has_collection w collection then (Inl ForeignKeyViolation, w)
      else (Inr (), w\<lparr>links_t := links_t w @ [l]\<rparr>))"

section \<open>DELETE with the ON DELETE rules\<close>

text \<open>
  Deleting receipts cascades to their line items, taxes and collection links and clears the link
  from their images; a benchmark task that still references one blocks the statement.
\<close>

definition clear_receipt_links :: "(uuid \<Rightarrow> bool) \<Rightarrow> image_row list \<Rightarrow> image_row list" where
  "clear_receipt_links gone t =
     sql_update (\<lambda>i. \<not> ref_opt (\<lambda>k. \<not> gone k) (im_receipt_id i)) (\<lambda>i. i\<lparr>im_receipt_id := None\<rparr>) t"

definition clear_image_links :: "(uuid \<Rightarrow> bool) \<Rightarrow> receipt_row list \<Rightarrow> receipt_row list" where
  "clear_image_links gone t =
     sql_update (\<lambda>r. \<not> ref_opt (\<lambda>k. \<not> gone k) (r_image_id r)) (\<lambda>r. r\<lparr>r_image_id := None\<rparr>) t"

definition delete_receipts :: "(receipt_row \<Rightarrow> bool) \<Rightarrow> (world, receipt_row list) py" where
  "delete_receipts p w =
     (let dead = filter p (receipts_t w); gone = (\<lambda>i. i \<in> r_id ` set dead) in
      if sql_exists (\<lambda>k. gone (k_receipt_id k)) (tasks_t w) then (Inl ForeignKeyViolation, w)
      else (Inr dead, w\<lparr>receipts_t := sql_delete p (receipts_t w),
                      items_t := sql_delete (\<lambda>i. gone (li_receipt_id i)) (items_t w),
                      taxes_t := sql_delete (\<lambda>t. gone (tx_receipt_id t)) (taxes_t w),
                      links_t := sql_delete (\<lambda>l. gone (lk_receipt_id l)) (links_t w),
                      images_t := clear_receipt_links gone (images_t w)\<rparr>))"

definition delete_images :: "(image_row \<Rightarrow> bool) \<Rightarrow> (world, image_row list) py" where
  "delete_images p w =
     (let dead = filter p (images_t w); gone = (\<lambda>i. i \<in> im_id ` set dead) in
      (Inr dead, w\<lparr>images_t := sql_delete p (images_t w),
                   receipts_t := clear_image_links gone (receipts_t w)\<rparr>))"

definition delete_collections :: "(collection_row \<Rightarrow> bool) \<Rightarrow> (world, collection_row list) py" where
  "delete_collections p w =
     (let dead = filter p (collections_t w); gone = (\<lambda>i. i \<in> c_id ` set dead) in
      (Inr dead, w\<lparr>collections_t := sql_delete p (collections_t w),
                   links_t := sql_delete (\<lambda>l. gone (lk_collection_id l)) (links_t w)\<rparr>))"

section \<open>UPDATE\<close>

text \<open>
  The statements on images write no length-limited column; the foreign keys they write are the
  receipt link and, in the ownership backfill, the owner.
\<close>

definition update_images :: "(image_row \<Rightarrow> bool) \<Rightarrow> (image_row \<Rightarrow> image_row) \<Rightarrow> (world, image_row list) py" where
  "update_images p f w =
     (let new = map f (filter p (images_t w)) in
      if list_ex (\<lambda>i. \<not> ref_opt (has_receipt w) (im_receipt_id i) \<or> \<not> ref_opt (has_user w) (im_user_id i)) new
      then (Inl ForeignKeyViolation, w)
      else (Inr new, w\<lparr>images_t := sql_update p f (images_t w)\<rparr>))"

definition update_receipts ::
  "(receipt_row \<Rightarrow> bool) \<Rightarrow> (receipt_row \<Rightarrow> receipt_row) \<Rightarrow> (world, receipt_row list) py" where
  "update_receipts p f w =
     (let new = map f (filter p (receipts_t w)) in
      if list_ex (\<lambda>r. \<not> receipt_fits r) new then (Inl DataError, w)
      else if list_ex (\<lambda>r. \<not> ref_opt (has_user w) (r_user_id r)) new then (Inl ForeignKeyViolation, w)
      else (Inr new, w\<lparr>receipts_t := sql_update p f (receipts_t w)\<rparr>))"

text \<open>
  For collections the statements touch one row by id, or clear the active flag of one user's rows,
  so the index can be checked against the rows that are not updated.
\<close>

definition update_collections ::
  "(collection_row \<Rightarrow> bool) \<Rightarrow> (collection_row \<Rightarrow> collection_row) \<Rightarrow> (world, collection_row list) py" where
  "update_collections p f w =
     (let new = map f (filter p (collections_t w)) in
      if list_ex (\<lambda>c. \<not> collection_fits c) new then (Inl DataError, w)
      else if list_ex (\<lambda>c. c_active c \<and> active_taken w (c_user_id c) (c_id c)) new
      then (Inl UniqueViolation, w)
      else (Inr new, w\<lparr>collections_t := sql_update p f (collections_t w)\<rparr>))"

end
