(* ===== verification/Integrity.thy ===== *)
theory Integrity
  imports Schema
begin

text \<open>
  The integrity of the database: what the primary keys, foreign keys and unique indexes promise,
  as a predicate \<open>db_ok\<close> on the world, and the proof that every engine primitive keeps it. The
  theories of the providers and services only compose these primitives, so their handlers keep
  it by the rules for \<open>keeps\<close>.
\<close>

definition alias_key :: "alias_row \<Rightarrow> uuid \<times> string \<times> string" where
  "alias_key a = (al_user_id a, al_merchant a, al_description a)"

definition task_key :: "task_row \<Rightarrow> uuid \<times> string \<times> uuid" where
  "task_key k = (k_run_id k, k_model_id k, k_receipt_id k)"

definition summary_key :: "summary_row \<Rightarrow> uuid \<times> string" where
  "summary_key s = (s_run_id s, s_model_id s)"

definition keys_ok :: "world \<Rightarrow> bool" where
  "keys_ok w \<longleftrightarrow>
     distinct (map u_id (users_t w)) \<and> distinct (map u_username (users_t w))
     \<and> distinct (map r_id (receipts_t w)) \<and> distinct (map li_id (items_t w))
     \<and> distinct (map tx_id (taxes_t w)) \<and> distinct (map im_id (images_t w))
     \<and> distinct (map c_id (collections_t w)) \<and> distinct (links_t w) \<and> distinct (tags_t w)
     \<and> distinct (map alias_key (aliases_t w)) \<and> distinct (map b_id (runs_t w))
     \<and> distinct (map task_key (tasks_t w)) \<and> distinct (map summary_key (summaries_t w))"

definition receipt_refs :: "world \<Rightarrow> bool" where
  "receipt_refs w \<longleftrightarrow>
     (\<forall>r \<in> set (receipts_t w). ref_opt (has_user w) (r_user_id r) \<and> ref_opt (has_image w) (r_image_id r))"

definition child_refs :: "world \<Rightarrow> bool" where
  "child_refs w \<longleftrightarrow>
     (\<forall>i \<in> set (items_t w). has_receipt w (li_receipt_id i))
     \<and> (\<forall>t \<in> set (taxes_t w). has_receipt w (tx_receipt_id t))"

definition image_refs :: "world \<Rightarrow> bool" where
  "image_refs w \<longleftrightarrow>
     (\<forall>i \<in> set (images_t w). ref_opt (has_user w) (im_user_id i) \<and> ref_opt (has_receipt w) (im_receipt_id i))"

definition collection_refs :: "world \<Rightarrow> bool" where
  "collection_refs w \<longleftrightarrow>
     (\<forall>c \<in> set (collections_t w). has_user w (c_user_id c))
     \<and> (\<forall>l \<in> set (links_t w). has_receipt w (lk_receipt_id l) \<and> has_collection w (lk_collection_id l))
     \<and> (\<forall>a \<in> set (aliases_t w). has_user w (al_user_id a))"

definition task_refs :: "world \<Rightarrow> bool" where
  "task_refs w \<longleftrightarrow>
     (\<forall>k \<in> set (tasks_t w). has_run w (k_run_id k) \<and> has_receipt w (k_receipt_id k))
     \<and> (\<forall>s \<in> set (summaries_t w). has_run w (s_run_id s))"

text \<open>The two partial unique indexes, over the rows their WHERE clause selects.\<close>

definition one_receipt_per_image :: "world \<Rightarrow> bool" where
  "one_receipt_per_image w \<longleftrightarrow>
     distinct (map r_image_id (filter (\<lambda>r. r_image_id r \<noteq> None) (receipts_t w)))"

definition one_active_collection :: "world \<Rightarrow> bool" where
  "one_active_collection w \<longleftrightarrow> distinct (map c_user_id (filter c_active (collections_t w)))"

text \<open>The column types of the rows that statements rewrite in place.\<close>

definition widths_ok :: "world \<Rightarrow> bool" where
  "widths_ok w \<longleftrightarrow> list_all receipt_fits (receipts_t w) \<and> list_all collection_fits (collections_t w)"

definition db_ok :: "world \<Rightarrow> bool" where
  "db_ok w \<longleftrightarrow> keys_ok w \<and> receipt_refs w \<and> child_refs w \<and> image_refs w \<and> collection_refs w
     \<and> task_refs w \<and> one_receipt_per_image w \<and> one_active_collection w \<and> widths_ok w"

lemmas refs_defs = receipt_refs_def child_refs_def image_refs_def collection_refs_def task_refs_def

lemma has_defs:
  "has_user w = (\<lambda>i. i \<in> u_id ` set (users_t w))"
  "has_receipt w = (\<lambda>i. i \<in> r_id ` set (receipts_t w))"
  "has_image w = (\<lambda>i. i \<in> im_id ` set (images_t w))"
  "has_collection w = (\<lambda>i. i \<in> c_id ` set (collections_t w))"
  "has_run w = (\<lambda>i. i \<in> b_id ` set (runs_t w))"
  by (simp_all add: fun_eq_iff has_user_def has_receipt_def has_image_def has_collection_def has_run_def)

lemma db_okI:
  "keys_ok w \<Longrightarrow> receipt_refs w \<Longrightarrow> child_refs w \<Longrightarrow> image_refs w \<Longrightarrow> collection_refs w \<Longrightarrow> task_refs w
   \<Longrightarrow> one_receipt_per_image w \<Longrightarrow> one_active_collection w \<Longrightarrow> widths_ok w \<Longrightarrow> db_ok w"
  by (simp add: db_ok_def)

lemma ref_opt_iff: "ref_opt p i \<longleftrightarrow> (\<forall>k. i = Some k \<longrightarrow> p k)"
  by (cases i) (simp_all add: ref_opt_def)

lemma ref_opt_None [simp]: "ref_opt p None"
  by (simp add: ref_opt_def)

lemma ref_opt_Some [simp]: "ref_opt p (Some k) = p k"
  by (simp add: ref_opt_def)

lemmas unique_defs = one_receipt_per_image_def one_active_collection_def

lemma ref_opt_mono: "ref_opt p i \<Longrightarrow> p \<le> q \<Longrightarrow> ref_opt q i"
  by (cases i) (auto simp: ref_opt_def)

text \<open>
  Rows that stay keep their references as long as what they point to stays; only rows that a
  statement writes need an argument. One rule per part.
\<close>

lemma receipt_refs_grow:
  assumes "receipt_refs w" and "has_user w \<le> has_user v" and "has_image w \<le> has_image v"
    and "\<And>r. r \<in> set (receipts_t v) \<Longrightarrow> r \<in> set (receipts_t w)
           \<or> ref_opt (has_user v) (r_user_id r) \<and> ref_opt (has_image v) (r_image_id r)"
  shows "receipt_refs v"
  using assms unfolding receipt_refs_def by (metis ref_opt_mono)

lemma child_refs_grow:
  assumes "child_refs w" and "has_receipt w \<le> has_receipt v"
    and "\<And>i. i \<in> set (items_t v) \<Longrightarrow> i \<in> set (items_t w) \<or> has_receipt v (li_receipt_id i)"
    and "\<And>t. t \<in> set (taxes_t v) \<Longrightarrow> t \<in> set (taxes_t w) \<or> has_receipt v (tx_receipt_id t)"
  shows "child_refs v"
  using assms unfolding child_refs_def le_fun_def le_bool_def by metis

lemma image_refs_grow:
  assumes "image_refs w" and "has_user w \<le> has_user v" and "has_receipt w \<le> has_receipt v"
    and "\<And>i. i \<in> set (images_t v) \<Longrightarrow> i \<in> set (images_t w)
           \<or> ref_opt (has_user v) (im_user_id i) \<and> ref_opt (has_receipt v) (im_receipt_id i)"
  shows "image_refs v"
  using assms unfolding image_refs_def by (metis ref_opt_mono)

lemma collection_refs_grow:
  assumes "collection_refs w" and "has_user w \<le> has_user v" and "has_receipt w \<le> has_receipt v"
    and "has_collection w \<le> has_collection v"
    and "\<And>c. c \<in> set (collections_t v) \<Longrightarrow> c \<in> set (collections_t w) \<or> has_user v (c_user_id c)"
    and "\<And>l. l \<in> set (links_t v) \<Longrightarrow> l \<in> set (links_t w)
           \<or> has_receipt v (lk_receipt_id l) \<and> has_collection v (lk_collection_id l)"
    and "\<And>a. a \<in> set (aliases_t v) \<Longrightarrow> a \<in> set (aliases_t w) \<or> has_user v (al_user_id a)"
  shows "collection_refs v"
  using assms unfolding collection_refs_def le_fun_def le_bool_def by metis

lemma task_refs_grow:
  assumes "task_refs w" and "has_run w \<le> has_run v" and "has_receipt w \<le> has_receipt v"
    and "\<And>k. k \<in> set (tasks_t v) \<Longrightarrow> k \<in> set (tasks_t w) \<or> has_run v (k_run_id k) \<and> has_receipt v (k_receipt_id k)"
    and "\<And>s. s \<in> set (summaries_t v) \<Longrightarrow> s \<in> set (summaries_t w) \<or> has_run v (s_run_id s)"
  shows "task_refs v"
  using assms unfolding task_refs_def le_fun_def le_bool_def by metis

lemmas refs_grow = receipt_refs_grow child_refs_grow image_refs_grow collection_refs_grow task_refs_grow

lemma db_okD:
  assumes "db_ok w"
  shows "keys_ok w" "receipt_refs w" "child_refs w" "image_refs w" "collection_refs w" "task_refs w"
    "one_receipt_per_image w" "one_active_collection w" "widths_ok w"
  using assms by (simp_all add: db_ok_def)

section \<open>Insertions\<close>

lemma insert_user_ok [keeps_intro]: "keeps db_ok (insert_user u)"
proof (rule keepsI)
  fix w assume ok: "db_ok w"
  let ?w = "w\<lparr>users_t := users_t w @ [u]\<rparr>"
  have "keys_ok ?w" if "\<not> has_user w (u_id u)" "u_username u \<notin> u_username ` set (users_t w)"
    using db_okD(1) [OF ok] that by (auto simp: keys_ok_def has_user_def)
  moreover have "receipt_refs ?w" "child_refs ?w" "image_refs ?w" "collection_refs ?w" "task_refs ?w"
    by (rule refs_grow [where w = w]; simp add: has_defs le_fun_def db_okD [OF ok])+
  moreover have "one_receipt_per_image ?w" "one_active_collection ?w"
    using db_okD(7,8) [OF ok] by (simp_all add: unique_defs)
  moreover have "widths_ok ?w" using db_okD(9) [OF ok] by (simp add: widths_ok_def)
  ultimately show "db_ok (snd (insert_user u w))"
    using ok by (simp add: insert_user_def db_okI)
qed

lemma insert_receipt_ok [keeps_intro]: "keeps db_ok (insert_receipt r)"
proof (rule keepsI)
  fix w assume ok: "db_ok w"
  let ?w = "w\<lparr>receipts_t := receipts_t w @ [r]\<rparr>"
  have "keys_ok ?w" if "\<not> has_receipt w (r_id r)"
    using db_okD(1) [OF ok] that by (auto simp: keys_ok_def has_receipt_def)
  moreover have "receipt_refs ?w" if "ref_opt (has_user w) (r_user_id r)" "ref_opt (has_image w) (r_image_id r)"
    using db_okD(2) [OF ok] that by (auto simp: receipt_refs_def has_defs)
  moreover have "child_refs ?w" "image_refs ?w" "collection_refs ?w" "task_refs ?w"
    by (rule refs_grow [where w = w]; simp add: has_defs le_fun_def db_okD [OF ok])+
  moreover have "one_receipt_per_image ?w" if "\<not> image_taken w (r_image_id r)"
    using db_okD(7) [OF ok] that by (force simp: one_receipt_per_image_def image_taken_def)
  moreover have "one_active_collection ?w" using db_okD(8) [OF ok] by (simp add: unique_defs)
  moreover have "widths_ok ?w" if "receipt_fits r" using db_okD(9) [OF ok] that by (simp add: widths_ok_def)
  ultimately show "db_ok (snd (insert_receipt r w))"
    using ok by (simp add: insert_receipt_def db_okI)
qed

lemma insert_item_ok [keeps_intro]: "keeps db_ok (insert_item i)"
proof (rule keepsI)
  fix w assume ok: "db_ok w"
  let ?w = "w\<lparr>items_t := items_t w @ [i]\<rparr>"
  have "keys_ok ?w" if "li_id i \<notin> li_id ` set (items_t w)"
    using db_okD(1) [OF ok] that by (auto simp: keys_ok_def)
  moreover have "child_refs ?w" if "has_receipt w (li_receipt_id i)"
    using db_okD(3) [OF ok] that by (auto simp: child_refs_def has_defs)
  moreover have "receipt_refs ?w" "image_refs ?w" "collection_refs ?w" "task_refs ?w"
    by (rule refs_grow [where w = w]; simp add: has_defs le_fun_def db_okD [OF ok])+
  moreover have "one_receipt_per_image ?w" "one_active_collection ?w"
    using db_okD(7,8) [OF ok] by (simp_all add: unique_defs)
  moreover have "widths_ok ?w" using db_okD(9) [OF ok] by (simp add: widths_ok_def)
  ultimately show "db_ok (snd (insert_item i w))"
    using ok by (simp add: insert_item_def db_okI)
qed

lemma insert_tax_ok [keeps_intro]: "keeps db_ok (insert_tax t)"
proof (rule keepsI)
  fix w assume ok: "db_ok w"
  let ?w = "w\<lparr>taxes_t := taxes_t w @ [t]\<rparr>"
  have "keys_ok ?w" if "tx_id t \<notin> tx_id ` set (taxes_t w)"
    using db_okD(1) [OF ok] that by (auto simp: keys_ok_def)
  moreover have "child_refs ?w" if "has_receipt w (tx_receipt_id t)"
    using db_okD(3) [OF ok] that by (auto simp: child_refs_def has_defs)
  moreover have "receipt_refs ?w" "image_refs ?w" "collection_refs ?w" "task_refs ?w"
    by (rule refs_grow [where w = w]; simp add: has_defs le_fun_def db_okD [OF ok])+
  moreover have "one_receipt_per_image ?w" "one_active_collection ?w"
    using db_okD(7,8) [OF ok] by (simp_all add: unique_defs)
  moreover have "widths_ok ?w" using db_okD(9) [OF ok] by (simp add: widths_ok_def)
  ultimately show "db_ok (snd (insert_tax t w))"
    using ok by (simp add: insert_tax_def db_okI)
qed

lemma insert_image_ok [keeps_intro]: "keeps db_ok (insert_image i)"
proof (rule keepsI)
  fix w assume ok: "db_ok w"
  let ?w = "w\<lparr>images_t := images_t w @ [i]\<rparr>"
  have "keys_ok ?w" if "\<not> has_image w (im_id i)"
    using db_okD(1) [OF ok] that by (auto simp: keys_ok_def has_image_def)
  moreover have "image_refs ?w" if "ref_opt (has_user w) (im_user_id i)" "ref_opt (has_receipt w) (im_receipt_id i)"
    using db_okD(4) [OF ok] that by (auto simp: image_refs_def has_defs)
  moreover have "receipt_refs ?w" "child_refs ?w" "collection_refs ?w" "task_refs ?w"
    by (rule refs_grow [where w = w]; simp add: has_defs le_fun_def db_okD [OF ok])+
  moreover have "one_receipt_per_image ?w" "one_active_collection ?w"
    using db_okD(7,8) [OF ok] by (simp_all add: unique_defs)
  moreover have "widths_ok ?w" using db_okD(9) [OF ok] by (simp add: widths_ok_def)
  ultimately show "db_ok (snd (insert_image i w))"
    using ok by (simp add: insert_image_def db_okI)
qed

lemma insert_collection_ok [keeps_intro]: "keeps db_ok (insert_collection c)"
proof (rule keepsI)
  fix w assume ok: "db_ok w"
  let ?w = "w\<lparr>collections_t := collections_t w @ [c]\<rparr>"
  have "keys_ok ?w" if "\<not> has_collection w (c_id c)"
    using db_okD(1) [OF ok] that by (auto simp: keys_ok_def has_collection_def)
  moreover have "collection_refs ?w" if "has_user w (c_user_id c)"
    using db_okD(5) [OF ok] that by (auto simp: collection_refs_def has_defs)
  moreover have "receipt_refs ?w" "child_refs ?w" "image_refs ?w" "task_refs ?w"
    by (rule refs_grow [where w = w]; simp add: has_defs le_fun_def db_okD [OF ok])+
  moreover have "one_receipt_per_image ?w" using db_okD(7) [OF ok] by (simp add: unique_defs)
  moreover have "one_active_collection ?w"
    if fresh: "\<not> has_collection w (c_id c)" and "\<not> (c_active c \<and> active_taken w (c_user_id c) (c_id c))"
    using db_okD(8) [OF ok] that by (auto simp: one_active_collection_def active_taken_def sql_exists_iff has_collection_def) (metis image_eqI)
  moreover have "widths_ok ?w" if "collection_fits c" using db_okD(9) [OF ok] that by (simp add: widths_ok_def)
  ultimately show "db_ok (snd (insert_collection c w))"
    using ok by (simp add: insert_collection_def db_okI)
qed

lemma insert_link_ok [keeps_intro]: "keeps db_ok (insert_link r c)"
proof (rule keepsI)
  fix w assume ok: "db_ok w"
  let ?l = "\<lparr>lk_receipt_id = r, lk_collection_id = c\<rparr>"
  let ?w = "w\<lparr>links_t := links_t w @ [?l]\<rparr>"
  have "keys_ok ?w" if "?l \<notin> set (links_t w)"
    using db_okD(1) [OF ok] that by (auto simp: keys_ok_def)
  moreover have "collection_refs ?w" if "has_receipt w r" "has_collection w c"
    using db_okD(5) [OF ok] that by (auto simp: collection_refs_def has_defs)
  moreover have "receipt_refs ?w" "child_refs ?w" "image_refs ?w" "task_refs ?w"
    by (rule refs_grow [where w = w]; simp add: has_defs le_fun_def db_okD [OF ok])+
  moreover have "one_receipt_per_image ?w" "one_active_collection ?w"
    using db_okD(7,8) [OF ok] by (simp_all add: unique_defs)
  moreover have "widths_ok ?w" using db_okD(9) [OF ok] by (simp add: widths_ok_def)
  ultimately show "db_ok (snd (insert_link r c w))"
    using ok by (simp add: insert_link_def Let_def db_okI)
qed

section \<open>Deletions\<close>

lemma map_clear [simp]:
  "map im_id (clear_receipt_links g t) = map im_id t" "map r_id (clear_image_links g u) = map r_id u"
  "im_id ` set (clear_receipt_links g t) = im_id ` set t" "r_id ` set (clear_image_links g u) = r_id ` set u"
proof -
  show 1: "map im_id (clear_receipt_links g t) = map im_id t" "map r_id (clear_image_links g u) = map r_id u"
    by (simp_all add: clear_receipt_links_def clear_image_links_def map_sql_update)
  show "im_id ` set (clear_receipt_links g t) = im_id ` set t" "r_id ` set (clear_image_links g u) = r_id ` set u"
    using 1 by (metis list.set_map)+
qed

lemma distinct_filter_sql_delete:
  "distinct (map key (filter q t)) \<Longrightarrow> distinct (map key (filter q (sql_delete p t)))"
  by (induction t) (auto simp: sql_delete_def)

text \<open>Under a primary key, a partial unique index is a statement on pairs of rows.\<close>

lemma distinct_filter_iff:
  "distinct (map key t) \<Longrightarrow>
   distinct (map g (filter q t)) \<longleftrightarrow> (\<forall>c \<in> set t. \<forall>d \<in> set t. q c \<and> q d \<and> g c = g d \<longrightarrow> c = d)"
  by (auto simp: distinct_map inj_on_def)

lemma clear_receipt_links_mem:
  "i \<in> set (clear_receipt_links g t) \<Longrightarrow>
   \<exists>j \<in> set t. im_user_id i = im_user_id j \<and> (im_receipt_id i = None \<or> im_receipt_id i = im_receipt_id j \<and> \<not> g (the (im_receipt_id i)))"
  by (auto simp: clear_receipt_links_def set_sql_update ref_opt_def split: option.splits)

lemma clear_image_links_mem:
  "r \<in> set (clear_image_links g t) \<Longrightarrow>
   \<exists>s \<in> set t. r_user_id r = r_user_id s \<and> (r_image_id r = None \<or> r_image_id r = r_image_id s \<and> \<not> g (the (r_image_id r)))"
  by (auto simp: clear_image_links_def set_sql_update ref_opt_def split: option.splits)

lemma ref_opt_left:
  "ref_opt p j \<Longrightarrow> (\<And>k. p k \<Longrightarrow> \<not> g k \<Longrightarrow> q k) \<Longrightarrow> i = None \<or> i = j \<and> \<not> g (the i) \<Longrightarrow> ref_opt q i"
  by (cases j) (auto simp: ref_opt_def)

lemma delete_receipts_ok [keeps_intro]: "keeps db_ok (delete_receipts p)"
proof (rule keepsI)
  fix w assume ok: "db_ok w"
  let ?g = "\<lambda>i. i \<in> r_id ` set (filter p (receipts_t w))"
  let ?w = "w\<lparr>receipts_t := sql_delete p (receipts_t w), items_t := sql_delete (\<lambda>i. ?g (li_receipt_id i)) (items_t w),
     taxes_t := sql_delete (\<lambda>t. ?g (tx_receipt_id t)) (taxes_t w),
     links_t := sql_delete (\<lambda>l. ?g (lk_receipt_id l)) (links_t w),
     images_t := clear_receipt_links ?g (images_t w)\<rparr>"
  have left: "has_receipt ?w k" if "has_receipt w k" "\<not> ?g k" for k
    using that by (auto simp: has_defs set_sql_delete)
  have same: "has_user ?w = has_user w" "has_image ?w = has_image w" "has_collection ?w = has_collection w"
    "has_run ?w = has_run w" by (simp_all add: has_defs)
  have "keys_ok ?w"
    using db_okD(1) [OF ok] by (simp add: keys_ok_def distinct_map_sql_delete) (simp add: sql_delete_def)
  moreover have "receipt_refs ?w"
    using db_okD(2) [OF ok] unfolding receipt_refs_def same by (auto simp: set_sql_delete)
  moreover have "child_refs ?w"
    using db_okD(3) [OF ok] left by (simp add: child_refs_def set_sql_delete del: set_filter)
  moreover have "image_refs ?w"
    unfolding image_refs_def
  proof
    fix i assume "i \<in> set (images_t ?w)"
    then obtain j where "j \<in> set (images_t w)" "im_user_id i = im_user_id j"
      "im_receipt_id i = None \<or> im_receipt_id i = im_receipt_id j \<and> \<not> ?g (the (im_receipt_id i))"
      using clear_receipt_links_mem [of i ?g "images_t w"] by auto
    note j = this
    have "ref_opt (has_user w) (im_user_id j)" "ref_opt (has_receipt w) (im_receipt_id j)"
      using db_okD(4) [OF ok] j(1) unfolding image_refs_def by blast+
    then show "ref_opt (has_user ?w) (im_user_id i) \<and> ref_opt (has_receipt ?w) (im_receipt_id i)"
      unfolding same using ref_opt_left [where g = ?g and p = "has_receipt w" and q = "has_receipt ?w", OF _ left j(3)] j(2) by (simp only: simp_thms)
  qed
  moreover have "collection_refs ?w"
    using db_okD(5) [OF ok] left unfolding collection_refs_def same by (simp add: set_sql_delete del: set_filter)
  moreover have "task_refs ?w" if "\<not> sql_exists (\<lambda>k. ?g (k_receipt_id k)) (tasks_t w)"
    using db_okD(6) [OF ok] left that unfolding task_refs_def same by (simp add: sql_exists_iff del: set_filter)
  moreover have "one_receipt_per_image ?w" "one_active_collection ?w"
    using db_okD(7,8) [OF ok]
    by (simp_all add: one_receipt_per_image_def one_active_collection_def distinct_filter_sql_delete)
  moreover have "widths_ok ?w" using db_okD(9) [OF ok] by (simp add: widths_ok_def list_all_iff set_sql_delete)
  ultimately show "db_ok (snd (delete_receipts p w))"
    using ok by (simp add: delete_receipts_def Let_def db_okI del: set_filter)
qed

lemma images_after_clear:
  "map r_image_id (filter (\<lambda>r. r_image_id r \<noteq> None) (clear_image_links g t)) =
   filter (\<lambda>i. ref_opt (\<lambda>k. \<not> g k) i) (map r_image_id (filter (\<lambda>r. r_image_id r \<noteq> None) t))"
  by (induction t) (auto simp: clear_image_links_def sql_update_def)

lemma fits_after_clear: "list_all receipt_fits t \<Longrightarrow> list_all receipt_fits (clear_image_links g t)"
  by (auto simp: clear_image_links_def list_all_iff set_sql_update receipt_fits_def)

lemma delete_images_ok [keeps_intro]: "keeps db_ok (delete_images p)"
proof (rule keepsI)
  fix w assume ok: "db_ok w"
  let ?g = "\<lambda>i. i \<in> im_id ` set (filter p (images_t w))"
  let ?w = "w\<lparr>images_t := sql_delete p (images_t w), receipts_t := clear_image_links ?g (receipts_t w)\<rparr>"
  have left: "has_image ?w k" if "has_image w k" "\<not> ?g k" for k
    using that by (auto simp: has_defs set_sql_delete)
  have same: "has_user ?w = has_user w" "has_receipt ?w = has_receipt w" "has_collection ?w = has_collection w"
    "has_run ?w = has_run w" by (simp_all add: has_defs)
  have "keys_ok ?w" using db_okD(1) [OF ok] by (simp add: keys_ok_def distinct_map_sql_delete)
  moreover have "receipt_refs ?w"
    unfolding receipt_refs_def
  proof
    fix r assume "r \<in> set (receipts_t ?w)"
    then obtain s where "s \<in> set (receipts_t w)" "r_user_id r = r_user_id s"
      "r_image_id r = None \<or> r_image_id r = r_image_id s \<and> \<not> ?g (the (r_image_id r))"
      using clear_image_links_mem [of r ?g "receipts_t w"] by auto
    note s = this
    have "ref_opt (has_user w) (r_user_id s)" "ref_opt (has_image w) (r_image_id s)"
      using db_okD(2) [OF ok] s(1) unfolding receipt_refs_def by blast+
    then show "ref_opt (has_user ?w) (r_user_id r) \<and> ref_opt (has_image ?w) (r_image_id r)"
      unfolding same using ref_opt_left [where g = ?g and p = "has_image w" and q = "has_image ?w", OF _ left s(3)] s(2) by (simp only: simp_thms)
  qed
  moreover have "child_refs ?w" "image_refs ?w" "collection_refs ?w" "task_refs ?w"
    using db_okD(3-6) [OF ok] unfolding refs_defs same by (simp_all add: set_sql_delete)
  moreover have "one_receipt_per_image ?w" "one_active_collection ?w"
    using db_okD(7,8) [OF ok]
    unfolding one_receipt_per_image_def one_active_collection_def
    by (simp_all add: images_after_clear del: not_None_eq)
  moreover have "widths_ok ?w" using db_okD(9) [OF ok] by (simp add: widths_ok_def fits_after_clear)
  ultimately show "db_ok (snd (delete_images p w))"
    by (simp add: delete_images_def Let_def db_okI del: set_filter)
qed

lemma delete_collections_ok [keeps_intro]: "keeps db_ok (delete_collections p)"
proof (rule keepsI)
  fix w assume ok: "db_ok w"
  let ?g = "\<lambda>i. i \<in> c_id ` set (filter p (collections_t w))"
  let ?w = "w\<lparr>collections_t := sql_delete p (collections_t w),
     links_t := sql_delete (\<lambda>l. ?g (lk_collection_id l)) (links_t w)\<rparr>"
  have left: "has_collection ?w k" if "has_collection w k" "\<not> ?g k" for k
    using that by (auto simp: has_defs set_sql_delete)
  have same: "has_user ?w = has_user w" "has_receipt ?w = has_receipt w" "has_image ?w = has_image w"
    "has_run ?w = has_run w" by (simp_all add: has_defs)
  have "keys_ok ?w"
    using db_okD(1) [OF ok] by (simp add: keys_ok_def distinct_map_sql_delete) (simp add: sql_delete_def)
  moreover have "receipt_refs ?w" "child_refs ?w" "image_refs ?w" "task_refs ?w"
    using db_okD(2-4,6) [OF ok] unfolding refs_defs same by simp_all
  moreover have "collection_refs ?w"
    using db_okD(5) [OF ok] left by (simp add: collection_refs_def same set_sql_delete del: set_filter)
  moreover have "one_receipt_per_image ?w" "one_active_collection ?w"
    using db_okD(7,8) [OF ok]
    by (simp_all add: one_receipt_per_image_def one_active_collection_def distinct_filter_sql_delete)
  moreover have "widths_ok ?w" using db_okD(9) [OF ok] by (simp add: widths_ok_def list_all_iff set_sql_delete)
  ultimately show "db_ok (snd (delete_collections p w))"
    by (simp add: delete_collections_def Let_def db_okI del: set_filter)
qed

section \<open>Updates\<close>

lemma update_images_ok:
  assumes key: "\<And>i. im_id (f i) = im_id i"
  shows "keeps db_ok (update_images p f)"
proof (rule keepsI)
  fix w assume ok: "db_ok w"
  let ?w = "w\<lparr>images_t := sql_update p f (images_t w)\<rparr>"
  have same: "has_user ?w = has_user w" "has_receipt ?w = has_receipt w" "has_collection ?w = has_collection w"
    "has_run ?w = has_run w" by (simp_all add: has_defs)
  have "im_id ` set (sql_update p f (images_t w)) = im_id ` set (images_t w)"
    by (metis key list.set_map map_sql_update)
  then have img: "has_image ?w = has_image w" by (simp add: has_defs)
  have "keys_ok ?w" using db_okD(1) [OF ok] by (simp add: keys_ok_def map_sql_update key)
  moreover have "receipt_refs ?w" "child_refs ?w" "collection_refs ?w" "task_refs ?w"
    using db_okD(2,3,5,6) [OF ok] by (simp_all add: refs_defs same img)
  moreover have "image_refs ?w"
    if "\<not> list_ex (\<lambda>i. \<not> ref_opt (has_receipt w) (im_receipt_id i) \<or> \<not> ref_opt (has_user w) (im_user_id i))
           (map f (filter p (images_t w)))"
    using db_okD(4) [OF ok] that by (auto simp: image_refs_def same list_ex_iff set_sql_update)
  moreover have "one_receipt_per_image ?w" "one_active_collection ?w"
    using db_okD(7,8) [OF ok] by (simp_all add: one_receipt_per_image_def one_active_collection_def)
  moreover have "widths_ok ?w" using db_okD(9) [OF ok] by (simp add: widths_ok_def)
  ultimately show "db_ok (snd (update_images p f w))"
    using ok by (simp add: update_images_def Let_def db_okI)
qed

lemma filter_sql_update_same:
  "(\<And>r. q (f r) = q r) \<Longrightarrow> (\<And>r. key (f r) = key r) \<Longrightarrow>
   map key (filter q (sql_update p f t)) = map key (filter q t)"
  by (induction t) (auto simp: sql_update_def)

lemma update_receipts_ok:
  assumes key: "\<And>r. r_id (f r) = r_id r" and img: "\<And>r. r_image_id (f r) = r_image_id r"
  shows "keeps db_ok (update_receipts p f)"
proof (rule keepsI)
  fix w assume ok: "db_ok w"
  let ?w = "w\<lparr>receipts_t := sql_update p f (receipts_t w)\<rparr>"
  have same: "has_user ?w = has_user w" "has_image ?w = has_image w" "has_collection ?w = has_collection w"
    "has_run ?w = has_run w" by (simp_all add: has_defs)
  have "r_id ` set (sql_update p f (receipts_t w)) = r_id ` set (receipts_t w)"
    by (metis key list.set_map map_sql_update)
  then have rec: "has_receipt ?w = has_receipt w" by (simp add: has_defs)
  have "keys_ok ?w" using db_okD(1) [OF ok] by (simp add: keys_ok_def map_sql_update key)
  moreover have "child_refs ?w" "image_refs ?w" "collection_refs ?w" "task_refs ?w"
    using db_okD(3-6) [OF ok] by (simp_all add: refs_defs same rec)
  moreover have "receipt_refs ?w"
    if "\<not> list_ex (\<lambda>r. \<not> ref_opt (has_user w) (r_user_id r)) (map f (filter p (receipts_t w)))"
    using db_okD(2) [OF ok] that by (auto simp: receipt_refs_def same list_ex_iff set_sql_update img)
  moreover have "one_receipt_per_image ?w" "one_active_collection ?w"
    using db_okD(7,8) [OF ok]
    by (simp_all add: one_receipt_per_image_def one_active_collection_def filter_sql_update_same img)
  moreover have "widths_ok ?w" if "\<not> list_ex (\<lambda>r. \<not> receipt_fits r) (map f (filter p (receipts_t w)))"
    using db_okD(9) [OF ok] that by (auto simp: widths_ok_def list_all_iff list_ex_iff set_sql_update)
  ultimately show "db_ok (snd (update_receipts p f w))"
    using ok by (simp add: update_receipts_def Let_def db_okI)
qed

text \<open>
  A collection update may not turn two rows of one user active at once: either it turns none
  active that was not, or it touches a single id and the engine compares that row with the others.
\<close>

lemma update_collections_ok:
  assumes key: "\<And>c. c_id (f c) = c_id c" and user: "\<And>c. c_user_id (f c) = c_user_id c"
    and one: "(\<forall>c. c_active (f c) \<longrightarrow> c_active c) \<or> (\<forall>c d. p c \<and> p d \<longrightarrow> c_id c = c_id d)"
  shows "keeps db_ok (update_collections p f)"
proof (rule keepsI)
  fix w assume ok: "db_ok w"
  let ?t = "collections_t w"
  let ?w = "w\<lparr>collections_t := sql_update p f ?t\<rparr>"
  have same: "has_user ?w = has_user w" "has_image ?w = has_image w" "has_receipt ?w = has_receipt w"
    "has_run ?w = has_run w" by (simp_all add: has_defs)
  have "c_id ` set (sql_update p f ?t) = c_id ` set ?t"
    by (metis key list.set_map map_sql_update)
  then have coll: "has_collection ?w = has_collection w" by (simp add: has_defs)
  have ids: "distinct (map c_id ?t)" using db_okD(1) [OF ok] by (simp add: keys_ok_def)
  have "keys_ok ?w" using db_okD(1) [OF ok] by (simp add: keys_ok_def map_sql_update key)
  moreover have "receipt_refs ?w" "child_refs ?w" "image_refs ?w" "task_refs ?w"
    using db_okD(2-4,6) [OF ok] by (simp_all add: refs_defs same)
  moreover have "collection_refs ?w"
    using db_okD(5) [OF ok] by (auto simp: collection_refs_def same coll set_sql_update user)
  moreover have "one_receipt_per_image ?w" using db_okD(7) [OF ok] by (simp add: one_receipt_per_image_def)
  moreover have "one_active_collection ?w"
    if free: "\<not> list_ex (\<lambda>c. c_active c \<and> active_taken w (c_user_id c) (c_id c)) (map f (filter p ?t))"
  proof -
    have act: "c = d" if "c \<in> set ?t" "d \<in> set ?t" "c_active c" "c_active d" "c_user_id c = c_user_id d" for c d
      using db_okD(8) [OF ok] that unfolding one_active_collection_def distinct_filter_iff [OF ids] by blast
    have id: "c = d" if "c \<in> set ?t" "d \<in> set ?t" "c_id c = c_id d" for c d
      using ids that by (metis distinct_map inj_onD)
    have clash: False if "c \<in> set ?t" "p c" "c_active (f c)" "d \<in> set ?t" "c_active d" "c_user_id d = c_user_id c" "c \<noteq> d" for c d
    proof -
      have "c_id d \<noteq> c_id c" using id that by blast
      then have "active_taken w (c_user_id (f c)) (c_id (f c))"
        using that by (auto simp: active_taken_def sql_exists_iff user key)
      with free that show False by (auto simp: list_ex_iff)
    qed
    have "x = y" if xy: "x \<in> set (sql_update p f ?t)" "y \<in> set (sql_update p f ?t)"
        "c_active x" "c_active y" "c_user_id x = c_user_id y" for x y
    proof -
      obtain c d where c: "c \<in> set ?t" "x = (if p c then f c else c)" and d: "d \<in> set ?t" "y = (if p d then f d else d)"
        using xy(1,2) by (auto simp: sql_update_def)
      have "c_user_id c = c_user_id d" using xy(5) c(2) d(2) by (simp add: user split: if_splits)
      moreover have "c_active c \<or> p c \<and> c_active (f c)" "c_active d \<or> p d \<and> c_active (f d)"
        using xy(3,4) c(2) d(2) by (simp_all split: if_splits)
      ultimately have "c = d" using one act id clash c(1) d(1) by metis
      with c d show ?thesis by simp
    qed
    moreover have "distinct (map c_id (sql_update p f ?t))" using ids by (simp add: map_sql_update key)
    ultimately show ?thesis by (simp add: one_active_collection_def distinct_filter_iff)
  qed
  moreover have "widths_ok ?w" if "\<not> list_ex (\<lambda>c. \<not> collection_fits c) (map f (filter p ?t))"
    using db_okD(9) [OF ok] that by (auto simp: widths_ok_def list_all_iff list_ex_iff set_sql_update)
  ultimately show "db_ok (snd (update_collections p f w))"
    using ok by (simp add: update_collections_def Let_def db_okI)
qed

section \<open>What integrity does not depend on\<close>

lemma db_ok_other [simp]:
  "db_ok (w\<lparr>w_files := f\<rparr>) = db_ok w" "db_ok (w\<lparr>w_clock := c\<rparr>) = db_ok w"
  "db_ok (w\<lparr>w_tick := n\<rparr>) = db_ok w" "db_ok (w\<lparr>w_db_ready := b\<rparr>) = db_ok w"
  by (simp_all add: db_ok_def keys_ok_def refs_defs has_defs one_receipt_per_image_def one_active_collection_def widths_ok_def)

lemma gen_uuid_ok [keeps_intro]: "keeps db_ok gen_uuid"
  by (simp add: keeps_def gen_uuid_def)

lemma keeps_transaction:
  assumes "keeps P m" and "\<And>w n c. P w \<Longrightarrow> P (w\<lparr>w_tick := n, w_clock := c\<rparr>)"
  shows "keeps P (transaction m)"
  using assms by (fastforce simp: keeps_def transaction_def split: prod.splits sum.splits)

lemma transaction_ok [keeps_intro]: "keeps db_ok m \<Longrightarrow> keeps db_ok (transaction m)"
  by (rule keeps_transaction) simp_all

text \<open>Rows of the tables nothing refers to may always go.\<close>

lemma delete_leaves_ok:
  assumes "db_ok w"
  shows "db_ok (w\<lparr>items_t := sql_delete p (items_t w)\<rparr>)" "db_ok (w\<lparr>taxes_t := sql_delete q (taxes_t w)\<rparr>)"
    "db_ok (w\<lparr>links_t := sql_delete l (links_t w)\<rparr>)" "db_ok (w\<lparr>aliases_t := sql_delete a (aliases_t w)\<rparr>)"
    "db_ok (w\<lparr>tasks_t := sql_delete k (tasks_t w)\<rparr>)"
proof -
  note d = db_okD [OF assms]
  have u: "distinct (sql_delete l (links_t w))" using d(1) by (simp add: keys_ok_def sql_delete_def)
  note simps = keys_ok_def refs_defs has_defs one_receipt_per_image_def one_active_collection_def widths_ok_def set_sql_delete
  show "db_ok (w\<lparr>items_t := sql_delete p (items_t w)\<rparr>)"
    by (rule db_okI) (use d in \<open>simp_all add: simps distinct_map_sql_delete\<close>)
  show "db_ok (w\<lparr>taxes_t := sql_delete q (taxes_t w)\<rparr>)"
    by (rule db_okI) (use d in \<open>simp_all add: simps distinct_map_sql_delete\<close>)
  show "db_ok (w\<lparr>links_t := sql_delete l (links_t w)\<rparr>)"
    by (rule db_okI) (use d u in \<open>simp_all add: simps\<close>)
  show "db_ok (w\<lparr>aliases_t := sql_delete a (aliases_t w)\<rparr>)"
    by (rule db_okI) (use d in \<open>simp_all add: simps distinct_map_sql_delete\<close>)
  show "db_ok (w\<lparr>tasks_t := sql_delete k (tasks_t w)\<rparr>)"
    by (rule db_okI) (use d in \<open>simp_all add: simps distinct_map_sql_delete\<close>)
qed

section \<open>A concrete world\<close>

text \<open>The freshly migrated database, with the tags that 0001 and 0005 seed; the witnesses start from it.\<close>

definition SEED_TAGS :: "string list" where
  "SEED_TAGS = [''alcohol'', ''beverage'', ''coffee'', ''food'', ''fresh'', ''household'', ''hygiene'',
     ''office'', ''electronics'', ''gift'', ''pet'', ''travel'', ''subscription'', ''service'', ''other'',
     ''deposit'']"

definition fresh_world :: world where
  "fresh_world = \<lparr>users_t = [], receipts_t = [], items_t = [], taxes_t = [], images_t = [],
     collections_t = [], links_t = [], tags_t = SEED_TAGS, aliases_t = [], runs_t = [], tasks_t = [],
     summaries_t = [], w_files = (\<lambda>_. None), w_clock = 1000, w_tick = 0,
     w_supply = (\<lambda>n. of_nat (n + 100)), w_db_ready = True\<rparr>"

lemma fresh_world_ok [simp]: "db_ok fresh_world"
  by (simp add: fresh_world_def db_ok_def keys_ok_def refs_defs one_receipt_per_image_def
      one_active_collection_def widths_ok_def SEED_TAGS_def)

end
