(* ===== verification/Interfaces.thy ===== *)
theory Interfaces
  imports Integrity
begin

text \<open>
  The contracts several components share, as locales. Each is interpreted on the model's own
  operations in the theory that provides them.

  \<^item> \<open>scoped_table\<close>: a lookup by id under the ownership clause (receipts, images, collections).
  \<^item> \<open>scoped_writer\<close>: a lookup together with a write under the same clause; the write must not
    act on a row the lookup does not show, nor touch rows of other owners.
  \<^item> \<open>lease_queue\<close>: jobs that are taken for a fixed time and handed out again only after it
    (image analysis, benchmark tasks).
\<close>

section \<open>Lookups scoped to an owner\<close>

locale scoped_table =
  fixes rows :: "world \<Rightarrow> 'r list"
    and key :: "'r \<Rightarrow> uuid"
    and owner :: "'r \<Rightarrow> uuid option"
    and lookup :: "uuid \<Rightarrow> uuid option \<Rightarrow> bool \<Rightarrow> (world, 'r option) py"
  assumes lookup_run: "\<exists>x. lookup k u see w = (Inr x, w)"
    and lookup_sound: "lookup k u see w = (Inr (Some r), w) \<Longrightarrow>
      r \<in> set (rows w) \<and> key r = k \<and> visible u see (owner r)"
    and lookup_complete: "lookup k u see w = (Inr None, w) \<Longrightarrow> r \<in> set (rows w) \<Longrightarrow> key r = k \<Longrightarrow>
      \<not> visible u see (owner r)"
begin

lemma lookup_reads: "reads (lookup k u see)"
  unfolding reads_def using lookup_run by (metis snd_conv)

text \<open>A row of somebody else, or of nobody, looks exactly like a row that does not exist.\<close>

lemma foreign_is_absent:
  assumes "distinct (map key (rows w))" and "r \<in> set (rows w)" and "key r = k" and "owner r \<noteq> Some me"
  shows "lookup k (Some me) False w = (Inr None, w)"
proof -
  obtain x where x: "lookup k (Some me) False w = (Inr x, w)" using lookup_run by blast
  have "x = None"
  proof (rule ccontr)
    assume "x \<noteq> None"
    then obtain r' where "x = Some r'" by blast
    with x lookup_sound have "r' \<in> set (rows w)" "key r' = k" "visible (Some me) False (owner r')" by blast+
    with assms show False by (metis distinct_map inj_onD visible_def option.distinct(1))
  qed
  with x show ?thesis by simp
qed

lemma own_is_found:
  assumes "distinct (map key (rows w))" and "r \<in> set (rows w)" and "visible u see (owner r)"
  shows "lookup (key r) u see w = (Inr (Some r), w)"
proof -
  obtain x where x: "lookup (key r) u see w = (Inr x, w)" using lookup_run by blast
  with lookup_complete assms(2,3) obtain r' where "x = Some r'" by (cases x) blast+
  with x lookup_sound assms(1,2) have "r' = r" by (metis distinct_map inj_onD)
  with x \<open>x = Some r'\<close> show ?thesis by simp
qed

end

section \<open>Writes scoped to an owner\<close>

locale scoped_writer = scoped_table rows key owner lookup
  for rows :: "world \<Rightarrow> 'r list" and key and owner and lookup +
  fixes act :: "uuid \<Rightarrow> uuid option \<Rightarrow> bool \<Rightarrow> (world, 'b option) py"
  assumes act_absent: "lookup k u see w = (Inr None, w) \<Longrightarrow> act k u see w = (Inr None, w)"
    and act_frame: "r \<in> set (rows w) \<Longrightarrow> \<not> visible u see (owner r) \<Longrightarrow> r \<in> set (rows (snd (act k u see w)))"
begin

text \<open>Naming the id of a foreign row in a request changes nothing at all.\<close>

lemma foreign_write_is_noop:
  assumes "distinct (map key (rows w))" and "r \<in> set (rows w)" and "key r = k" and "owner r \<noteq> Some me"
  shows "act k (Some me) False w = (Inr None, w)"
  using foreign_is_absent [OF assms] by (rule act_absent)

lemma others_untouched:
  assumes "r \<in> set (rows w)" and "owner r \<noteq> Some me"
  shows "r \<in> set (rows (snd (act k (Some me) False w)))"
  using assms by (intro act_frame) (simp_all add: visible_def)

end

section \<open>Jobs under a lease\<close>

locale lease_queue =
  fixes claimable :: "timestamp \<Rightarrow> 'r \<Rightarrow> bool"
    and take_job :: "timestamp \<Rightarrow> 'r \<Rightarrow> 'r"
    and lease :: int
  assumes held: "now \<le> t \<Longrightarrow> t \<le> now + lease \<Longrightarrow> \<not> claimable t (take_job now r)"
    and expired: "now + lease < t \<Longrightarrow> claimable t (take_job now r)"
    and lease_pos: "0 \<le> lease"
begin

text \<open>Attempts at increasing times: an attempt at a claimable job takes it, any other does nothing.\<close>

primrec grants :: "timestamp list \<Rightarrow> 'r \<Rightarrow> timestamp list" where
  "grants [] r = []"
| "grants (t # ts) r = (if claimable t r then t # grants ts (take_job t r) else grants ts r)"

lemma grants_after: "sorted (now # ts) \<Longrightarrow> g \<in> set (grants ts (take_job now r)) \<Longrightarrow> now + lease < g"
proof (induction ts)
  case (Cons t ts)
  show ?case
  proof (cases "claimable t (take_job now r)")
    case True
    then have t: "now + lease < t" using held [of now t r] Cons.prems(1) by force
    have "g = t \<or> g \<in> set (grants ts (take_job t (take_job now r)))" using Cons.prems(2) True by simp
    moreover have "g \<in> set (grants us x) \<Longrightarrow> g \<in> set us" for us x
      by (induction us arbitrary: x) (auto split: if_splits)
    ultimately have "t \<le> g" using Cons.prems(1) by auto
    with t show ?thesis by simp
  next
    case False
    with Cons show ?thesis by simp
  qed
qed simp

text \<open>However many workers race for a job, two successive grants lie more than a lease apart.\<close>

lemma grants_apart: "sorted ts \<Longrightarrow> sorted_wrt (\<lambda>a b. a + lease < b) (grants ts r)"
proof (induction ts arbitrary: r)
  case (Cons t ts)
  then show ?case using grants_after [of t ts] by simp
qed simp

lemma grant_after_lease: "now + lease < t \<Longrightarrow> grants [t] (take_job now r) = [t]"
  by (simp add: expired)

end

end
