(* ===== verification/ImageStore.thy ===== *)
theory ImageStore
  imports Interfaces
begin

text \<open>
  The images table and the analysis queue (provider/db/image_db.py), one definition per method of
  ImageDB, and the queue as a transition system: workers claim, finish, time passes, submissions
  come and go. The pool of ImageDB is the flag \<open>w_db_ready\<close>; its methods are modelled on an
  initialised pool, which their callers check.
\<close>

section \<open>Status values\<close>

fun image_status_name :: "image_status \<Rightarrow> string" where
  "image_status_name Pending = ''pending''"
| "image_status_name Processing = ''processing''"
| "image_status_name Analyzed = ''analyzed''"
| "image_status_name Failed = ''failed''"
| "image_status_name TimedOut = ''timed_out''"
| "image_status_name Unreadable = ''unreadable''"

section \<open>Operations\<close>

definition store_image ::
  "string \<Rightarrow> string option \<Rightarrow> string option \<Rightarrow> int option \<Rightarrow> image_status \<Rightarrow> uuid option \<Rightarrow> bool
   \<Rightarrow> string option \<Rightarrow> image_part list \<Rightarrow> string option \<Rightarrow> (world, image_row) py" where
  "store_image path filename media nbytes status user bypass thumb additional model =
     bind gen_uuid (\<lambda>k. bind (gets w_clock) (\<lambda>now.
       insert_image \<lparr>im_id = k, im_filename = filename, im_media = media, im_size = nbytes,
         im_path = Some path, im_thumb = thumb, im_status = status, im_error = None,
         im_receipt_id = None, im_bypass = bypass, im_user_id = user, im_created_at = now,
         im_analyzed_at = None, im_processing_at = None, im_additional = additional,
         im_model_id = model\<rparr>))"

definition get_image_by_id :: "uuid \<Rightarrow> uuid option \<Rightarrow> bool \<Rightarrow> (world, image_row option) py" where
  "get_image_by_id k user_id can_see_all =
     gets (\<lambda>w. fetchrow (filter (\<lambda>i. im_id i = k \<and> visible user_id can_see_all (im_user_id i)) (images_t w)))"

text \<open>\<open>INTERVAL '15 minutes'\<close>, the lease of a claim, in seconds.\<close>

definition claim_lease :: int where
  "claim_lease = 900"

definition lease_expired :: "timestamp \<Rightarrow> image_row \<Rightarrow> bool" where
  "lease_expired now i \<longleftrightarrow> im_status i = Processing
     \<and> (case im_processing_at i of None \<Rightarrow> True | Some t \<Rightarrow> t < now - claim_lease)"

definition claimable :: "timestamp \<Rightarrow> image_row \<Rightarrow> bool" where
  "claimable now i \<longleftrightarrow> im_status i = Pending \<or> im_status i = Failed \<or> lease_expired now i"

definition take_image :: "timestamp \<Rightarrow> image_row \<Rightarrow> image_row" where
  "take_image now i = i\<lparr>im_status := Processing, im_processing_at := Some now, im_error := None\<rparr>"

definition list_pending_images :: "(world, image_row list) py" where
  "list_pending_images = gets (\<lambda>w.
     sort_key (\<lambda>i. (im_created_at i, im_id i)) (filter (claimable (w_clock w)) (images_t w)))"

definition claim_for_analysis :: "uuid \<Rightarrow> (world, image_row option) py" where
  "claim_for_analysis k = bind (gets w_clock) (\<lambda>now.
     bind (update_images (\<lambda>i. im_id i = k \<and> claimable now i) (take_image now)) (\<lambda>rows.
       ret (fetchrow rows)))"

definition list_images ::
  "string list option \<Rightarrow> nat \<Rightarrow> nat \<Rightarrow> uuid option \<Rightarrow> bool \<Rightarrow> (world, image_row list) py" where
  "list_images statuses page start user_id can_see_all = gets (\<lambda>w.
     take page (drop start (rev (sort_key (\<lambda>i. (im_created_at i, im_id i))
       (filter (\<lambda>i. visible user_id can_see_all (im_user_id i)
          \<and> (case statuses of None \<Rightarrow> True | Some [] \<Rightarrow> True
             | Some names \<Rightarrow> image_status_name (im_status i) \<in> set names)) (images_t w))))))"

definition on_image :: "uuid \<Rightarrow> (image_row \<Rightarrow> image_row) \<Rightarrow> (world, unit) py" where
  "on_image k f = bind (update_images (\<lambda>i. im_id i = k) f) (\<lambda>_. ret ())"

definition mark_analyzed :: "uuid \<Rightarrow> uuid \<Rightarrow> (world, unit) py" where
  "mark_analyzed k receipt_id = bind (gets w_clock) (\<lambda>now. on_image k (\<lambda>i.
     i\<lparr>im_status := Analyzed, im_receipt_id := Some receipt_id, im_error := None,
       im_analyzed_at := Some now, im_processing_at := None\<rparr>))"

definition mark_failed :: "uuid \<Rightarrow> string \<Rightarrow> (world, unit) py" where
  "mark_failed k err = on_image k (\<lambda>i.
     i\<lparr>im_status := Failed, im_error := Some err, im_processing_at := None\<rparr>)"

definition terminal_status :: "string \<Rightarrow> image_status option" where
  "terminal_status s = (if s = ''timed_out'' then Some TimedOut
     else if s = ''unreadable'' then Some Unreadable else None)"

definition mark_terminal :: "uuid \<Rightarrow> string \<Rightarrow> string \<Rightarrow> (world, unit) py" where
  "mark_terminal k status err = (case terminal_status status of
     None \<Rightarrow> raise (ValueError ''Unsupported terminal analysis status'')
   | Some st \<Rightarrow> on_image k (\<lambda>i. i\<lparr>im_status := st, im_error := Some err, im_processing_at := None\<rparr>))"

definition update_image_path :: "uuid \<Rightarrow> string \<Rightarrow> (world, unit) py" where
  "update_image_path k path = on_image k (\<lambda>i. i\<lparr>im_path := Some path\<rparr>)"

definition update_additional_images :: "uuid \<Rightarrow> image_part list \<Rightarrow> (world, unit) py" where
  "update_additional_images k parts = on_image k (\<lambda>i. i\<lparr>im_additional := parts\<rparr>)"

definition update_image_thumbnail_path :: "uuid \<Rightarrow> string \<Rightarrow> (world, unit) py" where
  "update_image_thumbnail_path k path = on_image k (\<lambda>i. i\<lparr>im_thumb := Some path\<rparr>)"

definition delete_image_row :: "uuid \<Rightarrow> (world, unit) py" where
  "delete_image_row k = bind (delete_images (\<lambda>i. im_id i = k)) (\<lambda>_. ret ())"

text \<open>\<open>ImageRow.parts\<close>: the primary photo, then the additional ones in capture order.\<close>

definition image_parts :: "image_row \<Rightarrow> image_part list" where
  "image_parts i =
     \<lparr>part_path = (case im_path i of None \<Rightarrow> [] | Some p \<Rightarrow> p), part_thumb = im_thumb i,
      part_filename = im_filename i, part_media = im_media i, part_size = im_size i\<rparr> # im_additional i"

section \<open>Integrity\<close>

lemma on_image_ok: "(\<And>i. im_id (f i) = im_id i) \<Longrightarrow> keeps db_ok (on_image k f)"
  by (simp add: on_image_def update_images_ok keeps_intro)

lemma image_ops_ok [keeps_intro]:
  "keeps db_ok (store_image a b c d e f g h i j)" "keeps db_ok (get_image_by_id k u s)"
  "keeps db_ok list_pending_images" "keeps db_ok (claim_for_analysis k)"
  "keeps db_ok (list_images q l m u s)" "keeps db_ok (mark_analyzed k r)" "keeps db_ok (mark_failed k e')"
  "keeps db_ok (mark_terminal k t e')" "keeps db_ok (update_image_path k p)"
  "keeps db_ok (update_additional_images k ps)" "keeps db_ok (update_image_thumbnail_path k p)"
  "keeps db_ok (delete_image_row k)"
  by (auto simp: store_image_def get_image_by_id_def list_pending_images_def claim_for_analysis_def
      list_images_def mark_analyzed_def mark_failed_def mark_terminal_def update_image_path_def
      update_additional_images_def update_image_thumbnail_path_def delete_image_row_def take_image_def
      intro!: keeps_intro on_image_ok update_images_ok)

section \<open>The queue is a lease queue, the table is scoped\<close>

interpretation image_lease: lease_queue claimable take_image claim_lease
  by unfold_locales
     (auto simp: claimable_def lease_expired_def take_image_def claim_lease_def)

interpretation image_scope: scoped_table images_t im_id im_user_id get_image_by_id
  by unfold_locales
     (auto simp: get_image_by_id_def fetchrow_filter_None dest: fetchrow_filter_Some)

lemma image_ids_distinct: "db_ok w \<Longrightarrow> distinct (map im_id (images_t w))"
  by (simp add: db_ok_def keys_ok_def)

lemma image_unique: "db_ok w \<Longrightarrow> i \<in> set (images_t w) \<Longrightarrow> j \<in> set (images_t w) \<Longrightarrow> im_id i = im_id j \<Longrightarrow> i = j"
  using image_ids_distinct by (metis distinct_map inj_onD)

section \<open>What a claim does\<close>

text \<open>A claim never violates a reference: the rows it rewrites keep theirs.\<close>

lemma update_images_same_refs:
  assumes "db_ok w" and "\<And>i. im_receipt_id (f i) = im_receipt_id i" and "\<And>i. im_user_id (f i) = im_user_id i"
  shows "update_images p f w = (Inr (map f (filter p (images_t w))), w\<lparr>images_t := sql_update p f (images_t w)\<rparr>)"
proof -
  have "\<not> list_ex (\<lambda>i. \<not> ref_opt (has_receipt w) (im_receipt_id i) \<or> \<not> ref_opt (has_user w) (im_user_id i))
          (map f (filter p (images_t w)))"
    using assms db_okD(4) [OF assms(1)] by (auto simp: image_refs_def list_ex_iff)
  then show ?thesis by (simp add: update_images_def Let_def)
qed

lemma claim_run:
  assumes "db_ok w"
  shows "claim_for_analysis k w =
    (let p = \<lambda>i. im_id i = k \<and> claimable (w_clock w) i in
     (Inr (map_option (take_image (w_clock w)) (fetchrow (filter p (images_t w)))),
      w\<lparr>images_t := sql_update p (take_image (w_clock w)) (images_t w)\<rparr>))"
proof -
  have "fetchrow (map g xs) = map_option g (fetchrow xs)" for g :: "image_row \<Rightarrow> image_row" and xs
    by (cases xs) simp_all
  then show ?thesis
    using assms by (simp add: claim_for_analysis_def update_images_same_refs take_image_def bind_def Let_def)
qed

lemma claim_cases:
  assumes ok: "db_ok w"
  obtains (refused) "\<forall>i \<in> set (images_t w). im_id i = k \<longrightarrow> \<not> claimable (w_clock w) i"
      "claim_for_analysis k w = (Inr None, w)"
    | (granted) i where "i \<in> set (images_t w)" "im_id i = k" "claimable (w_clock w) i"
      "claim_for_analysis k w = (Inr (Some (take_image (w_clock w) i)),
         w\<lparr>images_t := sql_update (\<lambda>j. im_id j = k) (take_image (w_clock w)) (images_t w)\<rparr>)"
proof (cases "fetchrow (filter (\<lambda>i. im_id i = k \<and> claimable (w_clock w) i) (images_t w))")
  case None
  then have none: "\<forall>i \<in> set (images_t w). \<not> (im_id i = k \<and> claimable (w_clock w) i)"
    by (simp add: fetchrow_filter_None)
  show ?thesis
  proof (rule refused)
    show "claim_for_analysis k w = (Inr None, w)"
      using none sql_update_none [OF none] by (simp add: claim_run [OF ok] Let_def None)
  qed (use none in blast)
next
  case (Some i)
  then have i: "i \<in> set (images_t w)" "im_id i = k" "claimable (w_clock w) i"
    by (auto dest: fetchrow_filter_Some)
  have "sql_update (\<lambda>j. im_id j = k \<and> claimable (w_clock w) j) f (images_t w)
      = sql_update (\<lambda>j. im_id j = k) f (images_t w)" for f
    unfolding sql_update_def using i image_unique [OF ok] by (intro map_cong refl if_cong) auto
  then show ?thesis
    using i by (intro granted [of i]) (simp_all add: claim_run [OF ok] Let_def Some)
qed

lemma claim_granted:
  assumes "db_ok w" and "claim_for_analysis k w = (Inr (Some i), w')"
  shows "\<exists>i0. i0 \<in> set (images_t w) \<and> im_id i0 = k \<and> claimable (w_clock w) i0 \<and> i = take_image (w_clock w) i0
    \<and> w' = w\<lparr>images_t := sql_update (\<lambda>j. im_id j = k) (take_image (w_clock w)) (images_t w)\<rparr>"
  by (rule claim_cases [OF assms(1), of k]) (use assms(2) in auto)

lemma claim_refused: "db_ok w \<Longrightarrow> claim_for_analysis k w = (Inr None, w') \<Longrightarrow> w' = w"
  by (rule claim_cases [of w k]) auto

section \<open>Properties of the queue\<close>

text \<open>
  Fact: the worker's list and the claim agree. At one instant the ids that
  \<open>list_pending_images\<close> returns are exactly the ids \<open>claim_for_analysis\<close> would grant; each appears
  once, oldest first, and reading the list changes nothing.
\<close>

theorem pending_are_claimable:
  assumes "db_ok w"
  shows "\<exists>ps. list_pending_images w = (Inr ps, w) \<and> distinct (map im_id ps)
     \<and> sorted (map im_created_at ps)
     \<and> (\<forall>k. k \<in> im_id ` set ps \<longleftrightarrow> (\<exists>i. fst (claim_for_analysis k w) = Inr (Some i)))"
proof -
  define ps where "ps = sort_key (\<lambda>i. (im_created_at i, im_id i)) (filter (claimable (w_clock w)) (images_t w))"
  have "list_pending_images w = (Inr ps, w)" by (simp add: list_pending_images_def ps_def)
  moreover have "distinct (map im_id ps)"
    using image_ids_distinct [OF assms] by (auto simp: ps_def distinct_map intro: inj_on_subset)
  moreover have "sorted (map im_created_at ps)"
  proof -
    have "sorted (map (\<lambda>i. (im_created_at i, im_id i)) ps)" by (simp add: ps_def)
    then show ?thesis by (auto simp: sorted_wrt_map less_eq_prod_def elim!: sorted_wrt_mono_rel [rotated])
  qed
  moreover have "k \<in> im_id ` set ps \<longleftrightarrow> (\<exists>i. fst (claim_for_analysis k w) = Inr (Some i))" for k
    by (rule claim_cases [OF assms, of k]) (auto simp: ps_def)
  ultimately show ?thesis by blast
qed

text \<open>
  Fact: a claim holds for fifteen minutes and no longer. Whatever happens to other rows, as long
  as the claimed row is not written again a second claim within the lease is refused and changes
  nothing, and the first one after it is granted, so a crashed worker's image is not lost.
\<close>

theorem claim_is_exclusive:
  assumes "db_ok w" and "claim_for_analysis k w = (Inr (Some i), w1)"
    and "db_ok v" and "i \<in> set (images_t v)" and "w_clock w \<le> w_clock v"
  shows "(w_clock v \<le> w_clock w + 900 \<longrightarrow> claim_for_analysis k v = (Inr None, v))
    \<and> (w_clock w + 900 < w_clock v \<longrightarrow> fst (claim_for_analysis k v) = Inr (Some (take_image (w_clock v) i)))"
proof -
  obtain j where j: "im_id j = k" "i = take_image (w_clock w) j"
    using claim_cases [OF assms(1), of k] assms(2) by (metis Inr_inject option.distinct(1) option.sel prod.inject)
  then have key: "im_id i = k" by (simp add: take_image_def)
  show ?thesis
  proof (rule claim_cases [OF assms(3), of k])
    assume "\<forall>i \<in> set (images_t v). im_id i = k \<longrightarrow> \<not> claimable (w_clock v) i"
      and "claim_for_analysis k v = (Inr None, v)"
    then show ?thesis using assms(4) key image_lease.expired [of "w_clock w" "w_clock v" j] j
      by (auto simp: claim_lease_def)
  next
    fix i' assume i': "i' \<in> set (images_t v)" "im_id i' = k" "claimable (w_clock v) i'"
      and run: "claim_for_analysis k v = (Inr (Some (take_image (w_clock v) i')),
        v\<lparr>images_t := sql_update (\<lambda>j. im_id j = k) (take_image (w_clock v)) (images_t v)\<rparr>)"
    have "i' = i" using image_unique [OF assms(3)] i'(1,2) assms(4) key by blast
    then show ?thesis using run i'(3) j image_lease.held [of "w_clock w" "w_clock v" j] assms(5)
      by (auto simp: claim_lease_def)
  qed
qed

section \<open>Workers\<close>

text \<open>
  The queue with its clients. A job is a worker's analysis of one image since the time of its claim.
  The extraction deadline (LLMSettings.analysis_timeout_seconds, at most 600) bounds a job: time
  does not pass beyond \<open>D\<close> seconds after the claim while the job runs. A worker may also vanish with
  the process. Uploads add submissions and the API deletes those that are not being worked on.
\<close>

record job =
  j_worker :: nat
  j_image :: uuid
  j_since :: timestamp

definition deletable :: "image_status \<Rightarrow> bool" where
  "deletable s \<longleftrightarrow> image_status_name s \<in> {''pending'', ''failed'', ''timed_out'', ''unreadable''}"

inductive qstep :: "int \<Rightarrow> world \<times> job list \<Rightarrow> world \<times> job list \<Rightarrow> bool" for D where
  claim: "claim_for_analysis k w = (Inr (Some i), w') \<Longrightarrow> v \<notin> j_worker ` set js \<Longrightarrow>
    qstep D (w, js) (w', \<lparr>j_worker = v, j_image = k, j_since = w_clock w\<rparr> # js)"
| refuse: "claim_for_analysis k w = (Inr None, w') \<Longrightarrow> qstep D (w, js) (w', js)"
| analyzed: "j \<in> set js \<Longrightarrow> mark_analyzed (j_image j) r w = (x, w') \<Longrightarrow> qstep D (w, js) (w', remove1 j js)"
| failed: "j \<in> set js \<Longrightarrow> mark_failed (j_image j) e w = (x, w') \<Longrightarrow> qstep D (w, js) (w', remove1 j js)"
| terminal: "j \<in> set js \<Longrightarrow> mark_terminal (j_image j) st e w = (x, w') \<Longrightarrow> qstep D (w, js) (w', remove1 j js)"
| vanish: "j \<in> set js \<Longrightarrow> qstep D (w, js) (w, remove1 j js)"
| time: "0 \<le> d \<Longrightarrow> \<forall>j \<in> set js. w_clock w + d \<le> j_since j + D \<Longrightarrow>
    qstep D (w, js) (w\<lparr>w_clock := w_clock w + d\<rparr>, js)"
| upload: "store_image p f m n Pending u b t a md w = (x, w') \<Longrightarrow> qstep D (w, js) (w', js)"
| delete: "i \<in> set (images_t w) \<Longrightarrow> deletable (im_status i) \<Longrightarrow> delete_image_row (im_id i) w = (x, w') \<Longrightarrow>
    qstep D (w, js) (w', js)"

inductive_cases qstepE: "qstep D s s'"

definition held_by :: "world \<Rightarrow> job \<Rightarrow> bool" where
  "held_by w j \<longleftrightarrow> (\<exists>i \<in> set (images_t w). im_id i = j_image j \<and> im_status i = Processing
     \<and> im_processing_at i = Some (j_since j))"

definition queue_inv :: "int \<Rightarrow> world \<times> job list \<Rightarrow> bool" where
  "queue_inv D s \<longleftrightarrow> db_ok (fst s) \<and> distinct (map j_image (snd s))
     \<and> (\<forall>j \<in> set (snd s). held_by (fst s) j \<and> j_since j \<le> w_clock (fst s) \<and> w_clock (fst s) \<le> j_since j + D)"

lemma on_image_frame:
  "i \<in> set (images_t w) \<Longrightarrow> im_id i \<noteq> k \<Longrightarrow> i \<in> set (images_t (snd (on_image k f w)))"
  "w_clock (snd (on_image k f w)) = w_clock w"
  by (auto simp: on_image_def update_images_def bind_def Let_def set_sql_update)

lemma marks_frame:
  "i \<in> set (images_t w) \<Longrightarrow> im_id i \<noteq> k \<Longrightarrow> i \<in> set (images_t (snd (mark_analyzed k r w)))"
  "i \<in> set (images_t w) \<Longrightarrow> im_id i \<noteq> k \<Longrightarrow> i \<in> set (images_t (snd (mark_failed k e w)))"
  "i \<in> set (images_t w) \<Longrightarrow> im_id i \<noteq> k \<Longrightarrow> i \<in> set (images_t (snd (mark_terminal k st e w)))"
  "i \<in> set (images_t w) \<Longrightarrow> im_id i \<noteq> k \<Longrightarrow> i \<in> set (images_t (snd (delete_image_row k w)))"
  "i \<in> set (images_t w) \<Longrightarrow> i \<in> set (images_t (snd (store_image a b c d s u y h l m w)))"
  "w_clock (snd (mark_analyzed k r w)) = w_clock w" "w_clock (snd (mark_failed k e w)) = w_clock w"
  "w_clock (snd (mark_terminal k st e w)) = w_clock w" "w_clock (snd (delete_image_row k w)) = w_clock w"
  "w_clock (snd (store_image a b c d s u y h l m w)) = w_clock w"
  by (auto simp: mark_analyzed_def mark_failed_def mark_terminal_def on_image_frame delete_image_row_def
      delete_images_def store_image_def gen_uuid_def insert_image_def bind_def Let_def set_sql_delete split: option.split)

lemma held_frame:
  assumes "held_by w j" and "\<And>i. i \<in> set (images_t w) \<Longrightarrow> im_id i = j_image j \<Longrightarrow> i \<in> set (images_t v)"
  shows "held_by v j"
  using assms by (auto simp: held_by_def)

text \<open>The end of a job, whatever it writes on the job's own image, keeps the invariant.\<close>

lemma queue_inv_finish:
  assumes inv: "queue_inv D (w, js)" and j: "j \<in> set js" and ok: "db_ok v" and "w_clock v = w_clock w"
    and frame: "\<And>i. i \<in> set (images_t w) \<Longrightarrow> im_id i \<noteq> j_image j \<Longrightarrow> i \<in> set (images_t v)"
  shows "queue_inv D (v, remove1 j js)"
proof -
  have d: "distinct js" "inj_on j_image (set js)" using inv by (simp_all add: queue_inv_def distinct_map)
  have "j_image j' \<noteq> j_image j" if "j' \<in> set (remove1 j js)" for j'
    using that d j by (metis inj_on_eq_iff notin_set_remove1 set_remove1_eq Diff_iff insertI1)
  moreover have "distinct (map j_image (remove1 j js))"
    using d by (auto simp: distinct_map intro: inj_on_subset)
  ultimately show ?thesis
    using inv ok assms(4) d frame by (auto simp: queue_inv_def intro: held_frame)
qed

lemma queue_inv_step:
  assumes D: "D \<le> claim_lease" "0 \<le> D" and step: "qstep D s s'" and inv: "queue_inv D s"
  shows "queue_inv D s'"
  using step inv
proof cases
  case (claim k w i w' v js)
  have ok: "db_ok w" using inv claim by (simp add: queue_inv_def)
  obtain i0 where i0: "i0 \<in> set (images_t w)" "im_id i0 = k" "claimable (w_clock w) i0"
    and w': "w' = w\<lparr>images_t := sql_update (\<lambda>j. im_id j = k) (take_image (w_clock w)) (images_t w)\<rparr>"
    using claim_granted [OF ok claim(3)] by blast
  have free: "j_image j \<noteq> k" if j: "j \<in> set js" for j
  proof
    assume "j_image j = k"
    then obtain i1 where i1: "i1 \<in> set (images_t w)" "im_id i1 = k" "im_status i1 = Processing"
        "im_processing_at i1 = Some (j_since j)"
      using inv j claim(1) by (auto simp: queue_inv_def held_by_def)
    then have "i1 = i0" using image_unique [OF ok] i0 by blast
    then show False using i0(3) i1 inv j claim(1) D by (auto simp: claimable_def lease_expired_def queue_inv_def)
  qed
  have "db_ok w'" using keepsD [OF image_ops_ok(4) ok, of k] claim(3) by simp
  moreover have "held_by w' j" if "j \<in> set js" for j
  proof (rule held_frame)
    show "held_by w j" using inv claim(1) that by (simp add: queue_inv_def)
    show "i \<in> set (images_t w')" if "i \<in> set (images_t w)" "im_id i = j_image j" for i
      using that free [OF \<open>j \<in> set js\<close>] by (simp add: w' set_sql_update)
  qed
  moreover have "held_by w' \<lparr>j_worker = v, j_image = k, j_since = w_clock w\<rparr>"
    unfolding held_by_def
  proof (rule bexI [of _ "take_image (w_clock w) i0"])
    show "take_image (w_clock w) i0 \<in> set (images_t w')"
      using i0 by (auto simp: w' set_sql_update)
  qed (use i0 in \<open>simp add: take_image_def\<close>)
  moreover have "w_clock w' = w_clock w" by (simp add: w')
  ultimately show ?thesis using inv claim(1,2) free D(2) by (auto simp: queue_inv_def)
next
  case (refuse k w w' js)
  have "db_ok w" using inv refuse by (simp add: queue_inv_def)
  then have "w' = w" using refuse(3) by (rule claim_refused)
  then show ?thesis using inv refuse by simp
next
  case (analyzed j js r w x w')
  have "db_ok w'" using keeps_run [OF image_ops_ok(6) _ analyzed(4)] inv analyzed(1) by (simp add: queue_inv_def)
  then show ?thesis
    using inv analyzed marks_frame(1,6) by (auto intro!: queue_inv_finish [where w = w]) (metis snd_conv)+
next
  case (failed j js e w x w')
  have "db_ok w'" using keeps_run [OF image_ops_ok(7) _ failed(4)] inv failed(1) by (simp add: queue_inv_def)
  then show ?thesis
    using inv failed marks_frame(2,7) by (auto intro!: queue_inv_finish [where w = w]) (metis snd_conv)+
next
  case (terminal j js st e w x w')
  have "db_ok w'" using keeps_run [OF image_ops_ok(8) _ terminal(4)] inv terminal(1) by (simp add: queue_inv_def)
  then show ?thesis
    using inv terminal marks_frame(3,8) by (auto intro!: queue_inv_finish [where w = w]) (metis snd_conv)+
next
  case (vanish j js w)
  have "db_ok w" using inv vanish(1) by (simp add: queue_inv_def)
  then have "queue_inv D (w, remove1 j js)"
    using inv vanish by (intro queue_inv_finish [where w = w]) simp_all
  then show ?thesis by (simp add: vanish)
next
  case (time d js w)
  then show ?thesis using inv by (auto simp: queue_inv_def held_by_def)
next
  case (upload p f m n u b t a md w x w' js)
  have ok: "db_ok w'" using keeps_run [OF image_ops_ok(1) _ upload(3)] inv upload(1) by (simp add: queue_inv_def)
  have "held_by w' j" if "held_by w j" for j
    by (rule held_frame [OF that]) (use upload(3) marks_frame(5) in \<open>metis snd_conv\<close>)
  moreover have "w_clock w' = w_clock w" using upload(3) marks_frame(10) by (metis snd_conv)
  ultimately show ?thesis using inv upload(1,2) ok by (auto simp: queue_inv_def)
next
  case (delete i w x w' js)
  have ok: "db_ok w'" using keeps_run [OF image_ops_ok(12) _ delete(5)] inv delete(1) by (simp add: queue_inv_def)
  have dbw: "db_ok w" using inv delete by (simp add: queue_inv_def)
  have "held_by w' j" if "held_by w j" for j
  proof (rule held_frame [OF that])
    fix i' assume i': "i' \<in> set (images_t w)" "im_id i' = j_image j"
    then have "im_status i' = Processing" using that image_unique [OF dbw] by (metis held_by_def)
    then have "im_id i' \<noteq> im_id i" using delete(3,4) image_unique [OF dbw i'(1)] by (auto simp: deletable_def)
    then show "i' \<in> set (images_t w')" using marks_frame(4) i' delete(5) by (metis snd_conv)
  qed
  moreover have "w_clock w' = w_clock w" using delete(5) marks_frame(9) by (metis snd_conv)
  ultimately show ?thesis using inv delete(1,2) ok by (auto simp: queue_inv_def)
qed

lemma queue_inv_reachable:
  assumes "(qstep D)\<^sup>*\<^sup>* s s'" and "D \<le> claim_lease" and "0 \<le> D" and "queue_inv D s"
  shows "queue_inv D s'"
  using assms by (induction rule: rtranclp_induct) (auto intro: queue_inv_step)


text \<open>
  Fact: a settled submission stays settled. Once an image is analyzed, timed out or
  unreadable, no step of any worker or upload writes its row again; it can only be deleted by its
  owner (never while analyzed).
\<close>

theorem settled_stays:
  assumes "qstep D (w, js) (w', js')" and "queue_inv D (w, js)" and "D \<le> 900" and "0 \<le> D"
    and i: "i \<in> set (images_t w)" and st: "im_status i \<in> {Analyzed, TimedOut, Unreadable}"
  shows "i \<in> set (images_t w') \<or> im_status i \<noteq> Analyzed \<and> (\<forall>i' \<in> set (images_t w'). im_id i' \<noteq> im_id i)"
proof -
  have ok: "db_ok w" using assms(2) by (simp add: queue_inv_def)
  have idle: "im_id i \<noteq> j_image j" if "j \<in> set js" for j
    using assms(2) that image_unique [OF ok i] st by (fastforce simp: queue_inv_def held_by_def)
  from assms(1) show ?thesis
  proof cases
    case (claim k i1 v)
    obtain i0 where "i0 \<in> set (images_t w)" "im_id i0 = k" "claimable (w_clock w) i0"
      and w': "w' = w\<lparr>images_t := sql_update (\<lambda>j. im_id j = k) (take_image (w_clock w)) (images_t w)\<rparr>"
      using claim_granted [OF ok claim(2)] by blast
    then have "im_id i \<noteq> k" using image_unique [OF ok i] st by (auto simp: claimable_def lease_expired_def)
    then show ?thesis using i by (simp add: w' set_sql_update)
  next
    case (refuse k)
    then show ?thesis using i claim_refused [OF ok] by blast
  next
    case (analyzed j r x)
    then show ?thesis using marks_frame(1) [OF i idle] by (metis snd_conv)
  next
    case (failed j e x)
    then show ?thesis using marks_frame(2) [OF i idle] by (metis snd_conv)
  next
    case (terminal j st e x)
    then show ?thesis using marks_frame(3) [OF i idle] by (metis snd_conv)
  next
    case (upload p f m n u b t a md x)
    then show ?thesis using marks_frame(5) [OF i] by (metis snd_conv)
  next
    case (delete i0 x)
    show ?thesis
    proof (cases "im_id i0 = im_id i")
      case True
      then have "i0 = i" using image_unique [OF ok delete(2) i] by simp
      then have "im_status i \<noteq> Analyzed" using delete(3) by (auto simp: deletable_def)
      then show ?thesis
        using delete(4) True by (auto simp: delete_image_row_def delete_images_def bind_def Let_def set_sql_delete)
    next
      case False
      then show ?thesis using marks_frame(4) [OF i] delete(4) by (metis snd_conv)
    qed
  qed (use i in auto)
qed

section \<open>A concrete queue\<close>

definition sample_image :: image_row where
  "sample_image = \<lparr>im_id = 10, im_filename = Some ''a.png'', im_media = Some ''image/png'', im_size = Some 5,
     im_path = Some ''/tmp/a.png'', im_thumb = None, im_status = Pending, im_error = None,
     im_receipt_id = None, im_bypass = False, im_user_id = Some 1, im_created_at = 900,
     im_analyzed_at = None, im_processing_at = None, im_additional = [], im_model_id = None\<rparr>"

definition sample_world :: world where
  "sample_world = fresh_world\<lparr>
     users_t := [\<lparr>u_id = 1, u_username = ''ann'', u_hash = ''h'', u_admin = False\<rparr>],
     images_t := [sample_image, sample_image\<lparr>im_id := 11, im_status := TimedOut\<rparr>]\<rparr>"

lemma sample_world_ok [simp]: "db_ok sample_world"
  by (simp add: sample_world_def sample_image_def fresh_world_def db_ok_def keys_ok_def refs_defs
      has_defs one_receipt_per_image_def one_active_collection_def widths_ok_def SEED_TAGS_def)

lemma sample_claim:
  "claim_for_analysis 10 sample_world = (Inr (Some (take_image 1000 sample_image)),
     sample_world\<lparr>images_t := [take_image 1000 sample_image, sample_image\<lparr>im_id := 11, im_status := TimedOut\<rparr>]\<rparr>)"
  by (simp add: claim_run Let_def) (simp add: sample_world_def fresh_world_def sample_image_def claimable_def
      lease_expired_def sql_update_def take_image_def)

theorem pending_are_claimable_witness:
  "\<exists>ps. list_pending_images sample_world = (Inr ps, sample_world) \<and> 10 \<in> im_id ` set ps"
  using pending_are_claimable [OF sample_world_ok] sample_claim by (metis fst_conv)

theorem claim_is_exclusive_witness:
  "claim_for_analysis 10 (snd (claim_for_analysis 10 sample_world)) = (Inr None, snd (claim_for_analysis 10 sample_world))"
proof -
  have "db_ok (snd (claim_for_analysis 10 sample_world))"
    by (rule keepsD [OF image_ops_ok(4)]) simp
  then show ?thesis
    using claim_is_exclusive [OF sample_world_ok sample_claim] by (simp add: sample_claim)
qed

lemma sample_run:
  "(qstep 600)\<^sup>*\<^sup>* (sample_world, [])
     (snd (claim_for_analysis 10 sample_world), [\<lparr>j_worker = 7, j_image = 10, j_since = w_clock sample_world\<rparr>])"
  by (rule r_into_rtranclp, rule qstep.claim) (simp_all add: sample_claim)


lemma sample_step:
  "qstep 600 (sample_world, [])
     (snd (claim_for_analysis 10 sample_world), [\<lparr>j_worker = 7, j_image = 10, j_since = w_clock sample_world\<rparr>])"
  by (rule qstep.claim) (simp_all add: sample_claim)

theorem settled_stays_witness:
  "(let i = sample_image\<lparr>im_id := 11, im_status := TimedOut\<rparr>; w' = snd (claim_for_analysis 10 sample_world) in
    i \<in> set (images_t w') \<or> im_status i \<noteq> Analyzed \<and> (\<forall>i' \<in> set (images_t w'). im_id i' \<noteq> im_id i))"
  unfolding Let_def
  by (rule settled_stays [OF sample_step]) (simp_all add: queue_inv_def, simp add: sample_world_def)

end
