(* ===== verification/QueueSpec.thy ===== *)
theory QueueSpec
  imports ImageStore
begin

text \<open>
  What the analysis queue promises, apart from rows and columns: a submission is waiting, being worked on
  since some time, or ended; a worker has it or nobody has. The transition system of ImageStore, which
  runs the statements of image_db.py, is a refinement of this specification: each of its steps is a step of
  the specification or none at all.
\<close>

section \<open>Refinement of transition systems\<close>

locale simulation =
  fixes cstep :: "'c \<Rightarrow> 'c \<Rightarrow> bool"
    and astep :: "'a \<Rightarrow> 'a \<Rightarrow> bool"
    and inv :: "'c \<Rightarrow> bool"
    and abs :: "'c \<Rightarrow> 'a"
  assumes inv_step: "inv s \<Longrightarrow> cstep s s' \<Longrightarrow> inv s'"
    and sim_step: "inv s \<Longrightarrow> cstep s s' \<Longrightarrow> astep\<^sup>=\<^sup>= (abs s) (abs s')"
begin

lemma run_refines: "cstep\<^sup>*\<^sup>* s s' \<Longrightarrow> inv s \<Longrightarrow> inv s' \<and> astep\<^sup>*\<^sup>* (abs s) (abs s')"
proof (induction rule: rtranclp_induct)
  case (step t u)
  then have "astep\<^sup>=\<^sup>= (abs t) (abs u)" using sim_step by blast
  then have "astep\<^sup>*\<^sup>* (abs t) (abs u)" by auto
  then show ?case using step inv_step by (meson rtranclp_trans)
qed simp

text \<open>What the specification keeps holds of every state the implementation reaches.\<close>

lemma invariant_transfers:
  assumes "cstep\<^sup>*\<^sup>* s s'" and "inv s" and "P (abs s)" and "\<And>a a'. P a \<Longrightarrow> astep a a' \<Longrightarrow> P a'"
  shows "P (abs s')"
proof -
  have "astep\<^sup>*\<^sup>* (abs s) (abs s')" using run_refines assms(1,2) by blast
  then show ?thesis by (induction rule: rtranclp_induct) (use assms(3,4) in blast)+
qed

end

section \<open>The specification\<close>

datatype phase = Waiting | Working "timestamp option" | Ended image_status

record queue_spec =
  sp_clock :: timestamp
  sp_phase :: "uuid \<Rightarrow> phase option"
  sp_worker :: "uuid \<Rightarrow> (nat \<times> timestamp) option"

fun available :: "timestamp \<Rightarrow> phase \<Rightarrow> bool" where
  "available now Waiting \<longleftrightarrow> True"
| "available now (Working None) \<longleftrightarrow> True"
| "available now (Working (Some t)) \<longleftrightarrow> t + claim_lease < now"
| "available now (Ended _) \<longleftrightarrow> False"

definition working :: "phase \<Rightarrow> bool" where
  "working p = (case p of Working _ \<Rightarrow> True | _ \<Rightarrow> False)"

text \<open>
  Somebody takes a free submission that nobody has; its worker ends it or puts it back; a worker is lost;
  time passes while no worker is overdue; submissions come, and those not worked on go unless analyzed.
\<close>

inductive spec_step :: "int \<Rightarrow> queue_spec \<Rightarrow> queue_spec \<Rightarrow> bool" for D where
  take: "sp_phase s k = Some p \<Longrightarrow> available (sp_clock s) p \<Longrightarrow> sp_worker s k = None \<Longrightarrow>
    spec_step D s (s\<lparr>sp_phase := (sp_phase s)(k \<mapsto> Working (Some (sp_clock s))),
      sp_worker := (sp_worker s)(k \<mapsto> (v, sp_clock s))\<rparr>)"
| report: "sp_worker s k = Some (v, t) \<Longrightarrow> sp_phase s k = Some (Working (Some t)) \<Longrightarrow> \<not> working p \<Longrightarrow>
    spec_step D s (s\<lparr>sp_phase := (sp_phase s)(k \<mapsto> p), sp_worker := (sp_worker s)(k := None)\<rparr>)"
| abandon: "sp_worker s k = Some (v, t) \<Longrightarrow> spec_step D s (s\<lparr>sp_worker := (sp_worker s)(k := None)\<rparr>)"
| wait: "0 \<le> d \<Longrightarrow> \<forall>k v t. sp_worker s k = Some (v, t) \<longrightarrow> sp_clock s + d \<le> t + D \<Longrightarrow>
    spec_step D s (s\<lparr>sp_clock := sp_clock s + d\<rparr>)"
| submit: "sp_phase s k = None \<Longrightarrow> spec_step D s (s\<lparr>sp_phase := (sp_phase s)(k \<mapsto> Waiting)\<rparr>)"
| withdraw: "sp_phase s k = Some p \<Longrightarrow> \<not> working p \<Longrightarrow> p \<noteq> Ended Analyzed \<Longrightarrow>
    spec_step D s (s\<lparr>sp_phase := (sp_phase s)(k := None)\<rparr>)"

text \<open>A worker has what is being worked on since it took it, and is not overdue.\<close>

definition spec_inv :: "int \<Rightarrow> queue_spec \<Rightarrow> bool" where
  "spec_inv D s \<longleftrightarrow> (\<forall>k v t. sp_worker s k = Some (v, t) \<longrightarrow>
     sp_phase s k = Some (Working (Some t)) \<and> sp_clock s \<le> t + D)"

lemma spec_inv_step: "0 \<le> D \<Longrightarrow> spec_inv D s \<Longrightarrow> spec_step D s s' \<Longrightarrow> spec_inv D s'"
  by (erule spec_step.cases) (auto simp: spec_inv_def working_def)

text \<open>An ended submission is not taken again; only an analyzed one cannot be withdrawn.\<close>

lemma ended_step:
  assumes "spec_inv D s" and "spec_step D s s'" and "sp_phase s k = Some (Ended x)"
  shows "sp_phase s' k = Some (Ended x) \<or> x \<noteq> Analyzed \<and> sp_phase s' k = None"
  using assms(2,1,3) by cases (auto simp: spec_inv_def)

section \<open>The abstraction\<close>

definition phase_of :: "image_row \<Rightarrow> phase" where
  "phase_of i = (case im_status i of Pending \<Rightarrow> Waiting | Failed \<Rightarrow> Waiting | Processing \<Rightarrow> Working (im_processing_at i)
     | Analyzed \<Rightarrow> Ended Analyzed | TimedOut \<Rightarrow> Ended TimedOut | Unreadable \<Rightarrow> Ended Unreadable)"

definition phases :: "image_row list \<Rightarrow> uuid \<Rightarrow> phase option" where
  "phases images = map_of (map (\<lambda>i. (im_id i, phase_of i)) images)"

definition workers :: "job list \<Rightarrow> uuid \<Rightarrow> (nat \<times> timestamp) option" where
  "workers js = map_of (map (\<lambda>j. (j_image j, j_worker j, j_since j)) js)"

definition queue_abs :: "world \<times> job list \<Rightarrow> queue_spec" where
  "queue_abs s = \<lparr>sp_clock = w_clock (fst s), sp_phase = phases (images_t (fst s)), sp_worker = workers (snd s)\<rparr>"

text \<open>The rows the statement of a claim selects are the submissions the specification calls available.\<close>

lemma claimable_available: "claimable now i \<longleftrightarrow> available now (phase_of i)"
  by (cases "im_status i"; cases "im_processing_at i") (auto simp: claimable_def lease_expired_def phase_of_def)

lemma phases_Some: "distinct (map im_id xs) \<Longrightarrow> i \<in> set xs \<Longrightarrow> phases xs (im_id i) = Some (phase_of i)"
  unfolding phases_def by (rule map_of_is_SomeI) (auto simp: comp_def)

lemma phases_update:
  assumes "\<And>i. im_id (f i) = im_id i" and "\<And>i. phase_of (f i) = p" and "k \<in> im_id ` set xs"
  shows "phases (sql_update (\<lambda>i. im_id i = k) f xs) = (phases xs)(k \<mapsto> p)"
  using assms(3)
proof (induction xs)
  case (Cons x xs)
  show ?case
  proof (cases "k \<in> im_id ` set xs")
    case True
    then show ?thesis using Cons.IH assms(1,2) by (auto simp: phases_def sql_update_def)
  next
    case False
    then have "sql_update (\<lambda>i. im_id i = k) f xs = xs" by (intro sql_update_none) auto
    then show ?thesis using Cons.prems False assms(1,2) by (auto simp: phases_def sql_update_def)
  qed
qed simp

lemma phases_delete: "phases (sql_delete (\<lambda>i. im_id i = k) xs) = (phases xs)(k := None)"
  by (induction xs) (auto simp: phases_def sql_delete_def)

lemma phases_snoc: "im_id i \<notin> im_id ` set xs \<Longrightarrow> phases (xs @ [i]) = (phases xs)(im_id i \<mapsto> phase_of i)"
  by (induction xs) (auto simp: phases_def)

lemma phases_None: "phases xs k = None \<longleftrightarrow> k \<notin> im_id ` set xs"
  by (auto simp: phases_def map_of_eq_None_iff image_image)

lemma workers_Some: "distinct (map j_image js) \<Longrightarrow> j \<in> set js \<Longrightarrow> workers js (j_image j) = Some (j_worker j, j_since j)"
  unfolding workers_def by (rule map_of_is_SomeI) (auto simp: comp_def)

lemma workers_remove: "distinct (map j_image js) \<Longrightarrow> j \<in> set js \<Longrightarrow> workers (remove1 j js) = (workers js)(j_image j := None)"
proof (induction js)
  case (Cons x js)
  show ?case
  proof (cases "x = j")
    case True
    then have "workers js (j_image j) = None"
      using Cons.prems(1) by (auto simp: workers_def map_of_eq_None_iff image_image)
    then show ?thesis using True by (auto simp: workers_def)
  next
    case False
    then have "j_image x \<noteq> j_image j" using Cons.prems by auto
    then show ?thesis using Cons False by (auto simp: workers_def)
  qed
qed simp

lemma workersD: "workers js k = Some (v, t) \<Longrightarrow> \<exists>j \<in> set js. j_image j = k \<and> j_worker j = v \<and> j_since j = t"
  by (auto simp: workers_def dest!: map_of_SomeD)

section \<open>Each step of the queue is one of the specification\<close>

lemma mark_phases:
  assumes "on_image k f w = (x, w')" and "\<And>i. im_id (f i) = im_id i" and "\<And>i. phase_of (f i) = p" and "k \<in> im_id ` set (images_t w)"
  shows "w' = w \<or> w_clock w' = w_clock w \<and> phases (images_t w') = (phases (images_t w))(k \<mapsto> p)"
  using assms(1) phases_update [OF assms(2-4)]
  by (auto simp: on_image_def update_images_def bind_def Let_def split: if_splits)

lemma analyzed_phases:
  assumes "mark_analyzed k r w = (x, w')" and "k \<in> im_id ` set (images_t w)"
  shows "w' = w \<or> w_clock w' = w_clock w \<and> phases (images_t w') = (phases (images_t w))(k \<mapsto> Ended Analyzed)"
  using assms(1) unfolding mark_analyzed_def bind_def gets_def prod.case sum.case
  by (rule mark_phases) (simp_all add: phase_of_def assms(2))

lemma failed_phases:
  assumes "mark_failed k e w = (x, w')" and "k \<in> im_id ` set (images_t w)"
  shows "w' = w \<or> w_clock w' = w_clock w \<and> phases (images_t w') = (phases (images_t w))(k \<mapsto> Waiting)"
  using assms(1) unfolding mark_failed_def by (rule mark_phases) (simp_all add: phase_of_def assms(2))

lemma terminal_phases:
  assumes "mark_terminal k st e w = (x, w')" and "k \<in> im_id ` set (images_t w)"
  shows "\<exists>o'. w' = w \<or> w_clock w' = w_clock w \<and> phases (images_t w') = (phases (images_t w))(k \<mapsto> Ended o')"
proof (cases "terminal_status st")
  case None
  then show ?thesis using assms(1) by (simp add: mark_terminal_def)
next
  case (Some o')
  then have o': "o' = TimedOut \<or> o' = Unreadable" by (auto simp: terminal_status_def split: if_splits)
  from assms(1) have "on_image k (\<lambda>i. i\<lparr>im_status := o', im_error := Some e, im_processing_at := None\<rparr>) w = (x, w')"
    by (simp add: mark_terminal_def Some)
  then have "w' = w \<or> w_clock w' = w_clock w \<and> phases (images_t w') = (phases (images_t w))(k \<mapsto> Ended o')"
    by (rule mark_phases) (use o' in \<open>auto simp: phase_of_def assms(2)\<close>)
  then show ?thesis by blast
qed

lemma job_row: "queue_inv D (w, js) \<Longrightarrow> j \<in> set js \<Longrightarrow>
  phases (images_t w) (j_image j) = Some (Working (Some (j_since j))) \<and> workers js (j_image j) = Some (j_worker j, j_since j)
  \<and> j_image j \<in> im_id ` set (images_t w)"
proof (intro conjI)
  assume inv: "queue_inv D (w, js)" and j: "j \<in> set js"
  then obtain i where i: "i \<in> set (images_t w)" "im_id i = j_image j" "im_status i = Processing" "im_processing_at i = Some (j_since j)"
    by (auto simp: queue_inv_def held_by_def)
  then show "phases (images_t w) (j_image j) = Some (Working (Some (j_since j)))"
    using phases_Some [OF image_ids_distinct i(1)] inv by (simp add: queue_inv_def phase_of_def)
  show "j_image j \<in> im_id ` set (images_t w)" using i(1,2) by force
  show "workers js (j_image j) = Some (j_worker j, j_since j)" using workers_Some inv j by (simp add: queue_inv_def)
qed

lemma job_ends:
  assumes inv: "queue_inv D (w, js)" and j: "j \<in> set js" and p: "\<not> working p"
    and w': "w' = w \<or> w_clock w' = w_clock w \<and> phases (images_t w') = (phases (images_t w))(j_image j \<mapsto> p)"
  shows "spec_step D (queue_abs (w, js)) (queue_abs (w', remove1 j js))"
proof -
  note row = job_row [OF inv j]
  have gone: "workers (remove1 j js) = (workers js)(j_image j := None)" using workers_remove inv j by (simp add: queue_inv_def)
  from w' show ?thesis
  proof
    assume "w' = w"
    then show ?thesis
      using abandon [of "queue_abs (w, js)" "j_image j" _ _ D] row by (simp add: queue_abs_def gone)
  next
    assume "w_clock w' = w_clock w \<and> phases (images_t w') = (phases (images_t w))(j_image j \<mapsto> p)"
    then show ?thesis
      using report [of "queue_abs (w, js)" "j_image j" _ _ p D] row p by (simp add: queue_abs_def gone)
  qed
qed

lemma queue_sim:
  assumes D: "0 \<le> D" "D \<le> claim_lease" and inv: "queue_inv D s" and "qstep D s s'"
  shows "(spec_step D)\<^sup>=\<^sup>= (queue_abs s) (queue_abs s')"
  using assms(4)
proof cases
  case (claim k w i w' v js)
  have ok: "db_ok w" using inv claim(1) by (simp add: queue_inv_def)
  obtain i0 where i0: "i0 \<in> set (images_t w)" "im_id i0 = k" "claimable (w_clock w) i0"
    and w': "w' = w\<lparr>images_t := sql_update (\<lambda>j. im_id j = k) (take_image (w_clock w)) (images_t w)\<rparr>"
    using claim_granted [OF ok claim(3)] by blast
  have row: "phases (images_t w) k = Some (phase_of i0)" using phases_Some [OF image_ids_distinct [OF ok] i0(1)] i0(2) by simp
  have "workers js k = None"
  proof (rule ccontr)
    assume "workers js k \<noteq> None"
    then obtain j where j: "j \<in> set js" "j_image j = k" using workersD by (metis not_None_eq surj_pair)
    then have "phase_of i0 = Working (Some (j_since j))" using job_row [OF inv [unfolded claim(1)] j(1)] row by simp
    moreover have "w_clock w \<le> j_since j + D" using inv j claim(1) by (simp add: queue_inv_def)
    ultimately show False using i0(3) D(2) by (simp add: claimable_available)
  qed
  moreover have "phases (images_t w') = (phases (images_t w))(k \<mapsto> Working (Some (w_clock w)))"
    unfolding w' using i0 by (simp, intro phases_update) (auto simp: take_image_def phase_of_def)
  moreover have "w_clock w' = w_clock w" by (simp add: w')
  ultimately show ?thesis
    using take [of "queue_abs (w, js)" k "phase_of i0" D v] row i0(3) claim(1,2)
    by (simp add: queue_abs_def claimable_available workers_def)
next
  case (refuse k w w' js)
  moreover have "w' = w" using inv refuse claim_refused [of w k w'] by (simp add: queue_inv_def)
  ultimately show ?thesis by simp
next
  case (analyzed j js r w x w')
  then have inv: "queue_inv D (w, js)" using inv by simp
  from job_ends [OF inv analyzed(3) _ analyzed_phases [OF analyzed(4)]] job_row [OF inv analyzed(3)]
  show ?thesis by (simp add: analyzed(1,2) working_def)
next
  case (failed j js e w x w')
  then have inv: "queue_inv D (w, js)" using inv by simp
  from job_ends [OF inv failed(3) _ failed_phases [OF failed(4)]] job_row [OF inv failed(3)]
  show ?thesis by (simp add: failed(1,2) working_def)
next
  case (terminal j js st e w x w')
  then have inv: "queue_inv D (w, js)" using inv by simp
  with job_row [OF inv terminal(3)] obtain o' where
    "w' = w \<or> w_clock w' = w_clock w \<and> phases (images_t w') = (phases (images_t w))(j_image j \<mapsto> Ended o')"
    using terminal_phases [OF terminal(4)] by blast
  from job_ends [OF inv terminal(3) _ this] show ?thesis by (simp add: terminal(1,2) working_def)
next
  case (vanish j js w)
  then show ?thesis using inv job_ends [of D w js j Waiting w] by (simp add: working_def)
next
  case (time d js w)
  have "\<forall>k v t. workers js k = Some (v, t) \<longrightarrow> w_clock w + d \<le> t + D" using time(4) workersD by blast
  then show ?thesis using wait [of d "queue_abs (w, js)" D] time(1-3) by (simp add: queue_abs_def)
next
  case (upload p f m n u b t a md w x w' js)
  then show ?thesis
    using submit [of "queue_abs (w, js)" _ D]
    by (auto simp: store_image_def gen_uuid_def insert_image_def bind_def queue_abs_def phases_snoc phases_None phase_of_def
        has_image_def split: if_splits)
next
  case (delete i w x w' js)
  have ok: "db_ok w" using inv delete(1) by (simp add: queue_inv_def)
  have "phases (images_t w) (im_id i) = Some (phase_of i)" using phases_Some [OF image_ids_distinct [OF ok] delete(3)] .
  moreover have "\<not> working (phase_of i) \<and> phase_of i \<noteq> Ended Analyzed"
    using delete(4) by (cases "im_status i") (simp_all add: deletable_def phase_of_def working_def)
  ultimately show ?thesis
    using withdraw [of "queue_abs (w, js)" "im_id i" "phase_of i" D] delete(1,2,5)
    by (auto simp: queue_abs_def delete_image_row_def delete_images_def bind_def Let_def phases_delete)
qed

definition queue_ok :: "int \<Rightarrow> world \<times> job list \<Rightarrow> bool" where
  "queue_ok D s \<longleftrightarrow> 0 \<le> D \<and> D \<le> claim_lease \<and> queue_inv D s"

interpretation queue: simulation "qstep D" "spec_step D" "queue_ok D" queue_abs for D
  by unfold_locales (auto simp: queue_ok_def dest: queue_inv_step queue_sim)

section \<open>The refinement\<close>



end
