(* ===== verification/ReceiptStore.thy ===== *)
theory ReceiptStore
  imports ImageStore "HOL-Library.List_Lexorder"
begin

text \<open>
  The receipts, line_items, taxes and item_category_aliases tables (provider/db/receipt_db.py), one
  definition per method of ReceiptDB. The pool is the flag \<open>w_db_ready\<close>, which the callers check.
  A row is returned as it is stored; the conversions of the row models to JSON are not modelled.
\<close>

section \<open>Category decisions\<close>

record decision =
  d_id :: "uuid option"
  d_original :: string
  d_category :: string
  d_source :: category_source

text \<open>The rows of item_category_aliases that answer a lookup by merchant and description keys.\<close>

definition alias_for :: "uuid \<Rightarrow> string \<Rightarrow> string \<Rightarrow> alias_row \<Rightarrow> bool" where
  "alias_for user merchant_key description_key a \<longleftrightarrow>
     al_user_id a = user \<and> al_merchant a = merchant_key \<and> al_description a = description_key"

definition usable_category :: "string \<Rightarrow> bool" where
  "usable_category c \<longleftrightarrow> known_category c \<and> c \<noteq> ''unknown''"

definition get_category_suggestion :: "uuid \<Rightarrow> string \<Rightarrow> string \<Rightarrow> (world, string option) py" where
  "get_category_suggestion user_id merchant_name description =
     (let merchant_key = normalize_history_key merchant_name;
          description_key = normalize_history_key description in
      if merchant_key = [] \<or> description_key = [] then ret None
      else gets (\<lambda>w. case fetchrow (filter (alias_for user_id merchant_key description_key) (aliases_t w)) of
             None \<Rightarrow> None
           | Some a \<Rightarrow> if usable_category (al_category a) then Some (al_category a) else None))"

definition history_keys :: "string list \<Rightarrow> string list" where
  "history_keys descriptions = remdups (map normalize_history_key (filter (\<lambda>v. py_strip v \<noteq> []) descriptions))"

text \<open>\<open>_history_for_items\<close>: a dict from description key to category, as an association list.\<close>

definition history_rows :: "alias_row list \<Rightarrow> uuid option \<Rightarrow> string \<Rightarrow> string list \<Rightarrow> (string \<times> string) list" where
  "history_rows aliases user_id merchant_name descriptions =
     (case user_id of None \<Rightarrow> []
      | Some user \<Rightarrow>
        (let merchant_key = normalize_history_key merchant_name; keys = history_keys descriptions in
         if descriptions = [] \<or> merchant_key = [] \<or> keys = [] then []
         else map (\<lambda>a. (al_description a, al_category a))
           (filter (\<lambda>a. usable_category (al_category a))
             (filter (\<lambda>a. al_user_id a = user \<and> al_merchant a = merchant_key \<and> al_description a \<in> set keys)
               aliases))))"

definition history_for_items ::
  "uuid option \<Rightarrow> string \<Rightarrow> string list \<Rightarrow> (world, (string \<times> string) list) py" where
  "history_for_items user_id merchant_name descriptions =
     gets (\<lambda>w. history_rows (aliases_t w) user_id merchant_name descriptions)"

text \<open>The decision for an extracted item: the user's history first, then the model, then unknown.\<close>

definition extraction_decision :: "(string \<times> string) list \<Rightarrow> line_item \<Rightarrow> decision" where
  "extraction_decision history item =
     (case map_of (rev history) (normalize_history_key (i_description item)) of
        Some category \<Rightarrow> \<lparr>d_id = None, d_original = i_description item, d_category = category,
                         d_source = FromHistory\<rparr>
      | None \<Rightarrow> \<lparr>d_id = None, d_original = i_description item, d_category = i_category item,
                d_source = (if i_category item \<noteq> ''unknown'' then FromLlm else FromUnknown)\<rparr>)"

section \<open>Columns\<close>

definition receipt_time_value :: "receipt \<Rightarrow> exn + tod option" where
  "receipt_time_value r = (case rc_time r of None \<Rightarrow> Inr None
     | Some t \<Rightarrow> if t = [] then Inr None
               else (case time_fromisoformat t of Inl e \<Rightarrow> Inl e | Inr v \<Rightarrow> Inr (Some v)))"

definition store_opt :: "nat \<Rightarrow> nat \<Rightarrow> rat option \<Rightarrow> exn + rat option" where
  "store_opt p s x = (case x of None \<Rightarrow> Inr None
     | Some v \<Rightarrow> (case store_numeric p s v of Inl e \<Rightarrow> Inl e | Inr r \<Rightarrow> Inr (Some r)))"

text \<open>\<open>$1 \<dots> $14\<close>: the amounts go through \<open>float\<close> and the NUMERIC(14,2) columns.\<close>

record amounts =
  a_subtotal :: rat
  a_discount :: rat
  a_tax :: rat
  a_tip :: "rat option"
  a_total :: rat

definition receipt_amounts :: "receipt \<Rightarrow> (world, amounts) py" where
  "receipt_amounts r =
     bind (lift_result (store_numeric 14 2 (rc_subtotal r))) (\<lambda>subtotal.
     bind (lift_result (store_numeric 14 2 (rc_discount_total r))) (\<lambda>discount.
     bind (lift_result (store_numeric 14 2 (rc_tax_total r))) (\<lambda>tax.
     bind (lift_result (store_opt 14 2 (rc_tip r))) (\<lambda>tip.
     bind (lift_result (store_numeric 14 2 (rc_total r))) (\<lambda>total.
       ret \<lparr>a_subtotal = subtotal, a_discount = discount, a_tax = tax, a_tip = tip, a_total = total\<rparr>)))))"

definition set_columns :: "receipt \<Rightarrow> tod option \<Rightarrow> amounts \<Rightarrow> receipt_row \<Rightarrow> receipt_row" where
  "set_columns r t a row =
     row\<lparr>r_confidence := rc_confidence r, r_merchant_name := rc_merchant_name r,
       r_merchant_address := rc_merchant_address r, r_receipt_number := rc_receipt_number r,
       r_date := rc_date r, r_time := t, r_currency := rc_currency r, r_category := rc_category r,
       r_subtotal := a_subtotal a, r_discount_total := a_discount a, r_tax_total := a_tax a,
       r_tip := a_tip a, r_total := a_total a, r_payment_method := rc_payment_method r\<rparr>"

definition new_receipt_row ::
  "uuid \<Rightarrow> timestamp \<Rightarrow> receipt_status \<Rightarrow> uuid option \<Rightarrow> bool \<Rightarrow> uuid option \<Rightarrow> receipt \<Rightarrow> receipt_row" where
  "new_receipt_row k now status image_id verified user_id r =
     \<lparr>r_id = k, r_confidence = 0, r_merchant_name = [], r_merchant_address = None, r_receipt_number = None,
      r_date = rc_date r, r_time = None, r_currency = ''USD'', r_category = ''other'', r_subtotal = 0,
      r_discount_total = 0, r_tax_total = 0, r_tip = None, r_total = 0, r_payment_method = ''unknown'',
      r_created_at = now, r_status = status, r_image_id = image_id, r_verified = verified,
      r_user_id = user_id\<rparr>"

section \<open>Child rows\<close>

definition delete_line_items :: "uuid \<Rightarrow> (world, unit) py" where
  "delete_line_items receipt_id = modify (\<lambda>w. w\<lparr>items_t := sql_delete (\<lambda>i. li_receipt_id i = receipt_id) (items_t w)\<rparr>)"

definition delete_taxes :: "uuid \<Rightarrow> (world, unit) py" where
  "delete_taxes receipt_id = modify (\<lambda>w. w\<lparr>taxes_t := sql_delete (\<lambda>t. tx_receipt_id t = receipt_id) (taxes_t w)\<rparr>)"

definition insert_line_item :: "uuid \<Rightarrow> nat \<Rightarrow> line_item \<Rightarrow> decision \<Rightarrow> (world, unit) py" where
  "insert_line_item receipt_id index item d =
     bind (case d_id d of None \<Rightarrow> gen_uuid | Some k \<Rightarrow> ret k) (\<lambda>k.
     bind (lift_result (store_numeric 10 4 (i_quantity item))) (\<lambda>quantity.
     bind (lift_result (store_numeric 14 2 (i_unit_price item))) (\<lambda>unit_price.
     bind (lift_result (store_numeric 14 2 (i_total_price item))) (\<lambda>total_price.
       insert_item \<lparr>li_id = k, li_receipt_id = receipt_id, li_description = i_description item,
         li_original = d_original d, li_category = d_category d, li_source = d_source d,
         li_quantity = quantity, li_unit_price = unit_price, li_total_price = total_price,
         li_tags = i_tags item, li_position = index\<rparr>))))"

definition insert_tax_line :: "uuid \<Rightarrow> tax_line \<Rightarrow> (world, unit) py" where
  "insert_tax_line receipt_id x =
     bind gen_uuid (\<lambda>k.
     bind (lift_result (store_opt 6 4 (x_rate x))) (\<lambda>rate.
     bind (lift_result (store_numeric 14 2 (x_amount x))) (\<lambda>amount.
       insert_tax \<lparr>tx_id = k, tx_receipt_id = receipt_id, tx_name = x_name x, tx_rate = rate,
         tx_amount = amount\<rparr>)))"

text \<open>The loop over \<open>enumerate(zip(line_items, decisions))\<close> from index \<open>n\<close>.\<close>

fun insert_items_from :: "uuid \<Rightarrow> nat \<Rightarrow> line_item list \<Rightarrow> decision list \<Rightarrow> (world, unit) py" where
  "insert_items_from receipt_id n (item # items) (d # ds) =
     seq (insert_line_item receipt_id n item d) (insert_items_from receipt_id (Suc n) items ds)"
| "insert_items_from receipt_id n items ds = ret ()"

definition insert_children :: "uuid \<Rightarrow> receipt \<Rightarrow> decision list \<Rightarrow> (world, unit) py" where
  "insert_children receipt_id r decisions =
     seq (insert_items_from receipt_id 0 (rc_line_items r) decisions)
         (for_each (rc_taxes r) (insert_tax_line receipt_id))"

definition replace_children :: "uuid \<Rightarrow> receipt \<Rightarrow> decision list \<Rightarrow> (world, unit) py" where
  "replace_children receipt_id r decisions =
     seq (delete_line_items receipt_id) (seq (delete_taxes receipt_id) (insert_children receipt_id r decisions))"

section \<open>Persisting an extraction\<close>

text \<open>The oldest receipt of an image: \<open>ORDER BY created_at ASC, id ASC LIMIT 1\<close>.\<close>

definition receipt_of_image :: "uuid \<Rightarrow> world \<Rightarrow> receipt_row option" where
  "receipt_of_image image_id w =
     fetchrow (sort_key (\<lambda>r. (r_created_at r, r_id r)) (filter (\<lambda>r. r_image_id r = Some image_id) (receipts_t w)))"

definition get_receipt_by_image_id :: "uuid \<Rightarrow> (world, receipt_row option) py" where
  "get_receipt_by_image_id image_id = gets (receipt_of_image image_id)"

text \<open>
  UPDATE_RECEIPT_BY_IMAGE_SQL: the values are converted to the columns' types only when a row
  matches.
\<close>

definition update_receipt_by_image ::
  "receipt \<Rightarrow> tod option \<Rightarrow> receipt_status \<Rightarrow> bool \<Rightarrow> uuid option \<Rightarrow> uuid \<Rightarrow> (world, receipt_row option) py" where
  "update_receipt_by_image r t status verified user_id image_id =
     bind (get_receipt_by_image_id image_id) (\<lambda>old. case old of
       None \<Rightarrow> ret None
     | Some x0 \<Rightarrow> bind (receipt_amounts r) (\<lambda>a.
         bind (update_receipts (\<lambda>x. r_id x = r_id x0)
            (\<lambda>x. (set_columns r t a x)\<lparr>r_status := status, r_verified := verified, r_user_id := user_id\<rparr>)) (\<lambda>rows.
           ret (fetchrow rows))))"

definition insert_new_receipt ::
  "receipt \<Rightarrow> tod option \<Rightarrow> receipt_status \<Rightarrow> uuid option \<Rightarrow> bool \<Rightarrow> uuid option \<Rightarrow> (world, receipt_row) py" where
  "insert_new_receipt r t status image_id verified user_id =
     bind (receipt_amounts r) (\<lambda>a. bind gen_uuid (\<lambda>k. bind (gets w_clock) (\<lambda>now.
       insert_receipt (set_columns r t a (new_receipt_row k now status image_id verified user_id r)))))"

definition persist_receipt_row ::
  "receipt \<Rightarrow> tod option \<Rightarrow> uuid option \<Rightarrow> receipt_status \<Rightarrow> bool \<Rightarrow> uuid option \<Rightarrow> (world, receipt_row) py" where
  "persist_receipt_row r t image_id status verified user_id =
     bind (case image_id of None \<Rightarrow> ret None
           | Some i \<Rightarrow> update_receipt_by_image r t status verified user_id i) (\<lambda>row. case row of
       Some x \<Rightarrow> ret x
     | None \<Rightarrow> insert_new_receipt r t status image_id verified user_id)"

definition persist_receipt ::
  "receipt \<Rightarrow> uuid option \<Rightarrow> receipt_status \<Rightarrow> bool \<Rightarrow> uuid option \<Rightarrow> (world, receipt_row) py" where
  "persist_receipt r image_id status verified user_id =
     bind (lift_result (receipt_time_value r)) (\<lambda>t. transaction (
       bind (persist_receipt_row r t image_id status verified user_id) (\<lambda>row.
       bind (history_for_items user_id (rc_merchant_name r) (map i_description (rc_line_items r))) (\<lambda>history.
       seq (replace_children (r_id row) r (map (extraction_decision history) (rc_line_items r)))
         (ret row)))))"

section \<open>Editing\<close>

text \<open>
  The stored row an edited item stands for: the one with its id, or, for a client that sends no ids
  at all and as many items as are stored, the row at the same position with the same description.
\<close>

definition match_old :: "item_row list \<Rightarrow> bool \<Rightarrow> nat \<Rightarrow> nat \<Rightarrow> line_item \<Rightarrow> exn + item_row option" where
  "match_old old_rows legacy_items n position item =
     (case i_id item of
        Some k \<Rightarrow> (case fetchrow (filter (\<lambda>x. li_id x = k) old_rows) of
            None \<Rightarrow> Inl (ValueError ''Line item id does not belong to this receipt'')
          | Some x \<Rightarrow> Inr (Some x))
      | None \<Rightarrow>
          if legacy_items \<and> length old_rows = n
          then (case fetchrow (filter (\<lambda>x. li_position x = position) (rev old_rows)) of
              None \<Rightarrow> Inr None
            | Some x \<Rightarrow> if li_description x = i_description item then Inr (Some x) else Inr None)
          else Inr None)"

definition edit_decision :: "item_row option \<Rightarrow> line_item \<Rightarrow> decision" where
  "edit_decision old item =
     (let original = (case old of None \<Rightarrow> i_description item
                      | Some x \<Rightarrow> if li_original x = [] then li_description x else li_original x);
          old_category = (case old of None \<Rightarrow> ''unknown'' | Some x \<Rightarrow> li_category x);
          old_source = (case old of None \<Rightarrow> FromUnknown | Some x \<Rightarrow> li_source x);
          changed = (i_category_set item \<and> i_category item \<noteq> old_category);
          category = (if changed \<or> old = None then i_category item else old_category);
          source = (if changed \<or> i_remember item then FromUser else old_source)
      in \<lparr>d_id = map_option li_id old, d_original = original, d_category = category,
          d_source = (if old = None \<and> i_category_set item \<and> category \<noteq> ''unknown'' then FromUser else source)\<rparr>)"

text \<open>\<open>INSERT ... ON CONFLICT (user_id, merchant_key, description_key) DO UPDATE SET category\<close>.\<close>

definition upsert_category_alias :: "uuid \<Rightarrow> string \<Rightarrow> string \<Rightarrow> string \<Rightarrow> (world, unit) py" where
  "upsert_category_alias user merchant_key description_key category w =
     (if sql_exists (alias_for user merchant_key description_key) (aliases_t w)
      then (Inr (), w\<lparr>aliases_t := sql_update (alias_for user merchant_key description_key)
              (\<lambda>a. a\<lparr>al_category := category\<rparr>) (aliases_t w)\<rparr>)
      else if \<not> has_user w user then (Inl ForeignKeyViolation, w)
      else (Inr (), w\<lparr>aliases_t := aliases_t w @ [\<lparr>al_user_id = user, al_merchant = merchant_key,
              al_description = description_key, al_category = category\<rparr>]\<rparr>))"

definition delete_category_alias :: "uuid \<Rightarrow> string \<Rightarrow> string \<Rightarrow> (world, unit) py" where
  "delete_category_alias user merchant_key description_key =
     modify (\<lambda>w. w\<lparr>aliases_t := sql_delete (alias_for user merchant_key description_key) (aliases_t w)\<rparr>)"

text \<open>Remembering a decision: for the printed and for the edited description.\<close>

definition remember_category :: "uuid option \<Rightarrow> string \<Rightarrow> line_item \<Rightarrow> decision \<Rightarrow> (world, unit) py" where
  "remember_category owner merchant_key item d =
     (case owner of None \<Rightarrow> ret ()
      | Some user \<Rightarrow>
         if i_remember item \<and> merchant_key \<noteq> []
         then for_each (remdups [normalize_history_key (d_original d), normalize_history_key (i_description item)])
           (\<lambda>description_key.
              if description_key = [] then ret ()
              else if d_category d = ''unknown'' then delete_category_alias user merchant_key description_key
              else upsert_category_alias user merchant_key description_key (d_category d))
         else ret ())"

text \<open>The loop over the edited items; \<open>used\<close> are the ids of stored rows already matched.\<close>

fun decide_items ::
  "uuid option \<Rightarrow> string \<Rightarrow> item_row list \<Rightarrow> bool \<Rightarrow> nat \<Rightarrow> uuid list \<Rightarrow> nat \<Rightarrow> line_item list
   \<Rightarrow> (world, decision list) py" where
  "decide_items owner merchant_key old_rows legacy_items n used position [] = ret []"
| "decide_items owner merchant_key old_rows legacy_items n used position (item # items) =
     bind (lift_result (match_old old_rows legacy_items n position item)) (\<lambda>old.
     bind (guard (case old of None \<Rightarrow> True | Some x \<Rightarrow> li_id x \<notin> set used)
        (ValueError ''Duplicate line item id'')) (\<lambda>_.
     let d = edit_decision old item;
         used' = (case old of None \<Rightarrow> used | Some x \<Rightarrow> li_id x # used) in
     seq (remember_category owner merchant_key item d)
     (bind (decide_items owner merchant_key old_rows legacy_items n used' (Suc position) items) (\<lambda>ds.
       ret (d # ds)))))"

definition list_line_items :: "uuid \<Rightarrow> (world, item_row list) py" where
  "list_line_items receipt_id = gets (\<lambda>w.
     sort_key li_position (filter (\<lambda>i. li_receipt_id i = receipt_id) (items_t w)))"

definition list_taxes :: "uuid \<Rightarrow> (world, tax_row list) py" where
  "list_taxes receipt_id = gets (\<lambda>w. sort_key tx_id (filter (\<lambda>t. tx_receipt_id t = receipt_id) (taxes_t w)))"

definition own_receipt :: "uuid \<Rightarrow> uuid option \<Rightarrow> bool \<Rightarrow> receipt_row \<Rightarrow> bool" where
  "own_receipt k user_id can_see_all r \<longleftrightarrow> r_id r = k \<and> visible user_id can_see_all (r_user_id r)"

text \<open>UPDATE_RECEIPT_SQL, with the values converted only when the row is there.\<close>

definition update_receipt_row ::
  "uuid \<Rightarrow> receipt \<Rightarrow> tod option \<Rightarrow> uuid option \<Rightarrow> bool \<Rightarrow> (world, receipt_row option) py" where
  "update_receipt_row k r t user_id can_see_all =
     bind (gets (\<lambda>w. sql_exists (own_receipt k user_id can_see_all) (receipts_t w))) (\<lambda>found.
       if \<not> found then ret None
       else bind (receipt_amounts r) (\<lambda>a.
         bind (update_receipts (own_receipt k user_id can_see_all) (set_columns r t a)) (\<lambda>rows. ret (fetchrow rows))))"

definition update_receipt :: "uuid \<Rightarrow> receipt \<Rightarrow> uuid option \<Rightarrow> bool \<Rightarrow> (world, receipt_row option) py" where
  "update_receipt k r user_id can_see_all =
     bind (lift_result (receipt_time_value r)) (\<lambda>t. transaction (
       bind (update_receipt_row k r t user_id can_see_all) (\<lambda>row. case row of
         None \<Rightarrow> ret None
       | Some row \<Rightarrow>
          bind (list_line_items k) (\<lambda>old_rows.
          bind (decide_items (r_user_id row) (normalize_history_key (rc_merchant_name r)) old_rows
             (list_all (\<lambda>i. i_id i = None) (rc_line_items r)) (length (rc_line_items r)) [] 0
             (rc_line_items r)) (\<lambda>decisions.
          seq (replace_children k r decisions) (ret (Some row)))))))"

section \<open>Verify, delete, look up\<close>

definition verify_receipt :: "uuid \<Rightarrow> uuid option \<Rightarrow> bool \<Rightarrow> (world, receipt_row option) py" where
  "verify_receipt k user_id can_see_all =
     bind (update_receipts (own_receipt k user_id can_see_all) (\<lambda>r. r\<lparr>r_status := Verified, r_verified := True\<rparr>))
       (\<lambda>rows. ret (fetchrow rows))"

definition delete_receipt :: "uuid \<Rightarrow> uuid option \<Rightarrow> bool \<Rightarrow> (world, receipt_row option) py" where
  "delete_receipt k user_id can_see_all =
     bind (delete_receipts (own_receipt k user_id can_see_all)) (\<lambda>rows. ret (fetchrow rows))"

definition get_receipt_by_id :: "uuid \<Rightarrow> uuid option \<Rightarrow> bool \<Rightarrow> (world, receipt_row option) py" where
  "get_receipt_by_id k user_id can_see_all =
     gets (\<lambda>w. fetchrow (filter (own_receipt k user_id can_see_all) (receipts_t w)))"

record receipt_details =
  rd_receipt :: receipt_row
  rd_line_items :: "item_row list"
  rd_taxes :: "tax_row list"
  rd_image_path :: "string option"
  rd_thumbnail_path :: "string option"
  rd_collection_ids :: "uuid list"

definition get_receipt_with_details :: "uuid \<Rightarrow> uuid option \<Rightarrow> bool \<Rightarrow> (world, receipt_details option) py" where
  "get_receipt_with_details k user_id can_see_all =
     bind (get_receipt_by_id k user_id can_see_all) (\<lambda>row. case row of
       None \<Rightarrow> ret None
     | Some r \<Rightarrow>
        bind (gets (\<lambda>w. fetchrow (filter (\<lambda>i. r_image_id r = Some (im_id i)) (images_t w)))) (\<lambda>image.
        bind (list_line_items k) (\<lambda>items.
        bind (list_taxes k) (\<lambda>taxes.
        bind (gets (\<lambda>w. map lk_collection_id (filter (\<lambda>l. lk_receipt_id l = k) (links_t w)))) (\<lambda>ids.
          ret (Some \<lparr>rd_receipt = r, rd_line_items = items, rd_taxes = taxes,
            rd_image_path = Option.bind image im_path, rd_thumbnail_path = Option.bind image im_thumb,
            rd_collection_ids = ids\<rparr>))))))"

section \<open>Tags\<close>

definition list_tags :: "(world, string list) py" where
  "list_tags = gets (\<lambda>w. sort_key (map code_of) (tags_t w))"

definition create_tag_row :: "string \<Rightarrow> (world, bool) py" where
  "create_tag_row name w =
     (if \<not> varchar 100 name then (Inl DataError, w)
      else if name \<in> set (tags_t w) then (Inr False, w)
      else (Inr True, w\<lparr>tags_t := tags_t w @ [name]\<rparr>))"

section \<open>Integrity\<close>

lemma set_columns_keys [simp]:
  "r_id (set_columns r t a x) = r_id x" "r_image_id (set_columns r t a x) = r_image_id x"
  "r_user_id (set_columns r t a x) = r_user_id x" "r_created_at (set_columns r t a x) = r_created_at x"
  "r_status (set_columns r t a x) = r_status x" "r_verified (set_columns r t a x) = r_verified x"
  by (simp_all add: set_columns_def)

lemma receipt_amounts_reads: "reads (receipt_amounts r)"
  by (simp add: reads_def receipt_amounts_def py_defs split: sum.split)

lemma upsert_category_alias_ok [keeps_intro]: "keeps db_ok (upsert_category_alias user m k c)"
proof (rule keepsI)
  fix w assume ok: "db_ok w"
  note simps = keys_ok_def refs_defs has_defs one_receipt_per_image_def one_active_collection_def widths_ok_def
  let ?v = "w\<lparr>aliases_t := sql_update (alias_for user m k) (\<lambda>a. a\<lparr>al_category := c\<rparr>) (aliases_t w)\<rparr>"
  let ?a = "\<lparr>al_user_id = user, al_merchant = m, al_description = k, al_category = c\<rparr>"
  have "db_ok ?v"
    by (rule db_okI) (use db_okD [OF ok] in \<open>auto simp: simps map_sql_update alias_key_def set_sql_update\<close>)
  moreover have "db_ok (w\<lparr>aliases_t := aliases_t w @ [?a]\<rparr>)"
    if "\<not> sql_exists (alias_for user m k) (aliases_t w)" "has_user w user"
    by (rule db_okI) (use db_okD [OF ok] that in \<open>auto simp: simps alias_key_def sql_exists_iff alias_for_def\<close>)
  ultimately show "db_ok (snd (upsert_category_alias user m k c w))"
    using ok by (simp add: upsert_category_alias_def)
qed

lemma receipt_child_ops_ok [keeps_intro]:
  "keeps db_ok (delete_line_items k)" "keeps db_ok (delete_taxes k)" "keeps db_ok (delete_category_alias u m d)"
  "keeps db_ok (insert_line_item k n i dc)" "keeps db_ok (insert_tax_line k x)"
  by (auto simp: delete_line_items_def delete_taxes_def delete_category_alias_def insert_line_item_def
      insert_tax_line_def intro!: keeps_intro delete_leaves_ok)

lemma insert_items_from_ok [keeps_intro]: "keeps db_ok (insert_items_from k n items ds)"
  by (induction k n items ds rule: insert_items_from.induct) (auto intro!: keeps_intro)

lemma replace_children_ok [keeps_intro]: "keeps db_ok (replace_children k r ds)"
  by (auto simp: replace_children_def insert_children_def intro!: keeps_intro)

lemma remember_category_ok [keeps_intro]: "keeps db_ok (remember_category u m i d)"
  by (auto simp: remember_category_def simp del: for_each.simps intro!: keeps_intro)

lemma decide_items_ok [keeps_intro]: "keeps db_ok (decide_items u m old l n used p items)"
  by (induction u m old l n used p items rule: decide_items.induct) (auto simp: Let_def intro!: keeps_intro)

lemma receipt_ops_ok [keeps_intro]:
  "keeps db_ok (persist_receipt r i s v u)" "keeps db_ok (update_receipt k r u c)"
  "keeps db_ok (verify_receipt k u c)" "keeps db_ok (delete_receipt k u c)" "keeps db_ok (get_receipt_by_id k u c)"
  "keeps db_ok (get_receipt_by_image_id k)" "keeps db_ok (get_receipt_with_details k u c)"
  "keeps db_ok (get_category_suggestion x m d)" "keeps db_ok list_tags"
  by (auto simp: persist_receipt_def persist_receipt_row_def update_receipt_by_image_def insert_new_receipt_def
      update_receipt_def update_receipt_row_def verify_receipt_def delete_receipt_def get_receipt_by_id_def
      get_receipt_by_image_id_def get_receipt_with_details_def get_category_suggestion_def list_tags_def
      history_for_items_def list_line_items_def list_taxes_def Let_def
      intro!: keeps_intro update_receipts_ok reads_keeps [OF receipt_amounts_reads])

lemma create_tag_row_ok [keeps_intro]: "keeps db_ok (create_tag_row n)"
proof (rule keepsI)
  fix w assume ok: "db_ok w"
  have "db_ok (w\<lparr>tags_t := tags_t w @ [n]\<rparr>)" if "n \<notin> set (tags_t w)"
    by (rule db_okI) (use db_okD [OF ok] that in \<open>auto simp: keys_ok_def refs_defs has_defs
      one_receipt_per_image_def one_active_collection_def widths_ok_def\<close>)
  then show "db_ok (snd (create_tag_row n w))" using ok by (simp add: create_tag_row_def)
qed

section \<open>Receipts are scoped\<close>

lemma get_receipt_cases:
  "get_receipt_by_id k u c w = (Inr None, w) \<longleftrightarrow> (\<forall>r \<in> set (receipts_t w). \<not> own_receipt k u c r)"
  "get_receipt_by_id k u c w = (Inr (Some r), w) \<Longrightarrow> r \<in> set (receipts_t w) \<and> own_receipt k u c r"
  by (auto simp: get_receipt_by_id_def fetchrow_filter_None dest: fetchrow_filter_Some)

interpretation receipt_scope: scoped_table receipts_t r_id r_user_id get_receipt_by_id
proof unfold_locales
  show "\<exists>x. get_receipt_by_id k u c w = (Inr x, w)" for k u c w by (simp add: get_receipt_by_id_def)
  show "r \<in> set (receipts_t w) \<and> r_id r = k \<and> visible u c (r_user_id r)"
    if "get_receipt_by_id k u c w = (Inr (Some r), w)" for k u c w r
    using get_receipt_cases(2) [OF that] by (simp add: own_receipt_def)
  show "\<not> visible u c (r_user_id r)"
    if "get_receipt_by_id k u c w = (Inr None, w)" "r \<in> set (receipts_t w)" "r_id r = k" for k u c w r
    using that unfolding get_receipt_cases(1) by (simp add: own_receipt_def)
qed

interpretation receipt_verify: scoped_writer receipts_t r_id r_user_id get_receipt_by_id verify_receipt
proof unfold_locales
  show "verify_receipt k u c w = (Inr None, w)" if "get_receipt_by_id k u c w = (Inr None, w)" for k u c w
    using that unfolding get_receipt_cases(1)
    by (simp add: verify_receipt_def update_receipts_def bind_def sql_update_none)
  show "r \<in> set (receipts_t (snd (verify_receipt k u c w)))"
    if "r \<in> set (receipts_t w)" "\<not> visible u c (r_user_id r)" for r w u c k
    using that by (auto simp: verify_receipt_def update_receipts_def bind_def Let_def own_receipt_def set_sql_update)
qed

interpretation receipt_delete: scoped_writer receipts_t r_id r_user_id get_receipt_by_id delete_receipt
proof unfold_locales
  show "delete_receipt k u c w = (Inr None, w)" if "get_receipt_by_id k u c w = (Inr None, w)" for k u c w
  proof -
    have none: "\<forall>r \<in> set (receipts_t w). \<not> own_receipt k u c r" using that get_receipt_cases(1) by blast
    then have "filter (own_receipt k u c) (receipts_t w) = []" by (simp add: filter_empty_conv)
    moreover have "clear_receipt_links (\<lambda>_. False) t = t" for t
      unfolding clear_receipt_links_def by (rule sql_update_none) (simp add: ref_opt_def split: option.split)
    ultimately show ?thesis
      by (simp add: delete_receipt_def delete_receipts_def bind_def sql_exists_iff sql_delete_none [OF none] sql_delete_none)
  qed
  show "r \<in> set (receipts_t (snd (delete_receipt k u c w)))"
    if "r \<in> set (receipts_t w)" "\<not> visible u c (r_user_id r)" for r w u c k
    using that by (auto simp: delete_receipt_def delete_receipts_def bind_def Let_def own_receipt_def set_sql_delete)
qed

section \<open>What the child inserts store\<close>

definition item_stored :: "uuid \<Rightarrow> nat \<Rightarrow> line_item \<Rightarrow> decision \<Rightarrow> item_row \<Rightarrow> bool" where
  "item_stored k n item d row \<longleftrightarrow>
     li_receipt_id row = k \<and> li_position row = n \<and> li_description row = i_description item
     \<and> li_original row = d_original d \<and> li_category row = d_category d \<and> li_source row = d_source d
     \<and> li_tags row = i_tags item \<and> (\<forall>x. d_id d = Some x \<longrightarrow> li_id row = x)
     \<and> store_numeric 10 4 (i_quantity item) = Inr (li_quantity row)
     \<and> store_numeric 14 2 (i_unit_price item) = Inr (li_unit_price row)
     \<and> store_numeric 14 2 (i_total_price item) = Inr (li_total_price row)"

fun items_stored :: "uuid \<Rightarrow> nat \<Rightarrow> line_item list \<Rightarrow> decision list \<Rightarrow> item_row list \<Rightarrow> bool" where
  "items_stored k n (i # is) (d # ds) (x # xs) \<longleftrightarrow> item_stored k n i d x \<and> items_stored k (Suc n) is ds xs"
| "items_stored k n is ds xs \<longleftrightarrow> is = [] \<and> ds = [] \<and> xs = []"

lemma lift_result_eq_Inr: "lift_result r s = (Inr x, t) \<longleftrightarrow> r = Inr x \<and> t = s"
  by (cases r) (auto simp: lift_result_def)

lemma tick_last:
  "w\<lparr>w_tick := m, items_t := a\<rparr> = w\<lparr>items_t := a, w_tick := m\<rparr>"
  "w\<lparr>w_tick := m, taxes_t := b\<rparr> = w\<lparr>taxes_t := b, w_tick := m\<rparr>"
  "w\<lparr>w_tick := m, receipts_t := c\<rparr> = w\<lparr>receipts_t := c, w_tick := m\<rparr>"
  by (simp_all add: world.equality)

lemma insert_line_item_run:
  assumes "insert_line_item k n item d w = (Inr u, w')"
  shows "\<exists>x m. w' = w\<lparr>items_t := items_t w @ [x], w_tick := m\<rparr> \<and> item_stored k n item d x"
proof -
  obtain j v q p t where j: "(case d_id d of None \<Rightarrow> gen_uuid | Some k \<Rightarrow> ret k) w = (Inr j, v)"
    and nums: "store_numeric 10 4 (i_quantity item) = Inr q" "store_numeric 14 2 (i_unit_price item) = Inr p"
      "store_numeric 14 2 (i_total_price item) = Inr t"
    and ins: "insert_item \<lparr>li_id = j, li_receipt_id = k, li_description = i_description item,
         li_original = d_original d, li_category = d_category d, li_source = d_source d,
         li_quantity = q, li_unit_price = p, li_total_price = t,
         li_tags = i_tags item, li_position = n\<rparr> v = (Inr u, w')" (is "insert_item ?x v = _")
    using assms by (auto simp: insert_line_item_def bind_eq_Inr lift_result_eq_Inr)
  define m where "m = w_tick v"
  have v: "v = w\<lparr>w_tick := m\<rparr>" and id: "\<forall>x. d_id d = Some x \<longrightarrow> j = x"
    using j by (auto simp: gen_uuid_def m_def split: option.splits)
  have "w' = w\<lparr>items_t := items_t w @ [?x], w_tick := m\<rparr>"
    using ins unfolding v insert_item_def by (simp add: tick_last split: if_splits)
  moreover have "item_stored k n item d ?x" using nums id by (simp add: item_stored_def)
  ultimately show ?thesis by blast
qed

lemma insert_tax_line_run:
  assumes "insert_tax_line k t w = (Inr u, w')"
  shows "\<exists>x m. w' = w\<lparr>taxes_t := taxes_t w @ [x], w_tick := m\<rparr> \<and> tx_name x = x_name t \<and> tx_receipt_id x = k"
proof -
  obtain j rate amount where
    "insert_tax \<lparr>tx_id = j, tx_receipt_id = k, tx_name = x_name t, tx_rate = rate, tx_amount = amount\<rparr>
       (w\<lparr>w_tick := Suc (w_tick w)\<rparr>) = (Inr u, w')" (is "insert_tax ?x _ = _")
    using assms by (auto simp: insert_tax_line_def bind_eq_Inr lift_result_eq_Inr gen_uuid_def)
  then have "w' = w\<lparr>taxes_t := taxes_t w @ [?x], w_tick := Suc (w_tick w)\<rparr>"
    by (auto simp: insert_tax_def tick_last split: if_splits)
  moreover have "tx_name ?x = x_name t \<and> tx_receipt_id ?x = k" by simp
  ultimately show ?thesis by blast
qed

lemma same_tick: "\<exists>m. w = w\<lparr>w_tick := m\<rparr>" for w :: world
  by (rule exI [of _ "w_tick w"]) simp

lemma insert_items_from_run:
  assumes "insert_items_from k n items ds w = (Inr u, w')" and "length items = length ds"
  shows "\<exists>xs m. w' = w\<lparr>items_t := items_t w @ xs, w_tick := m\<rparr> \<and> items_stored k n items ds xs"
  using assms
proof (induction k n items ds arbitrary: w rule: insert_items_from.induct)
  case (1 k n item items d ds)
  from 1(2) obtain v where v: "insert_line_item k n item d w = (Inr (), v)"
    and rest: "insert_items_from k (Suc n) items ds v = (Inr u, w')"
    by (auto simp: seq_eq_Inr)
  obtain x m where x: "v = w\<lparr>items_t := items_t w @ [x], w_tick := m\<rparr>" "item_stored k n item d x"
    using insert_line_item_run [OF v] by blast
  obtain xs m' where xs: "w' = v\<lparr>items_t := items_t v @ xs, w_tick := m'\<rparr>" "items_stored k (Suc n) items ds xs"
    using 1(1) [OF rest] 1(3) by auto
  have "w' = w\<lparr>items_t := items_t w @ (x # xs), w_tick := m'\<rparr>" by (simp add: xs x)
  moreover have "items_stored k n (item # items) (d # ds) (x # xs)" using x xs by simp
  ultimately show ?case by blast
qed (simp_all add: same_tick)

lemma insert_taxes_run:
  assumes "for_each taxes (insert_tax_line k) w = (Inr u, w')"
  shows "\<exists>xs m. w' = w\<lparr>taxes_t := taxes_t w @ xs, w_tick := m\<rparr>
     \<and> map tx_name xs = map x_name taxes \<and> (\<forall>x \<in> set xs. tx_receipt_id x = k)"
  using assms
proof (induction taxes arbitrary: w)
  case Nil
  then show ?case by (intro exI [of _ "[]"] exI [of _ "w_tick w"]) simp
next
  case (Cons t taxes)
  from Cons(2) obtain v where v: "insert_tax_line k t w = (Inr (), v)" and rest: "for_each taxes (insert_tax_line k) v = (Inr u, w')"
    by (auto simp: seq_eq_Inr)
  obtain x m where x: "v = w\<lparr>taxes_t := taxes_t w @ [x], w_tick := m\<rparr>" "tx_name x = x_name t" "tx_receipt_id x = k"
    using insert_tax_line_run [OF v] by blast
  obtain xs m' where xs: "w' = v\<lparr>taxes_t := taxes_t v @ xs, w_tick := m'\<rparr>" "map tx_name xs = map x_name taxes"
      "\<forall>x \<in> set xs. tx_receipt_id x = k"
    using Cons.IH [OF rest] by blast
  have "w' = w\<lparr>taxes_t := taxes_t w @ (x # xs), w_tick := m'\<rparr>" by (simp add: xs x)
  then show ?case using x xs by (intro exI [of _ "x # xs"] exI [of _ m']) simp
qed

lemma items_stored_facts:
  assumes "items_stored k n items ds xs"
  shows "map li_description xs = map i_description items" "map li_position xs = [n..<n + length items]"
    "map li_category xs = map d_category ds" "map li_source xs = map d_source ds"
    "map li_original xs = map d_original ds" "\<forall>x \<in> set xs. li_receipt_id x = k" "length ds = length items"
  using assms
  by (induction k n items ds xs rule: items_stored.induct) (auto simp: item_stored_def upt_rec)

lemma sorted_positions: "map li_position xs = [n..<m] \<Longrightarrow> sort_key li_position xs = xs"
  by (metis sort_key_id_if_sorted sorted_upt)

lemma replace_children_run:
  assumes "replace_children k r ds w = (Inr u, w')" and "length ds = length (rc_line_items r)"
  shows "\<exists>xs ts m. w' = w\<lparr>items_t := sql_delete (\<lambda>i. li_receipt_id i = k) (items_t w) @ xs,
       taxes_t := sql_delete (\<lambda>t. tx_receipt_id t = k) (taxes_t w) @ ts, w_tick := m\<rparr>
     \<and> items_stored k 0 (rc_line_items r) ds xs \<and> map tx_name ts = map x_name (rc_taxes r)
     \<and> (\<forall>x \<in> set ts. tx_receipt_id x = k) \<and> list_line_items k w' = (Inr xs, w')"
proof -
  let ?w0 = "w\<lparr>items_t := sql_delete (\<lambda>i. li_receipt_id i = k) (items_t w),
     taxes_t := sql_delete (\<lambda>t. tx_receipt_id t = k) (taxes_t w)\<rparr>"
  obtain v where v: "insert_items_from k 0 (rc_line_items r) ds ?w0 = (Inr (), v)"
    and rest: "for_each (rc_taxes r) (insert_tax_line k) v = (Inr u, w')"
    using assms(1) by (auto simp: replace_children_def insert_children_def delete_line_items_def delete_taxes_def seq_eq_Inr)
  obtain xs m where xs: "v = ?w0\<lparr>items_t := items_t ?w0 @ xs, w_tick := m\<rparr>" "items_stored k 0 (rc_line_items r) ds xs"
    using insert_items_from_run [OF v] assms(2) by auto
  obtain ts m' where ts: "w' = v\<lparr>taxes_t := taxes_t v @ ts, w_tick := m'\<rparr>" "map tx_name ts = map x_name (rc_taxes r)"
      "\<forall>x \<in> set ts. tx_receipt_id x = k"
    using insert_taxes_run [OF rest] by blast
  have w': "w' = w\<lparr>items_t := sql_delete (\<lambda>i. li_receipt_id i = k) (items_t w) @ xs,
       taxes_t := sql_delete (\<lambda>t. tx_receipt_id t = k) (taxes_t w) @ ts, w_tick := m'\<rparr>"
    by (simp add: ts xs)
  have "filter (\<lambda>i. li_receipt_id i = k) (items_t w') = xs"
    using items_stored_facts(6) [OF xs(2)] by (simp add: w' sql_delete_def)
  then have "list_line_items k w' = (Inr xs, w')"
    using sorted_positions [OF items_stored_facts(2) [OF xs(2)]] by (simp add: list_line_items_def)
  with w' xs(2) ts(2,3) show ?thesis by blast
qed

section \<open>Persisting: the receipt row\<close>

lemma receipt_ids_distinct: "db_ok w \<Longrightarrow> distinct (map r_id (receipts_t w))"
  by (simp add: db_ok_def keys_ok_def)

lemma receipt_unique:
  "db_ok w \<Longrightarrow> r \<in> set (receipts_t w) \<Longrightarrow> s \<in> set (receipts_t w) \<Longrightarrow> r_id r = r_id s \<Longrightarrow> r = s"
  using receipt_ids_distinct by (metis distinct_map inj_onD)

lemma image_receipt_unique:
  assumes "db_ok w" and "r \<in> set (receipts_t w)" and "s \<in> set (receipts_t w)"
    and "r_image_id r = Some k" and "r_image_id s = Some k"
  shows "r = s"
  using db_okD(7) [OF assms(1)] assms(2-5)
  unfolding one_receipt_per_image_def distinct_filter_iff [OF receipt_ids_distinct [OF assms(1)]] by auto

lemma receipt_of_image_cases:
  "receipt_of_image k w = None \<longleftrightarrow> (\<forall>r \<in> set (receipts_t w). r_image_id r \<noteq> Some k)"
  "receipt_of_image k w = Some r \<Longrightarrow> r \<in> set (receipts_t w) \<and> r_image_id r = Some k"
proof -
  have "sort_key f xs = [] \<longleftrightarrow> xs = []" for f :: "receipt_row \<Rightarrow> timestamp \<times> uuid" and xs
    by (metis set_empty set_sort)
  then show "receipt_of_image k w = None \<longleftrightarrow> (\<forall>r \<in> set (receipts_t w). r_image_id r \<noteq> Some k)"
    by (simp add: receipt_of_image_def fetchrow_None filter_empty_conv)
  show "receipt_of_image k w = Some r \<Longrightarrow> r \<in> set (receipts_t w) \<and> r_image_id r = Some k"
    unfolding receipt_of_image_def by (drule fetchrow_mem) simp
qed

lemma filter_by_key:
  "distinct (map key t) \<Longrightarrow> x \<in> set t \<Longrightarrow> filter (\<lambda>y. key y = key x) t = [x]"
  by (induction t) (auto simp: filter_empty_conv image_iff)

text \<open>
  An image that has a receipt keeps it: its row is rewritten in place, with the same id. Otherwise a
  row with a new id is appended. Nothing else happens to the table.
\<close>

lemma persist_receipt_row_run:
  assumes ok: "db_ok w" and run: "persist_receipt_row r t (Some k) st ver u w = (Inr row, v)"
  shows "row \<in> set (receipts_t v) \<and> r_image_id row = Some k \<and> r_user_id row = u \<and> r_status row = st
    \<and> r_merchant_name row = rc_merchant_name r \<and> v = w\<lparr>receipts_t := receipts_t v, w_tick := w_tick v\<rparr>
    \<and> (case receipt_of_image k w of
       Some x \<Rightarrow> r_id row = r_id x \<and> map r_id (receipts_t v) = map r_id (receipts_t w)
         \<and> (\<forall>s. s \<in> set (receipts_t w) \<and> s \<noteq> x \<longrightarrow> s \<in> set (receipts_t v))
     | None \<Rightarrow> receipts_t v = receipts_t w @ [row] \<and> \<not> has_receipt w (r_id row))"
proof (cases "receipt_of_image k w")
  case None
  then have "insert_new_receipt r t st (Some k) ver u w = (Inr row, v)"
    using run by (simp add: persist_receipt_row_def update_receipt_by_image_def get_receipt_by_image_id_def)
  then obtain a w0 where a: "receipt_amounts r w = (Inr a, w0)"
    and ins: "insert_receipt (set_columns r t a
      (new_receipt_row (w_supply w0 (w_tick w0)) (w_clock w0) st (Some k) ver u r)) (w0\<lparr>w_tick := Suc (w_tick w0)\<rparr>)
      = (Inr row, v)" (is "insert_receipt ?x _ = _")
    by (auto simp: insert_new_receipt_def bind_eq_Inr gen_uuid_def)
  have "w0 = w" using a receipt_amounts_reads by (metis reads_def snd_conv)
  then have "row = ?x" "v = w\<lparr>receipts_t := receipts_t w @ [?x], w_tick := Suc (w_tick w)\<rparr>" "\<not> has_receipt w (r_id ?x)"
    using ins by (auto simp: insert_receipt_def tick_last has_receipt_def split: if_splits)
  then show ?thesis by (simp add: None) (simp add: set_columns_def new_receipt_row_def)
next
  case (Some x)
  then have x: "x \<in> set (receipts_t w)" "r_image_id x = Some k" using receipt_of_image_cases(2) by blast+
  from run Some obtain a w0 rows v0 where a: "receipt_amounts r w = (Inr a, w0)"
    and upd: "update_receipts (\<lambda>y. r_id y = r_id x)
      (\<lambda>x. (set_columns r t a x)\<lparr>r_status := st, r_verified := ver, r_user_id := u\<rparr>) w0 = (Inr rows, v0)"
      (is "update_receipts _ ?f _ = (_, ?v)")
    and row: "(case fetchrow rows of None \<Rightarrow> insert_new_receipt r t st (Some k) ver u | Some x \<Rightarrow> ret x) v0 = (Inr row, v)"
    by (auto simp: persist_receipt_row_def update_receipt_by_image_def get_receipt_by_image_id_def bind_eq_Inr)
  have "w0 = w" using a receipt_amounts_reads by (metis reads_def snd_conv)
  then have rows: "rows = map ?f (filter (\<lambda>y. r_id y = r_id x) (receipts_t w))"
    and v0: "v0 = w\<lparr>receipts_t := sql_update (\<lambda>y. r_id y = r_id x) ?f (receipts_t w)\<rparr>"
    using upd by (auto simp: update_receipts_def Let_def split: if_splits)
  have "filter (\<lambda>y. r_id y = r_id x) (receipts_t w) = [x]"
    using receipt_ids_distinct [OF ok] x(1) by (rule filter_by_key)
  then have row: "row = ?f x" and v: "v = v0" using row rows by simp_all
  then show ?thesis
    using x receipt_unique [OF ok _ x(1)]
    by (auto simp: Some v v0 row set_sql_update map_sql_update set_columns_def)
qed

section \<open>History\<close>

lemma split_from_blank: "\<forall>c \<in> set s. py_space c \<Longrightarrow> split_from [] s = []"
  by (induction s) simp_all

lemma split_from_nonempty: "w \<noteq> [] \<or> (\<exists>c \<in> set s. \<not> py_space c) \<Longrightarrow> split_from w s \<noteq> []"
  by (induction w s rule: split_from.induct) (auto split: if_splits)

lemma py_split_empty: "py_split s = [] \<longleftrightarrow> (\<forall>c \<in> set s. py_space c)"
  unfolding py_split_def using split_from_blank split_from_nonempty by blast

lemma py_strip_empty: "py_strip s = [] \<longleftrightarrow> (\<forall>c \<in> set s. py_space c)"
proof -
  have "(\<forall>c \<in> set (dropWhile py_space s). py_space c) \<longleftrightarrow> dropWhile py_space s = []"
    using hd_dropWhile [of py_space s] by (cases "dropWhile py_space s") (auto simp del: dropWhile_eq_Nil_conv)
  then show ?thesis by (simp add: py_strip_def dropWhile_eq_Nil_conv)
qed

lemma strip_history_key: "py_strip d = [] \<longleftrightarrow> normalize_history_key d = []"
  by (simp add: history_key_empty py_split_empty py_strip_empty)

text \<open>The suggestion as a function of the alias table.\<close>

definition confirmed_category :: "alias_row list \<Rightarrow> uuid \<Rightarrow> string \<Rightarrow> string \<Rightarrow> string option" where
  "confirmed_category aliases user merchant description =
     (let merchant_key = normalize_history_key merchant; description_key = normalize_history_key description in
      if merchant_key = [] \<or> description_key = [] then None
      else case fetchrow (filter (alias_for user merchant_key description_key) aliases) of
             None \<Rightarrow> None
           | Some a \<Rightarrow> if usable_category (al_category a) then Some (al_category a) else None)"

lemma suggestion_run: "get_category_suggestion user m d w = (Inr (confirmed_category (aliases_t w) user m d), w)"
  by (simp add: get_category_suggestion_def confirmed_category_def Let_def)

lemma alias_lookup:
  assumes "distinct (map alias_key A)" and "k \<in> set keys"
  shows "map_of (rev (map (\<lambda>a. (al_description a, al_category a))
      (filter (\<lambda>a. usable_category (al_category a))
        (filter (\<lambda>a. al_user_id a = user \<and> al_merchant a = m \<and> al_description a \<in> set keys) A)))) k =
    (case fetchrow (filter (alias_for user m k) A) of None \<Rightarrow> None
     | Some a \<Rightarrow> if usable_category (al_category a) then Some (al_category a) else None)"
    (is "map_of (rev ?xs) k = _")
proof -
  have inj: "a = b" if "a \<in> set A" "b \<in> set A" "alias_for user m d a" "alias_for user m d b" for a b d
    using that assms(1) by (auto simp: alias_for_def alias_key_def distinct_map inj_on_def)
  have "distinct (filter (\<lambda>a. usable_category (al_category a))
        (filter (\<lambda>a. al_user_id a = user \<and> al_merchant a = m \<and> al_description a \<in> set keys) A))"
    using assms(1) by (simp add: distinct_map)
  then have "distinct (map fst ?xs)"
    using inj by (auto simp: distinct_map inj_on_def alias_for_def)
  then have "distinct (map fst (rev ?xs))" by (simp only: rev_map [symmetric] distinct_rev)
  then have mem: "map_of (rev ?xs) k = Some c \<longleftrightarrow> (k, c) \<in> set ?xs" for c
    by (simp only: map_of_eq_Some_iff set_rev)
  show ?thesis
  proof (cases "fetchrow (filter (alias_for user m k) A)")
    case None
    then have "\<forall>c. map_of (rev ?xs) k \<noteq> Some c"
      unfolding mem by (auto simp: fetchrow_filter_None alias_for_def)
    then show ?thesis unfolding not_Some_eq by (simp only: None option.case)
  next
    case (Some a)
    then have a: "a \<in> set A" "alias_for user m k a" by (auto dest: fetchrow_filter_Some)
    have "map_of (rev ?xs) k = Some c \<longleftrightarrow> usable_category (al_category a) \<and> c = al_category a" for c
    proof
      assume "map_of (rev ?xs) k = Some c"
      then obtain b where "b \<in> set A" "alias_for user m k b" "usable_category (al_category b)" "c = al_category b"
        unfolding mem by (auto simp: alias_for_def)
      moreover from this have "b = a" using inj a by blast
      ultimately show "usable_category (al_category a) \<and> c = al_category a" by simp
    next
      assume "usable_category (al_category a) \<and> c = al_category a"
      then show "map_of (rev ?xs) k = Some c"
        unfolding mem using a assms(2) by (auto simp: alias_for_def intro!: image_eqI [of _ _ a])
    qed
    then show ?thesis by (cases "map_of (rev ?xs) k") (auto simp: Some)
  qed
qed

lemma history_agrees:
  assumes "db_ok w" and "d \<in> set ds"
  shows "map_of (rev (history_rows (aliases_t w) (Some user) m ds)) (normalize_history_key d)
     = confirmed_category (aliases_t w) user m d"
proof -
  have uniq: "distinct (map alias_key (aliases_t w))" using assms(1) by (simp add: db_ok_def keys_ok_def)
  have keys: "normalize_history_key d \<in> set (history_keys ds) \<longleftrightarrow> normalize_history_key d \<noteq> []"
    using assms(2) by (auto simp: history_keys_def strip_history_key)
  have keys': "[] \<notin> set (history_keys ds)"
    by (auto simp: history_keys_def strip_history_key)
  have ne: "ds \<noteq> []" using assms(2) by auto
  show ?thesis
  proof (cases "normalize_history_key m = [] \<or> normalize_history_key d = []")
    case True
    then show ?thesis
      using ne keys' by (auto simp: history_rows_def confirmed_category_def Let_def map_of_eq_None_iff)
  next
    case False
    then have k: "normalize_history_key d \<in> set (history_keys ds)" using keys by blast
    then have "history_keys ds \<noteq> []" by auto
    then show ?thesis
      using ne False alias_lookup [OF uniq k]
      by (simp add: history_rows_def confirmed_category_def Let_def)
  qed
qed

lemma transaction_Inr: "transaction m w = (Inr x, w') \<longleftrightarrow> m w = (Inr x, w')"
  by (simp add: transaction_def split: prod.split sum.split)

lemma persist_receipt_row_ok [keeps_intro]: "keeps db_ok (persist_receipt_row r t i s v u)"
  by (auto simp: persist_receipt_row_def update_receipt_by_image_def insert_new_receipt_def
      get_receipt_by_image_id_def Let_def
      intro!: keeps_intro update_receipts_ok reads_keeps [OF receipt_amounts_reads])

lemma persist_receipt_run:
  assumes "persist_receipt r i st ver u w = (Inr row, w')"
  obtains t v xs ts m where "persist_receipt_row r t i st ver u w = (Inr row, v)"
    "w' = v\<lparr>items_t := sql_delete (\<lambda>i. li_receipt_id i = r_id row) (items_t v) @ xs,
       taxes_t := sql_delete (\<lambda>t. tx_receipt_id t = r_id row) (taxes_t v) @ ts, w_tick := m\<rparr>"
    "items_stored (r_id row) 0 (rc_line_items r) (map (extraction_decision
        (history_rows (aliases_t v) u (rc_merchant_name r) (map i_description (rc_line_items r)))) (rc_line_items r)) xs"
    "map tx_name ts = map x_name (rc_taxes r)" "\<forall>x \<in> set ts. tx_receipt_id x = r_id row"
    "list_line_items (r_id row) w' = (Inr xs, w')"
proof -
  from assms obtain t v where row: "persist_receipt_row r t i st ver u w = (Inr row, v)"
    and kids: "replace_children (r_id row) r (map (extraction_decision
        (history_rows (aliases_t v) u (rc_merchant_name r) (map i_description (rc_line_items r)))) (rc_line_items r)) v
      = (Inr (), w')"
    by (auto simp: persist_receipt_def bind_eq_Inr seq_eq_Inr lift_result_eq_Inr transaction_Inr history_for_items_def)
  show ?thesis using replace_children_run [OF kids] that [OF row] by auto
qed

lemma persist_row_stored:
  assumes "db_ok w" and "persist_receipt r (Some i) st ver u w = (Inr row, w')"
  shows "db_ok w' \<and> has_receipt w' (r_id row)"
proof -
  from assms(2) obtain t v xs ts m where row: "persist_receipt_row r t (Some i) st ver u w = (Inr row, v)"
    and "w' = v\<lparr>items_t := sql_delete (\<lambda>i. li_receipt_id i = r_id row) (items_t v) @ xs,
       taxes_t := sql_delete (\<lambda>t. tx_receipt_id t = r_id row) (taxes_t v) @ ts, w_tick := m\<rparr>"
    by (rule persist_receipt_run)
  then have "receipts_t w' = receipts_t v" by simp
  moreover have "row \<in> set (receipts_t v)" using persist_receipt_row_run [OF assms(1) row] by blast
  ultimately show ?thesis using keeps_run [OF receipt_ops_ok(1) assms] by (auto simp: has_receipt_def)
qed

lemma items_of_others_kept:
  "w' = v\<lparr>items_t := sql_delete (\<lambda>i. li_receipt_id i = k) (items_t v) @ xs, taxes_t := ts, w_tick := m\<rparr> \<Longrightarrow>
   \<forall>x \<in> set xs. li_receipt_id x = k \<Longrightarrow>
   filter (\<lambda>i. li_receipt_id i \<noteq> k) (items_t w') = filter (\<lambda>i. li_receipt_id i \<noteq> k) (items_t v)"
  by (simp add: sql_delete_def)


text \<open>
  Property C9: confirmed history decides before the model. For an owned receipt every stored line item
  has the category that \<open>get_category_suggestion\<close> would offer the owner for its merchant and
  description at that moment, marked "history"; only without such a confirmation does the model's
  category count, marked "llm", or "unknown" when the model gave none. The bulk query of
  the extraction path and the single query of the editor thus agree.
\<close>

theorem history_decides_first:
  assumes "db_ok w" and "persist_receipt r (Some img) st ver (Some user) w = (Inr row, w')"
  shows "\<exists>items. list_line_items (r_id row) w' = (Inr items, w') \<and> length items = length (rc_line_items r)
    \<and> (\<forall>j < length items. case fst (get_category_suggestion user (rc_merchant_name r) (i_description (rc_line_items r ! j)) w) of
         Inr (Some c) \<Rightarrow> li_category (items ! j) = c \<and> li_source (items ! j) = FromHistory
       | _ \<Rightarrow> li_category (items ! j) = i_category (rc_line_items r ! j)
            \<and> li_source (items ! j) = (if i_category (rc_line_items r ! j) \<noteq> ''unknown'' then FromLlm else FromUnknown))"
proof -
  let ?h = "history_rows (aliases_t w) (Some user) (rc_merchant_name r) (map i_description (rc_line_items r))"
  from assms(2) obtain t v xs where row: "persist_receipt_row r t (Some img) st ver (Some user) w = (Inr row, v)"
    and xs: "items_stored (r_id row) 0 (rc_line_items r) (map (extraction_decision
        (history_rows (aliases_t v) (Some user) (rc_merchant_name r) (map i_description (rc_line_items r)))) (rc_line_items r)) xs"
    and list: "list_line_items (r_id row) w' = (Inr xs, w')"
    by (rule persist_receipt_run)
  obtain rs n where "v = w\<lparr>receipts_t := rs, w_tick := n\<rparr>" using persist_receipt_row_run [OF assms(1) row] by blast
  then have v: "aliases_t v = aliases_t w" by simp
  note facts = items_stored_facts [OF xs, unfolded v]
  have len: "length xs = length (rc_line_items r)" using facts(1) by (metis length_map)
  have "li_category (xs ! j) = d_category (extraction_decision ?h (rc_line_items r ! j))
      \<and> li_source (xs ! j) = d_source (extraction_decision ?h (rc_line_items r ! j))" if "j < length xs" for j
    using facts(3,4) that len by (metis (no_types, lifting) length_map nth_map)
  moreover have "map_of (rev ?h) (normalize_history_key (i_description (rc_line_items r ! j))) =
      confirmed_category (aliases_t w) user (rc_merchant_name r) (i_description (rc_line_items r ! j))"
    if "j < length xs" for j
    by (rule history_agrees [OF assms(1)]) (use that len in simp)
  ultimately show ?thesis
    using list len by (auto simp: suggestion_run extraction_decision_def split: option.split)
qed

lemma transaction_Inl:
  "transaction m w = (Inl e, w') \<Longrightarrow> w' = w\<lparr>w_tick := w_tick w', w_clock := w_clock w'\<rparr>"
  by (auto simp: transaction_def split: prod.splits sum.splits)

lemma update_none:
  assumes "update_receipt k r u see w = (Inr None, w')"
  shows "w' = w"
proof -
  obtain t where body: "bind (update_receipt_row k r t u see) (\<lambda>row. case row of
         None \<Rightarrow> ret None
       | Some row \<Rightarrow>
          bind (list_line_items k) (\<lambda>old_rows.
          bind (decide_items (r_user_id row) (normalize_history_key (rc_merchant_name r)) old_rows
             (list_all (\<lambda>i. i_id i = None) (rc_line_items r)) (length (rc_line_items r)) [] 0
             (rc_line_items r)) (\<lambda>decisions.
          seq (replace_children k r decisions) (ret (Some row))))) w = (Inr None, w')"
    using assms by (auto simp: update_receipt_def bind_eq_Inr [of "lift_result _"] lift_result_eq_Inr transaction_Inr)
  then have none: "update_receipt_row k r t u see w = (Inr None, w')"
    by (auto simp: bind_eq_Inr seq_eq_Inr split: option.splits)
  have "w' = w" if "\<not> sql_exists (own_receipt k u see) (receipts_t w)"
    using none that by (simp add: update_receipt_row_def)
  moreover have False if found: "sql_exists (own_receipt k u see) (receipts_t w)"
  proof -
    obtain a v where a: "receipt_amounts r w = (Inr a, v)"
      and "bind (update_receipts (own_receipt k u see) (set_columns r t a)) (\<lambda>rows. ret (fetchrow rows)) v = (Inr None, w')"
      using none found by (auto simp: update_receipt_row_def bind_eq_Inr [of "receipt_amounts r"])
    moreover have "v = w" using a receipt_amounts_reads by (metis reads_def snd_conv)
    ultimately show False
      using found by (auto simp: bind_eq_Inr fetchrow_None update_receipts_def Let_def filter_empty_conv
          sql_exists_iff split: if_splits)
  qed
  ultimately show ?thesis by blast
qed

text \<open>
  Property C14: writes are all or nothing. When persisting or editing a receipt raises (a bad time, an
  amount a column cannot hold, a foreign or repeated line item id), every table is what it was.
\<close>

theorem receipt_writes_atomic:
  "(case persist_receipt r i st ver u w of (Inl e, w') \<Rightarrow> w' = w\<lparr>w_tick := w_tick w', w_clock := w_clock w'\<rparr>
     | (Inr row, w') \<Rightarrow> True)
   \<and> (case update_receipt k r u see w of (Inl e, w') \<Rightarrow> w' = w\<lparr>w_tick := w_tick w', w_clock := w_clock w'\<rparr>
     | (Inr None, w') \<Rightarrow> w' = w | (Inr (Some row), w') \<Rightarrow> True)"
proof (cases "receipt_time_value r")
  case (Inl e)
  then show ?thesis by (simp add: persist_receipt_def update_receipt_def lift_result_def)
next
  case (Inr t)
  then obtain m n where m: "persist_receipt r i st ver u = transaction m" and n: "update_receipt k r u see = transaction n"
    by (simp add: persist_receipt_def update_receipt_def lift_result_def)
  show ?thesis
    using transaction_Inl [of m w] transaction_Inl [of n w] update_none [of k r u see w]
    unfolding m n by (simp split: prod.split sum.split option.split)
qed

section \<open>A concrete receipt\<close>

definition sample_item :: line_item where
  "sample_item = \<lparr>i_description = ''Milk'', i_category = ''other'', i_quantity = 2, i_unit_price = 119 / 100,
     i_total_price = 238 / 100, i_tags = [''dairy''], i_id = None, i_remember = False, i_category_set = True\<rparr>"

definition sample_receipt :: receipt where
  "sample_receipt = \<lparr>rc_confidence = 90, rc_merchant_name = ''Shop'', rc_merchant_address = None,
     rc_receipt_number = None, rc_date = Date 2026 9 5, rc_time = None, rc_currency = ''EUR'',
     rc_category = ''grocery'', rc_line_items = [sample_item], rc_taxes = [],
     rc_subtotal = 238 / 100, rc_discount_total = 0, rc_tax_total = 0, rc_tip = None, rc_total = 238 / 100,
     rc_payment_method = ''cash''\<rparr>"

definition shop_world :: world where
  "shop_world = sample_world\<lparr>aliases_t := [\<lparr>al_user_id = 1, al_merchant = ''shop'',
     al_description = ''milk'', al_category = ''milk''\<rparr>]\<rparr>"

lemma shop_world_ok [simp]: "db_ok shop_world"
  by (simp add: shop_world_def sample_world_def sample_image_def fresh_world_def db_ok_def keys_ok_def refs_defs
      has_defs one_receipt_per_image_def one_active_collection_def widths_ok_def SEED_TAGS_def)

lemma sample_persist:
  "\<exists>row w'. persist_receipt sample_receipt (Some 10) Unverified False (Some 1) shop_world = (Inr row, w')"
proof -
  have "\<not> isl (fst (persist_receipt sample_receipt (Some 10) Unverified False (Some 1) shop_world))"
    by code_simp
  then show ?thesis by (metis isl_def old.prod.exhaust prod.sel(1) sum.exhaust_sel)
qed


theorem history_decides_first_witness:
  "\<exists>row w' item. persist_receipt sample_receipt (Some 10) Unverified False (Some 1) shop_world = (Inr row, w')
     \<and> list_line_items (r_id row) w' = (Inr [item], w') \<and> li_category item = ''milk'' \<and> li_source item = FromHistory"
proof -
  obtain row w' where run: "persist_receipt sample_receipt (Some 10) Unverified False (Some 1) shop_world = (Inr row, w')"
    using sample_persist by blast
  have "fst (get_category_suggestion 1 ''Shop'' ''Milk'' shop_world) = Inr (Some ''milk'')" by code_simp
  with history_decides_first [OF shop_world_ok run] run show ?thesis
    by (auto simp: sample_receipt_def sample_item_def length_Suc_conv)
qed

end
