(* ===== verification/ReceiptEditing.thy ===== *)
theory ReceiptEditing
  imports ReceiptStore
begin

text \<open>
  What an edit of a receipt (\<open>ReceiptDB.update_receipt\<close>) does to its line items and to the owner's
  category history: identity and printed text of the rows survive, foreign and repeated ids are
  refused, and a remembered category is what the next suggestion returns.
\<close>

section \<open>Remembering\<close>

lemma confirmed_alt:
  "normalize_history_key m \<noteq> [] \<Longrightarrow> normalize_history_key d \<noteq> [] \<Longrightarrow>
   confirmed_category A user m d =
     (case fetchrow (filter (alias_for user (normalize_history_key m) (normalize_history_key d)) A) of
        None \<Rightarrow> None | Some a \<Rightarrow> if usable_category (al_category a) then Some (al_category a) else None)"
  by (simp add: confirmed_category_def Let_def)

lemma alias_for_other: "(u, m, k) \<noteq> (u', m', k') \<Longrightarrow> alias_for u m k a \<Longrightarrow> \<not> alias_for u' m' k' a"
  by (auto simp: alias_for_def)

text \<open>The alias table after one key was written: that key answers with the category, all others as before.\<close>

definition write_alias :: "uuid \<Rightarrow> string \<Rightarrow> string \<Rightarrow> string \<Rightarrow> (world, unit) py" where
  "write_alias user m k c =
     (if k = [] then ret () else if c = ''unknown'' then delete_category_alias user m k
      else upsert_category_alias user m k c)"

lemma remember_alt:
  "remember_category (Some user) m item d =
     (if i_remember item \<and> m \<noteq> []
      then for_each (remdups [normalize_history_key (d_original d), normalize_history_key (i_description item)])
        (\<lambda>k. write_alias user m k (d_category d))
      else ret ())"
  unfolding remember_category_def write_alias_def option.case by (rule refl)

lemma fetchrow_update_same:
  "\<exists>a \<in> set A. p a \<Longrightarrow> (\<And>a. p (f a) = p a) \<Longrightarrow>
   fetchrow (filter p (sql_update p f A)) = map_option f (fetchrow (filter p A))"
  by (induction A) (auto simp: sql_update_def fetchrow_def)

lemma filter_disjoint_update:
  "(\<And>a. q a \<Longrightarrow> \<not> p a) \<Longrightarrow> (\<And>a. p a \<Longrightarrow> \<not> q (f a)) \<Longrightarrow> filter q (sql_update p f A) = filter q A"
  by (induction A) (auto simp: sql_update_def)

lemma write_alias_run:
  assumes "write_alias user m k c w = (Inr (), w')" and "k \<noteq> []"
  shows "(u, m', k') \<noteq> (user, m, k) \<Longrightarrow>
      filter (alias_for u m' k') (aliases_t w') = filter (alias_for u m' k') (aliases_t w)"
    and "map_option al_category (fetchrow (filter (alias_for user m k) (aliases_t w')))
      = (if c = ''unknown'' then None else Some c)"
    and "w' = w\<lparr>aliases_t := aliases_t w'\<rparr>"
proof -
  let ?p = "alias_for user m k"
  let ?f = "\<lambda>a. a\<lparr>al_category := c\<rparr>"
  have pf: "alias_for u x y (?f a) = alias_for u x y a" for u x y a by (simp add: alias_for_def)
  consider (del) "c = ''unknown''" "w' = w\<lparr>aliases_t := sql_delete ?p (aliases_t w)\<rparr>"
    | (upd) "c \<noteq> ''unknown''" "\<exists>a \<in> set (aliases_t w). ?p a" "w' = w\<lparr>aliases_t := sql_update ?p ?f (aliases_t w)\<rparr>"
    | (ins) "c \<noteq> ''unknown''" "\<forall>a \<in> set (aliases_t w). \<not> ?p a"
        "w' = w\<lparr>aliases_t := aliases_t w @ [\<lparr>al_user_id = user, al_merchant = m, al_description = k, al_category = c\<rparr>]\<rparr>"
    using assms by (auto simp: write_alias_def delete_category_alias_def upsert_category_alias_def sql_exists_iff
        split: if_splits)
  note cases = this
  show "filter (alias_for u m' k') (aliases_t w') = filter (alias_for u m' k') (aliases_t w)"
    if other: "(u, m', k') \<noteq> (user, m, k)"
    using cases
  proof cases
    case del
    then show ?thesis using alias_for_other [OF other] by (simp add: sql_delete_def filter_filter) (metis)
  next
    case upd
    have "filter (alias_for u m' k') (sql_update ?p ?f (aliases_t w)) = filter (alias_for u m' k') (aliases_t w)"
      using alias_for_other [OF other] pf by (intro filter_disjoint_update) blast+
    then show ?thesis using upd by simp
  next
    case ins
    then show ?thesis using other by (auto simp: alias_for_def)
  qed
  show "map_option al_category (fetchrow (filter ?p (aliases_t w'))) = (if c = ''unknown'' then None else Some c)"
    using cases
  proof cases
    case del
    then show ?thesis by (simp add: sql_delete_def)
  next
    case upd
    then have "fetchrow (filter ?p (aliases_t w)) \<noteq> None" by (auto simp: fetchrow_filter_None)
    then show ?thesis using upd pf by (auto simp: fetchrow_update_same)
  next
    case ins
    then have "filter ?p (aliases_t w) = []" by (simp add: filter_empty_conv)
    then show ?thesis using ins by (simp add: alias_for_def)
  qed
  show "w' = w\<lparr>aliases_t := aliases_t w'\<rparr>" using cases by cases simp_all
qed

lemma write_alias_frame:
  assumes "write_alias user m k c w = (Inr (), w')" and "(u, m', k') \<noteq> (user, m, k)"
  shows "filter (alias_for u m' k') (aliases_t w') = filter (alias_for u m' k') (aliases_t w)"
  using write_alias_run(1) [OF assms(1) _ assms(2)] assms(1) by (cases "k = []") (auto simp: write_alias_def)

lemma write_alias_only:
  "write_alias user m k c w = (Inr (), w') \<Longrightarrow> w' = w\<lparr>aliases_t := aliases_t w'\<rparr>"
  using write_alias_run(3) [of user m k c w w'] by (cases "k = []") (auto simp: write_alias_def)

lemma confirmed_from_table:
  "normalize_history_key m \<noteq> [] \<Longrightarrow> normalize_history_key d \<noteq> [] \<Longrightarrow>
   map_option al_category (fetchrow (filter (alias_for user (normalize_history_key m) (normalize_history_key d)) A)) =
     (if c = ''unknown'' then None else Some c) \<Longrightarrow>
   confirmed_category A user m d = (if usable_category c then Some c else None)"
  by (auto simp: confirmed_alt usable_category_def split: option.splits if_splits)

lemma confirmed_cong:
  "filter (alias_for user (normalize_history_key m) (normalize_history_key d)) A =
   filter (alias_for user (normalize_history_key m) (normalize_history_key d)) B \<Longrightarrow>
   confirmed_category A user m d = confirmed_category B user m d"
  by (simp add: confirmed_category_def Let_def)

text \<open>
  Fact: what is remembered is what is suggested. After an edited item was saved with
  "remember", the owner's suggestion for that merchant, under the printed as well as under the
  edited description, is the category decided for the item (none for "unknown"); the suggestions of
  every other user, and of the owner for any other merchant or description, are untouched, and so
  is everything but the alias table.
\<close>

theorem remember_then_suggest:
  assumes "remember_category (Some user) (normalize_history_key merchant) item d w = (Inr (), w')"
    and "i_remember item" and "normalize_history_key merchant \<noteq> []"
  shows "(\<forall>s \<in> {i_description item, d_original d}. normalize_history_key s \<noteq> [] \<longrightarrow>
       get_category_suggestion user merchant s w' =
         (Inr (if usable_category (d_category d) then Some (d_category d) else None), w'))
    \<and> (\<forall>u m t. u \<noteq> user \<or> normalize_history_key m \<noteq> normalize_history_key merchant
          \<or> normalize_history_key t \<notin> normalize_history_key ` {i_description item, d_original d} \<longrightarrow>
        fst (get_category_suggestion u m t w') = fst (get_category_suggestion u m t w))
    \<and> w' = w\<lparr>aliases_t := aliases_t w'\<rparr>"
proof -
  let ?m = "normalize_history_key merchant"
  let ?a = "normalize_history_key (d_original d)" and ?b = "normalize_history_key (i_description item)"
  let ?c = "d_category d"
  have empty: "write_alias user ?m [] ?c v = (Inr (), v)" for v by (simp add: write_alias_def)
  obtain v where v: "write_alias user ?m ?a ?c w = (Inr (), v)" and w': "?a = ?b \<and> w' = v \<or> ?a \<noteq> ?b \<and> write_alias user ?m ?b ?c v = (Inr (), w')"
    using assms by (auto simp: remember_alt seq_eq_Inr split: if_splits)
  have only: "w' = w\<lparr>aliases_t := aliases_t w'\<rparr>"
  proof -
    obtain A where A: "v = w\<lparr>aliases_t := A\<rparr>" using write_alias_only [OF v] by blast
    obtain B where "w' = v\<lparr>aliases_t := B\<rparr>"
      using w' write_alias_only [of user ?m ?b ?c v w'] A by (metis world.surjective world.update_convs(9))
    with A show ?thesis by simp
  qed
  have frame: "filter (alias_for u m k) (aliases_t w') = filter (alias_for u m k) (aliases_t w)"
    if "u \<noteq> user \<or> m \<noteq> ?m \<or> k \<noteq> ?a \<and> k \<noteq> ?b" for u m k
  proof -
    have "filter (alias_for u m k) (aliases_t v) = filter (alias_for u m k) (aliases_t w)"
      using that by (intro write_alias_frame [OF v]) auto
    moreover have "filter (alias_for u m k) (aliases_t w') = filter (alias_for u m k) (aliases_t v)"
      using w' that write_alias_frame [of user ?m ?b ?c v w' u m k] by auto
    ultimately show ?thesis by simp
  qed
  have at_b: "map_option al_category (fetchrow (filter (alias_for user ?m ?b) (aliases_t w')))
      = (if ?c = ''unknown'' then None else Some ?c)" if "?b \<noteq> []"
    using w' write_alias_run(2) [of user ?m ?b ?c] v that by metis
  have at_a: "map_option al_category (fetchrow (filter (alias_for user ?m ?a) (aliases_t w')))
      = (if ?c = ''unknown'' then None else Some ?c)" if "?a \<noteq> []"
    using w' write_alias_run(2) [OF v that] write_alias_frame [of user ?m ?b ?c v w' user ?m ?a] by auto
  have "confirmed_category (aliases_t w') user merchant s = (if usable_category ?c then Some ?c else None)"
    if "s \<in> {i_description item, d_original d}" "normalize_history_key s \<noteq> []" for s
    using that confirmed_from_table [OF assms(3), of "i_description item" user "aliases_t w'" ?c]
      confirmed_from_table [OF assms(3), of "d_original d" user "aliases_t w'" ?c] at_a at_b by blast
  moreover have "confirmed_category (aliases_t w') u m t = confirmed_category (aliases_t w) u m t"
    if "u \<noteq> user \<or> normalize_history_key m \<noteq> ?m \<or> normalize_history_key t \<notin> {?a, ?b}" for u m t
    using that by (intro confirmed_cong frame) auto
  ultimately show ?thesis using only by (auto simp: suggestion_run)
qed

section \<open>Decisions of an edit\<close>

lemma for_each_alias_only:
  "for_each ks (\<lambda>k. write_alias user m k c) w = (Inr (), w') \<Longrightarrow> \<exists>A. w' = w\<lparr>aliases_t := A\<rparr>"
proof (induction ks arbitrary: w)
  case Nil
  then show ?case by (intro exI [of _ "aliases_t w"]) simp
next
  case (Cons k ks)
  then obtain v where v: "write_alias user m k c w = (Inr (), v)"
    and "for_each ks (\<lambda>k. write_alias user m k c) v = (Inr (), w')"
    by (auto simp: seq_eq_Inr)
  then obtain A where "w' = v\<lparr>aliases_t := A\<rparr>" using Cons.IH by blast
  moreover obtain B where "v = w\<lparr>aliases_t := B\<rparr>" using write_alias_only [OF v] by blast
  ultimately show ?case by auto
qed

lemma remember_only: "remember_category u m item d w = (Inr (), w') \<Longrightarrow> \<exists>A. w' = w\<lparr>aliases_t := A\<rparr>"
proof (cases u)
  case None
  assume "remember_category u m item d w = (Inr (), w')"
  with None have "w' = w\<lparr>aliases_t := aliases_t w\<rparr>" by (simp add: remember_category_def)
  then show ?thesis by blast
next
  case (Some user)
  assume run: "remember_category u m item d w = (Inr (), w')"
  show ?thesis
  proof (cases "i_remember item \<and> m \<noteq> []")
    case True
    with run Some for_each_alias_only show ?thesis unfolding remember_alt Some by auto
  next
    case False
    with run Some have "w' = w\<lparr>aliases_t := aliases_t w\<rparr>" by (auto simp: remember_alt)
    then show ?thesis by blast
  qed
qed

lemma edit_decision_id [simp]: "d_id (edit_decision old item) = map_option li_id old"
  by (simp add: edit_decision_def Let_def)

text \<open>A successful pass decides every item from the row it matches, and matches no row twice.\<close>

lemma decide_items_run:
  assumes "decide_items owner m old l n used p items w = (Inr ds, w')"
  shows "length ds = length items \<and> (\<exists>A. w' = w\<lparr>aliases_t := A\<rparr>)
    \<and> (\<forall>j < length items. \<exists>x. match_old old l n (p + j) (items ! j) = Inr x \<and> ds ! j = edit_decision x (items ! j))
    \<and> distinct (List.map_filter d_id ds) \<and> set (List.map_filter d_id ds) \<inter> set used = {}"
  using assms
proof (induction items arbitrary: used p w ds)
  case Nil
  then show ?case
    by (auto simp: List.map_filter_simps intro!: exI [of _ "aliases_t w'"])
next
  case (Cons item items)
  from Cons.prems obtain x v es where x: "match_old old l n p item = Inr x"
    and fresh: "case x of None \<Rightarrow> True | Some y \<Rightarrow> li_id y \<notin> set used"
    and rem: "remember_category owner m item (edit_decision x item) w = (Inr (), v)"
    and rest: "decide_items owner m old l n (case x of None \<Rightarrow> used | Some y \<Rightarrow> li_id y # used) (Suc p) items v = (Inr es, w')"
    and ds: "ds = edit_decision x item # es"
    by (auto simp: bind_eq_Inr seq_eq_Inr lift_result_eq_Inr guard_eq_Inr Let_def)
  note ih = Cons.IH [OF rest]
  have "\<exists>A. w' = w\<lparr>aliases_t := A\<rparr>" using remember_only [OF rem] ih by auto
  moreover have "\<exists>x. match_old old l n (p + j) ((item # items) ! j) = Inr x \<and> ds ! j = edit_decision x ((item # items) ! j)"
    if "j < length (item # items)" for j
    using that ih x ds by (cases j) auto
  moreover have "distinct (List.map_filter d_id ds) \<and> set (List.map_filter d_id ds) \<inter> set used = {}"
    using ih fresh ds by (cases x) (auto simp: List.map_filter_simps)
  ultimately show ?case using ih ds by simp
qed

lemma match_old_mem: "match_old old l n p item = Inr (Some x) \<Longrightarrow> x \<in> set old"
  by (auto simp: match_old_def split: option.splits if_splits dest!: fetchrow_filter_Some)

lemma match_old_id:
  "match_old old l n p item = Inr x \<Longrightarrow> i_id item = Some k \<Longrightarrow> \<exists>y. x = Some y \<and> y \<in> set old \<and> li_id y = k"
  by (cases "fetchrow (filter (\<lambda>x. li_id x = k) old)") (auto simp: match_old_def dest: fetchrow_filter_Some)

section \<open>A successful edit\<close>

lemma update_receipt_row_run:
  assumes "update_receipt_row k r t u see w = (Inr (Some row), v)" and "db_ok w"
  shows "\<exists>rs. v = w\<lparr>receipts_t := rs\<rparr>" and "r_id row = k"
proof -
  obtain a w0 rows where a: "receipt_amounts r w = (Inr a, w0)"
    and upd: "update_receipts (own_receipt k u see) (set_columns r t a) w0 = (Inr rows, v)"
    and row: "fetchrow rows = Some row"
    using assms(1) by (auto simp: update_receipt_row_def bind_eq_Inr split: if_splits)
  have w0: "w0 = w" using a receipt_amounts_reads by (metis reads_def snd_conv)
  show "\<exists>rs. v = w\<lparr>receipts_t := rs\<rparr>" using upd w0 by (auto simp: update_receipts_def Let_def split: if_splits)
  have "row \<in> set (map (set_columns r t a) (filter (own_receipt k u see) (receipts_t w)))"
    using fetchrow_mem [OF row] upd w0 by (auto simp: update_receipts_def Let_def split: if_splits)
  then show "r_id row = k" by (auto simp: own_receipt_def)
qed

lemma update_receipt_run:
  assumes "update_receipt k r u see w = (Inr (Some row), w')" and "db_ok w"
  obtains old ds xs where "list_line_items k w = (Inr old, w)"
    "length ds = length (rc_line_items r)" "distinct (List.map_filter d_id ds)"
    "\<forall>j < length ds. \<exists>x. match_old old (list_all (\<lambda>i. i_id i = None) (rc_line_items r)) (length (rc_line_items r)) j
        (rc_line_items r ! j) = Inr x \<and> ds ! j = edit_decision x (rc_line_items r ! j)"
    "items_stored k 0 (rc_line_items r) ds xs" "list_line_items k w' = (Inr xs, w')"
    "filter (\<lambda>i. li_receipt_id i \<noteq> k) (items_t w') = filter (\<lambda>i. li_receipt_id i \<noteq> k) (items_t w)"
proof -
  from assms(1) obtain t v old ds v2 where row: "update_receipt_row k r t u see w = (Inr (Some row), v)"
    and old: "list_line_items k v = (Inr old, v)"
    and dec: "decide_items (r_user_id row) (normalize_history_key (rc_merchant_name r)) old
             (list_all (\<lambda>i. i_id i = None) (rc_line_items r)) (length (rc_line_items r)) [] 0
             (rc_line_items r) v = (Inr ds, v2)"
    and kids: "replace_children k r ds v2 = (Inr (), w')"
    by (auto simp: update_receipt_def bind_eq_Inr seq_eq_Inr lift_result_eq_Inr transaction_Inr list_line_items_def
        split: option.splits)
  obtain rs where v: "v = w\<lparr>receipts_t := rs\<rparr>" using update_receipt_row_run(1) [OF row assms(2)] by blast
  note d = decide_items_run [OF dec]
  then obtain A where v2: "v2 = v\<lparr>aliases_t := A\<rparr>" by blast
  have len: "length ds = length (rc_line_items r)" using d by blast
  obtain xs ts m where w': "w' = v2\<lparr>items_t := sql_delete (\<lambda>i. li_receipt_id i = k) (items_t v2) @ xs,
       taxes_t := sql_delete (\<lambda>t. tx_receipt_id t = k) (taxes_t v2) @ ts, w_tick := m\<rparr>"
    and xs: "items_stored k 0 (rc_line_items r) ds xs" "list_line_items k w' = (Inr xs, w')"
    using replace_children_run [OF kids len] by blast
  have "items_t v2 = items_t w" by (simp add: v v2)
  then have others: "filter (\<lambda>i. li_receipt_id i \<noteq> k) (items_t w') = filter (\<lambda>i. li_receipt_id i \<noteq> k) (items_t w)"
    using items_of_others_kept [OF w'] items_stored_facts(6) [OF xs(1)] by simp
  have "list_line_items k w = (Inr old, w)" using old by (simp add: list_line_items_def v)
  then show ?thesis using that [of old ds xs] d xs others len by simp
qed

lemma items_stored_nth:
  "items_stored k n items ds xs \<Longrightarrow> j < length items \<Longrightarrow> item_stored k (n + j) (items ! j) (ds ! j) (xs ! j)"
proof (induction k n items ds xs arbitrary: j rule: items_stored.induct)
  case (1 k n i items d ds x xs)
  then show ?case by (cases j) auto
qed auto

lemma filter_ids_distinct:
  "distinct (List.map_filter d_id ds) \<Longrightarrow> i < length ds \<Longrightarrow> j < length ds \<Longrightarrow>
   d_id (ds ! i) = Some k \<Longrightarrow> d_id (ds ! j) = Some k \<Longrightarrow> i = j"
proof (induction ds arbitrary: i j)
  case (Cons d ds)
  have mem: "d_id (ds ! m) = Some k \<Longrightarrow> m < length ds \<Longrightarrow> k \<in> set (List.map_filter d_id ds)" for m
    by (force simp: List.map_filter_def in_set_conv_nth)
  show ?case
    using Cons mem by (cases i; cases j) (auto simp: List.map_filter_simps split: option.splits)
qed simp

text \<open>The text a stored row was first read as: \<open>original_description or description\<close>.\<close>

definition printed :: "item_row \<Rightarrow> string" where
  "printed x = (if li_original x = [] then li_description x else li_original x)"

text \<open>
  Property C8: an edit keeps the identity of line items. After a successful edit the receipt's items are
  those of the body in its order; an item that names an id is stored under that id, which was
  an id of this receipt and is named only once; it keeps the text first read from the photo, and its
  category only changes when the body names another one, which then is marked as the user's.
  The items of all other receipts are untouched.
\<close>

theorem edit_keeps_identity:
  assumes "db_ok w" and "update_receipt k r u see w = (Inr (Some row), w')"
  shows "\<exists>old items. list_line_items k w = (Inr old, w) \<and> list_line_items k w' = (Inr items, w')
    \<and> map li_description items = map i_description (rc_line_items r)
    \<and> (\<forall>j < length items. \<forall>n. i_id (rc_line_items r ! j) = Some n \<longrightarrow>
         li_id (items ! j) = n \<and> (\<exists>x \<in> set old. li_id x = n \<and> li_original (items ! j) = printed x
           \<and> (let item = rc_line_items r ! j; changed = i_category_set item \<and> i_category item \<noteq> li_category x in
              li_category (items ! j) = (if changed then i_category item else li_category x)
              \<and> li_source (items ! j) = (if changed \<or> i_remember item then FromUser else li_source x))))
    \<and> (\<forall>i j. i < length items \<and> j < length items \<and> i_id (rc_line_items r ! i) \<noteq> None
         \<and> i_id (rc_line_items r ! i) = i_id (rc_line_items r ! j) \<longrightarrow> i = j)
    \<and> filter (\<lambda>i. li_receipt_id i \<noteq> k) (items_t w') = filter (\<lambda>i. li_receipt_id i \<noteq> k) (items_t w)"
proof -
  from assms(2,1) obtain old ds xs where old: "list_line_items k w = (Inr old, w)"
    and ds: "length ds = length (rc_line_items r)" "distinct (List.map_filter d_id ds)"
    and dec: "\<forall>j < length ds. \<exists>x. match_old old (list_all (\<lambda>i. i_id i = None) (rc_line_items r)) (length (rc_line_items r)) j
        (rc_line_items r ! j) = Inr x \<and> ds ! j = edit_decision x (rc_line_items r ! j)"
    and xs: "items_stored k 0 (rc_line_items r) ds xs" "list_line_items k w' = (Inr xs, w')"
    and others: "filter (\<lambda>i. li_receipt_id i \<noteq> k) (items_t w') = filter (\<lambda>i. li_receipt_id i \<noteq> k) (items_t w)"
    by (rule update_receipt_run)
  have len: "length xs = length (rc_line_items r)" using items_stored_facts(1) [OF xs(1)] by (metis length_map)
  have named: "\<exists>x \<in> set old. li_id x = n \<and> ds ! j = edit_decision (Some x) (rc_line_items r ! j)"
    if "j < length xs" "i_id (rc_line_items r ! j) = Some n" for j n
    using dec that len ds(1) match_old_id by (metis (no_types, lifting))
  have "li_id (xs ! j) = n \<and> (\<exists>x \<in> set old. li_id x = n \<and> li_original (xs ! j) = printed x
           \<and> (let item = rc_line_items r ! j; changed = i_category_set item \<and> i_category item \<noteq> li_category x in
              li_category (xs ! j) = (if changed then i_category item else li_category x)
              \<and> li_source (xs ! j) = (if changed \<or> i_remember item then FromUser else li_source x)))"
    if j: "j < length xs" "i_id (rc_line_items r ! j) = Some n" for j n
  proof -
    obtain x where x: "x \<in> set old" "li_id x = n" "ds ! j = edit_decision (Some x) (rc_line_items r ! j)"
      using named [OF j] by blast
    have "item_stored k j (rc_line_items r ! j) (ds ! j) (xs ! j)"
      using items_stored_nth [OF xs(1), of j] j(1) len by simp
    then show ?thesis using x by (auto simp: item_stored_def edit_decision_def printed_def Let_def intro!: bexI [of _ x])
  qed
  moreover have "i = j" if ij: "i < length xs" "j < length xs" "i_id (rc_line_items r ! i) \<noteq> None"
      "i_id (rc_line_items r ! i) = i_id (rc_line_items r ! j)" for i j
  proof -
    obtain n where n: "i_id (rc_line_items r ! i) = Some n" "i_id (rc_line_items r ! j) = Some n" using ij(3,4) by auto
    have "d_id (ds ! i) = Some n" "d_id (ds ! j) = Some n"
      using named [OF that(1) n(1)] named [OF that(2) n(2)] by auto
    then show ?thesis using filter_ids_distinct [OF ds(2)] that(1,2) len ds(1) by simp
  qed
  ultimately show ?thesis using old xs(2) others items_stored_facts(1) [OF xs(1)] by blast
qed

section \<open>A concrete edit\<close>

definition sample_row :: receipt_row where
  "sample_row = \<lparr>r_id = 20, r_confidence = 90, r_merchant_name = ''Shop'', r_merchant_address = None,
     r_receipt_number = None, r_date = Date 2026 9 5, r_time = None, r_currency = ''EUR'', r_category = ''grocery'',
     r_subtotal = 2, r_discount_total = 0, r_tax_total = 0, r_tip = None, r_total = 2, r_payment_method = ''cash'',
     r_created_at = 950, r_status = Unverified, r_image_id = Some 10, r_verified = False, r_user_id = Some 1\<rparr>"

definition sample_item_row :: item_row where
  "sample_item_row = \<lparr>li_id = 50, li_receipt_id = 20, li_description = ''Mlk'', li_original = ''Mlk'',
     li_category = ''milk'', li_source = FromLlm, li_quantity = 1, li_unit_price = 2, li_total_price = 2,
     li_tags = [], li_position = 0\<rparr>"

definition stored_world :: world where
  "stored_world = shop_world\<lparr>receipts_t := [sample_row], items_t := [sample_item_row]\<rparr>"

definition sample_edit :: receipt where
  "sample_edit = sample_receipt\<lparr>rc_line_items := [sample_item\<lparr>i_id := Some 50, i_category := ''cheese''\<rparr>]\<rparr>"

lemma stored_world_ok [simp]: "db_ok stored_world"
  by (simp add: stored_world_def sample_row_def sample_item_row_def shop_world_def sample_world_def sample_image_def
      fresh_world_def db_ok_def keys_ok_def refs_defs has_defs one_receipt_per_image_def one_active_collection_def
      widths_ok_def receipt_fits_def varchar_def varchar_opt_def SEED_TAGS_def)

lemma sample_update:
  "\<exists>row w'. update_receipt 20 sample_edit (Some 1) False stored_world = (Inr (Some row), w')"
proof -
  have "(case fst (update_receipt 20 sample_edit (Some 1) False stored_world) of Inr (Some _) \<Rightarrow> True | _ \<Rightarrow> False)"
    by code_simp
  then show ?thesis
    by (cases "update_receipt 20 sample_edit (Some 1) False stored_world") (auto split: sum.splits option.splits)
qed

theorem edit_keeps_identity_witness:
  "\<exists>row w' x. update_receipt 20 sample_edit (Some 1) False stored_world = (Inr (Some row), w')
     \<and> list_line_items 20 w' = (Inr [x], w') \<and> li_id x = 50 \<and> li_description x = ''Milk''
     \<and> li_original x = ''Mlk'' \<and> li_category x = ''cheese'' \<and> li_source x = FromUser"
proof -
  obtain row w' where run: "update_receipt 20 sample_edit (Some 1) False stored_world = (Inr (Some row), w')"
    using sample_update by blast
  have old: "list_line_items 20 stored_world = (Inr [sample_item_row], stored_world)"
    by (simp add: list_line_items_def stored_world_def sample_item_row_def)
  have item: "rc_line_items sample_edit = [sample_item\<lparr>i_id := Some 50, i_category := ''cheese''\<rparr>]"
    by (simp add: sample_edit_def)
  show ?thesis
    using edit_keeps_identity [OF stored_world_ok run] run
    by (auto simp: old item length_Suc_conv sample_item_def sample_item_row_def printed_def)
qed

theorem remember_then_suggest_witness:
  "\<exists>w'. remember_category (Some 1) (normalize_history_key ''Shop'') (sample_item\<lparr>i_remember := True\<rparr>)
       \<lparr>d_id = None, d_original = ''Mlk'', d_category = ''cheese'', d_source = FromUser\<rparr> shop_world = (Inr (), w')
     \<and> get_category_suggestion 1 ''Shop'' ''Mlk'' w' = (Inr (Some ''cheese''), w')"
proof -
  let ?d = "\<lparr>d_id = None, d_original = ''Mlk'', d_category = ''cheese'', d_source = FromUser\<rparr>"
  let ?m = "remember_category (Some 1) (normalize_history_key ''Shop'') (sample_item\<lparr>i_remember := True\<rparr>) ?d"
  have "\<not> isl (fst (?m shop_world))" by code_simp
  then obtain w' where run: "?m shop_world = (Inr (), w')"
    by (cases "?m shop_world", cases "fst (?m shop_world)") auto
  have "normalize_history_key ''Mlk'' \<noteq> []" "usable_category ''cheese''" "normalize_history_key ''Shop'' \<noteq> []"
    by code_simp+
  with remember_then_suggest [OF run] run show ?thesis by auto
qed

end
