(* ===== verification/CollectionStore.thy ===== *)
theory CollectionStore
  imports ReceiptEditing "HOL-Library.Multiset"
begin

text \<open>
  Collections: the SQL of provider/db/collection_db.py (CollectionDB) and the rules of
  service/collection_service.py (CollectionService), one definition per method. Every statement
  commits on its own, so a failing later statement leaves the earlier ones in place.
\<close>

section \<open>CollectionDB\<close>

definition own_collection :: "uuid \<Rightarrow> uuid option \<Rightarrow> bool \<Rightarrow> collection_row \<Rightarrow> bool" where
  "own_collection k user_id can_see_all c \<longleftrightarrow> c_id c = k \<and> visible user_id can_see_all (Some (c_user_id c))"

text \<open>ACTIVATE_DEACTIVATE_SIBLINGS_SQL\<close>

definition deactivate_siblings :: "uuid \<Rightarrow> (world, unit) py" where
  "deactivate_siblings user =
     bind (update_collections (\<lambda>c. c_user_id c = user) (\<lambda>c. c\<lparr>c_active := False\<rparr>)) (\<lambda>_. ret ())"

definition collection_create ::
  "uuid \<Rightarrow> string \<Rightarrow> string option \<Rightarrow> date option \<Rightarrow> date option \<Rightarrow> bool \<Rightarrow> (world, collection_row) py" where
  "collection_create user name color start_date end_date active =
     seq (if active then deactivate_siblings user else ret ())
     (bind gen_uuid (\<lambda>k. bind (gets w_clock) (\<lambda>now.
        insert_collection \<lparr>c_id = k, c_user_id = user, c_name = name, c_color = color, c_start = start_date,
          c_end = end_date, c_active = active, c_created_at = now\<rparr>)))"

definition collection_get :: "uuid \<Rightarrow> uuid option \<Rightarrow> bool \<Rightarrow> (world, collection_row option) py" where
  "collection_get k user_id can_see_all =
     gets (\<lambda>w. fetchrow (filter (own_collection k user_id can_see_all) (collections_t w)))"

definition find_by_name :: "uuid \<Rightarrow> string \<Rightarrow> (world, collection_row option) py" where
  "find_by_name user name =
     gets (\<lambda>w. fetchrow (filter (\<lambda>c. c_user_id c = user \<and> py_lower (c_name c) = py_lower name) (collections_t w)))"

definition collection_update ::
  "uuid \<Rightarrow> uuid option \<Rightarrow> bool \<Rightarrow> string \<Rightarrow> string option \<Rightarrow> date option \<Rightarrow> date option
   \<Rightarrow> (world, collection_row option) py" where
  "collection_update k user_id can_see_all name color start_date end_date =
     bind (update_collections (own_collection k user_id can_see_all)
       (\<lambda>c. c\<lparr>c_name := name, c_color := color, c_start := start_date, c_end := end_date\<rparr>)) (\<lambda>rows.
       ret (fetchrow rows))"

definition collection_delete :: "uuid \<Rightarrow> uuid option \<Rightarrow> bool \<Rightarrow> (world, collection_row option) py" where
  "collection_delete k user_id can_see_all =
     bind (delete_collections (own_collection k user_id can_see_all)) (\<lambda>rows. ret (fetchrow rows))"

definition collection_exists :: "uuid \<Rightarrow> uuid option \<Rightarrow> bool \<Rightarrow> (world, bool) py" where
  "collection_exists k user_id can_see_all =
     gets (\<lambda>w. fetchrow (filter (own_collection k user_id can_see_all) (collections_t w)) \<noteq> None)"

definition active_collection :: "uuid option \<Rightarrow> bool \<Rightarrow> (world, collection_row option) py" where
  "active_collection user_id can_see_all =
     gets (\<lambda>w. fetchrow (filter (\<lambda>c. c_active c \<and> visible user_id can_see_all (Some (c_user_id c))) (collections_t w)))"

text \<open>
  \<open>activate\<close>: a scoped caller's other collections are switched off once the target is known to be
  the caller's; for a see-all caller, and for a call without user, nothing is switched off.
\<close>

definition set_active :: "uuid \<Rightarrow> uuid option \<Rightarrow> bool \<Rightarrow> (world, collection_row option) py" where
  "set_active k user_id can_see_all =
     bind (update_collections (own_collection k user_id can_see_all) (\<lambda>c. c\<lparr>c_active := True\<rparr>)) (\<lambda>rows.
       ret (fetchrow rows))"

definition collection_activate :: "uuid \<Rightarrow> uuid option \<Rightarrow> bool \<Rightarrow> (world, collection_row option) py" where
  "collection_activate k user_id can_see_all =
     (case user_id of
        Some user \<Rightarrow> if can_see_all then set_active k user_id can_see_all
          else bind (gets (\<lambda>w. sql_exists (\<lambda>c. c_id c = k \<and> c_user_id c = user) (collections_t w))) (\<lambda>owned.
            if \<not> owned then ret None
            else seq (deactivate_siblings user) (set_active k user_id can_see_all))
      | None \<Rightarrow> set_active k user_id can_see_all)"

definition collection_deactivate :: "uuid \<Rightarrow> uuid option \<Rightarrow> bool \<Rightarrow> (world, collection_row option) py" where
  "collection_deactivate k user_id can_see_all =
     bind (update_collections (own_collection k user_id can_see_all) (\<lambda>c. c\<lparr>c_active := False\<rparr>)) (\<lambda>rows.
       ret (fetchrow rows))"

definition collection_assign :: "uuid \<Rightarrow> uuid \<Rightarrow> (world, unit) py" where
  "collection_assign collection_id receipt_id = insert_link receipt_id collection_id"

definition collection_unassign :: "uuid \<Rightarrow> uuid \<Rightarrow> (world, bool) py" where
  "collection_unassign collection_id receipt_id w =
     (let p = \<lambda>l. lk_receipt_id l = receipt_id \<and> lk_collection_id l = collection_id in
      (Inr (sql_exists p (links_t w)), w\<lparr>links_t := sql_delete p (links_t w)\<rparr>))"

definition collection_ids_for_receipt :: "uuid \<Rightarrow> (world, uuid list) py" where
  "collection_ids_for_receipt receipt_id =
     gets (\<lambda>w. map lk_collection_id (filter (\<lambda>l. lk_receipt_id l = receipt_id) (links_t w)))"

definition set_receipt_collections_db :: "uuid \<Rightarrow> uuid list \<Rightarrow> (world, unit) py" where
  "set_receipt_collections_db receipt_id collection_ids =
     seq (modify (\<lambda>w. w\<lparr>links_t := sql_delete (\<lambda>l. lk_receipt_id l = receipt_id) (links_t w)\<rparr>))
         (for_each collection_ids (insert_link receipt_id))"

text \<open>The receipts of a collection and its totals per currency, largest first.\<close>

definition linked_receipts :: "uuid \<Rightarrow> world \<Rightarrow> receipt_row list" where
  "linked_receipts k w = filter (\<lambda>r. \<lparr>lk_receipt_id = r_id r, lk_collection_id = k\<rparr> \<in> set (links_t w)) (receipts_t w)"

definition currency_totals :: "receipt_row list \<Rightarrow> (string \<times> rat) list" where
  "currency_totals rs = sort_key (\<lambda>p. - snd p)
     (map (\<lambda>c. (c, sum_list (map r_total (filter (\<lambda>r. r_currency r = c) rs)))) (remdups (map r_currency rs)))"

definition receipts_in_collection :: "uuid \<Rightarrow> uuid option \<Rightarrow> bool \<Rightarrow> (world, receipt_row list) py" where
  "receipts_in_collection k user_id can_see_all = gets (\<lambda>w.
     rev (sort_key r_date (rev (filter (\<lambda>r. visible user_id can_see_all (r_user_id r)) (linked_receipts k w)))))"

record collection_summary =
  cs_collection :: collection_row
  cs_count :: nat
  cs_totals :: "(string \<times> rat) list"

definition list_with_totals :: "uuid option \<Rightarrow> bool \<Rightarrow> (world, collection_summary list) py" where
  "list_with_totals user_id can_see_all = gets (\<lambda>w.
     map (\<lambda>c. let n = length (filter (\<lambda>l. lk_collection_id l = c_id c) (links_t w)) in
         \<lparr>cs_collection = c, cs_count = n,
          cs_totals = (if 0 < n then currency_totals (linked_receipts (c_id c) w) else [])\<rparr>)
       (sort_key (\<lambda>c. map code_of (c_name c))
         (filter (\<lambda>c. visible user_id can_see_all (Some (c_user_id c))) (collections_t w))))"

record collection_detail =
  cd_collection :: collection_row
  cd_totals :: "(string \<times> rat) list"
  cd_receipts :: "receipt_row list"

definition collection_detail_db :: "uuid \<Rightarrow> uuid option \<Rightarrow> bool \<Rightarrow> (world, collection_detail option) py" where
  "collection_detail_db k user_id can_see_all =
     bind (collection_get k user_id can_see_all) (\<lambda>c. case c of
       None \<Rightarrow> ret None
     | Some c \<Rightarrow> bind (gets (\<lambda>w. currency_totals (linked_receipts k w))) (\<lambda>totals.
         bind (receipts_in_collection k user_id can_see_all) (\<lambda>rs.
           ret (Some \<lparr>cd_collection = c, cd_totals = totals, cd_receipts = rs\<rparr>))))"

section \<open>CollectionService\<close>

definition dates_in_order :: "date option \<Rightarrow> date option \<Rightarrow> bool" where
  "dates_in_order start_date end_date =
     (case (start_date, end_date) of (Some s, Some e) \<Rightarrow> s \<le> e | _ \<Rightarrow> True)"

definition validate_dates :: "date option \<Rightarrow> date option \<Rightarrow> (world, unit) py" where
  "validate_dates start_date end_date =
     guard (dates_in_order start_date end_date) (ValueError ''start_date must be on or before end_date'')"

text \<open>The bodies of POST and PATCH (model/collection.py); in the latter None is "not sent".\<close>

record collection_body =
  cb_name :: "string option"
  cb_color :: "string option"
  cb_start :: "date option"
  cb_end :: "date option"
  cb_active :: bool

definition bad_color :: exn where
  "bad_color = ValueError ''color must be a hex value like #RGB or #RRGGBB''"

definition valid_color :: "string option \<Rightarrow> bool" where
  "valid_color c = (case c of None \<Rightarrow> True | Some v \<Rightarrow> is_valid_hex_color v)"

definition name_conflict :: "string \<Rightarrow> exn" where
  "name_conflict name =
     NameConflictError (''A collection named '' @ [CHR 0x27] @ name @ [CHR 0x27] @ '' already exists'')"

definition create_collection :: "collection_body \<Rightarrow> uuid \<Rightarrow> (world, collection_row) py" where
  "create_collection body user =
     (let name = normalize_collection_name (case cb_name body of None \<Rightarrow> [] | Some n \<Rightarrow> n) in
      seq (guard (name \<noteq> []) (ValueError ''Collection name must not be blank''))
      (seq (guard (valid_color (cb_color body)) bad_color)
      (seq (validate_dates (cb_start body) (cb_end body))
      (bind (find_by_name user name) (\<lambda>existing.
       seq (guard (existing = None) (name_conflict name))
         (collection_create user name (cb_color body) (cb_start body) (cb_end body) (cb_active body)))))))"

definition update_collection ::
  "uuid \<Rightarrow> collection_body \<Rightarrow> uuid option \<Rightarrow> bool \<Rightarrow> (world, collection_row option) py" where
  "update_collection k body user_id can_see_all =
     bind (collection_get k user_id can_see_all) (\<lambda>current. case current of
       None \<Rightarrow> ret None
     | Some c \<Rightarrow>
        (let name = (case cb_name body of None \<Rightarrow> c_name c | Some n \<Rightarrow> normalize_collection_name n);
             color = (if cb_color body \<noteq> None then cb_color body else c_color c);
             start_date = (if cb_start body \<noteq> None then cb_start body else c_start c);
             end_date = (if cb_end body \<noteq> None then cb_end body else c_end c) in
         seq (guard (name \<noteq> []) (ValueError ''Collection name must not be blank''))
         (seq (guard (valid_color color) bad_color)
         (seq (validate_dates start_date end_date)
         (bind (if cb_name body = None then ret None
                else find_by_name (case user_id of None \<Rightarrow> 0 | Some u \<Rightarrow> u) name) (\<lambda>existing.
          seq (guard (case existing of None \<Rightarrow> True | Some e \<Rightarrow> c_id e = k) (name_conflict name))
            (collection_update k user_id can_see_all name color start_date end_date)))))))"

definition activate_collection :: "uuid \<Rightarrow> uuid option \<Rightarrow> bool \<Rightarrow> (world, collection_row) py" where
  "activate_collection k user_id can_see_all =
     bind (collection_activate k user_id can_see_all) (\<lambda>r. case r of
       None \<Rightarrow> raise (NotFoundError ''Collection not found'') | Some c \<Rightarrow> ret c)"

definition deactivate_collection :: "uuid \<Rightarrow> uuid option \<Rightarrow> bool \<Rightarrow> (world, collection_row) py" where
  "deactivate_collection k user_id can_see_all =
     bind (collection_deactivate k user_id can_see_all) (\<lambda>r. case r of
       None \<Rightarrow> raise (NotFoundError ''Collection not found'') | Some c \<Rightarrow> ret c)"

definition delete_collection :: "uuid \<Rightarrow> uuid option \<Rightarrow> bool \<Rightarrow> (world, bool) py" where
  "delete_collection k user_id can_see_all =
     bind (collection_delete k user_id can_see_all) (\<lambda>r. ret (r \<noteq> None))"

definition assign_receipt :: "uuid \<Rightarrow> uuid \<Rightarrow> uuid option \<Rightarrow> bool \<Rightarrow> (world, unit) py" where
  "assign_receipt collection_id receipt_id user_id can_see_all =
     bind (collection_exists collection_id user_id can_see_all) (\<lambda>there.
     seq (guard there (NotFoundError ''Collection not found''))
     (bind (get_receipt_by_id receipt_id user_id can_see_all) (\<lambda>r.
      seq (guard (r \<noteq> None) (NotFoundError ''Receipt not found''))
        (collection_assign collection_id receipt_id))))"

definition unassign_receipt :: "uuid \<Rightarrow> uuid \<Rightarrow> uuid option \<Rightarrow> bool \<Rightarrow> (world, bool) py" where
  "unassign_receipt collection_id receipt_id user_id can_see_all =
     bind (collection_exists collection_id user_id can_see_all) (\<lambda>there.
     seq (guard there (NotFoundError ''Collection not found''))
       (collection_unassign collection_id receipt_id))"

definition set_receipt_collections :: "uuid \<Rightarrow> uuid list \<Rightarrow> uuid option \<Rightarrow> bool \<Rightarrow> (world, unit) py" where
  "set_receipt_collections receipt_id collection_ids user_id can_see_all =
     bind (get_receipt_by_id receipt_id user_id can_see_all) (\<lambda>r.
     seq (guard (r \<noteq> None) (NotFoundError ''Receipt not found''))
     (seq (for_each collection_ids (\<lambda>k. bind (collection_exists k user_id can_see_all) (\<lambda>there.
          guard there (NotFoundError ''Collection not found''))))
       (set_receipt_collections_db receipt_id collection_ids)))"

section \<open>Integrity\<close>

lemma collection_db_ok [keeps_intro]:
  "keeps db_ok (deactivate_siblings u)" "keeps db_ok (collection_create u n c s e a)"
  "keeps db_ok (collection_get k v y)" "keeps db_ok (find_by_name u n)" "keeps db_ok (collection_update k v y n c s e)"
  "keeps db_ok (collection_delete k v y)" "keeps db_ok (collection_exists k v y)" "keeps db_ok (active_collection v y)"
  "keeps db_ok (set_active k v y)" "keeps db_ok (collection_activate k v y)" "keeps db_ok (collection_deactivate k v y)"
  "keeps db_ok (collection_assign k r)" "keeps db_ok (collection_unassign k r)"
  "keeps db_ok (set_receipt_collections_db r ks)"
proof -
  show 1: "keeps db_ok (deactivate_siblings u)" for u
    by (auto simp: deactivate_siblings_def intro!: keeps_intro update_collections_ok)
  show "keeps db_ok (set_active k v y)" for k v y
    by (auto simp: set_active_def own_collection_def intro!: keeps_intro update_collections_ok)
  then show "keeps db_ok (collection_activate k v y)"
    by (auto simp: collection_activate_def intro!: keeps_intro 1)
  show "keeps db_ok (collection_create u n c s e a)"
    by (auto simp: collection_create_def intro!: keeps_intro 1)
  show "keeps db_ok (collection_unassign k r)"
    by (auto simp: keeps_def collection_unassign_def Let_def intro: delete_leaves_ok)
  show "keeps db_ok (collection_get k v y)" "keeps db_ok (find_by_name u n)" "keeps db_ok (collection_update k v y n c s e)"
    "keeps db_ok (collection_delete k v y)" "keeps db_ok (collection_exists k v y)" "keeps db_ok (active_collection v y)"
    "keeps db_ok (collection_deactivate k v y)" "keeps db_ok (collection_assign k r)" "keeps db_ok (set_receipt_collections_db r ks)"
    by (auto simp: collection_get_def find_by_name_def collection_update_def collection_delete_def collection_exists_def
        active_collection_def collection_deactivate_def collection_assign_def set_receipt_collections_db_def own_collection_def
        intro!: keeps_intro update_collections_ok delete_leaves_ok)
qed

lemma collection_service_ok [keeps_intro]:
  "keeps db_ok (create_collection b u)" "keeps db_ok (update_collection k b v y)"
  "keeps db_ok (activate_collection k v y)" "keeps db_ok (deactivate_collection k v y)"
  "keeps db_ok (delete_collection k v y)" "keeps db_ok (assign_receipt k r v y)"
  "keeps db_ok (unassign_receipt k r v y)" "keeps db_ok (set_receipt_collections r ks v y)"
  by (auto simp: create_collection_def update_collection_def activate_collection_def deactivate_collection_def
      delete_collection_def assign_receipt_def unassign_receipt_def set_receipt_collections_def validate_dates_def Let_def
      intro!: keeps_intro)

section \<open>Collections are scoped\<close>

lemma collection_get_cases:
  "collection_get k u c w = (Inr None, w) \<longleftrightarrow> (\<forall>x \<in> set (collections_t w). \<not> own_collection k u c x)"
  "collection_get k u c w = (Inr (Some x), w) \<Longrightarrow> x \<in> set (collections_t w) \<and> own_collection k u c x"
  by (auto simp: collection_get_def fetchrow_filter_None dest: fetchrow_filter_Some)

interpretation collection_scope: scoped_table collections_t c_id "\<lambda>c. Some (c_user_id c)" collection_get
proof unfold_locales
  show "\<exists>x. collection_get k u c w = (Inr x, w)" for k u c w by (simp add: collection_get_def)
  show "x \<in> set (collections_t w) \<and> c_id x = k \<and> visible u c (Some (c_user_id x))"
    if "collection_get k u c w = (Inr (Some x), w)" for k u c w x
    using collection_get_cases(2) [OF that] by (simp add: own_collection_def)
  show "\<not> visible u c (Some (c_user_id x))"
    if "collection_get k u c w = (Inr None, w)" "x \<in> set (collections_t w)" "c_id x = k" for k u c w x
    using that unfolding collection_get_cases(1) by (simp add: own_collection_def)
qed

lemma update_own_absent:
  "\<forall>x \<in> set (collections_t w). \<not> p x \<Longrightarrow> update_collections p f w = (Inr [], w)"
  by (simp add: update_collections_def sql_update_none)

lemma update_own_frame:
  "x \<in> set (collections_t w) \<Longrightarrow> \<not> p x \<Longrightarrow> x \<in> set (collections_t (snd (update_collections p f w)))"
  by (auto simp: update_collections_def Let_def set_sql_update)

interpretation collection_deactivation:
  scoped_writer collections_t c_id "\<lambda>c. Some (c_user_id c)" collection_get collection_deactivate
proof unfold_locales
  show "collection_deactivate k u c w = (Inr None, w)" if "collection_get k u c w = (Inr None, w)" for k u c w
    using that unfolding collection_get_cases(1) by (simp add: collection_deactivate_def update_own_absent bind_def)
  show "x \<in> set (collections_t (snd (collection_deactivate k u c w)))"
    if "x \<in> set (collections_t w)" "\<not> visible u c (Some (c_user_id x))" for x w u c k
    using update_own_frame [of x w "own_collection k u c" "\<lambda>c. c\<lparr>c_active := False\<rparr>"] that
    by (auto simp: collection_deactivate_def bind_def own_collection_def split: prod.splits sum.splits)
qed

interpretation collection_deletion:
  scoped_writer collections_t c_id "\<lambda>c. Some (c_user_id c)" collection_get collection_delete
proof unfold_locales
  show "collection_delete k u c w = (Inr None, w)" if "collection_get k u c w = (Inr None, w)" for k u c w
  proof -
    have none: "\<forall>x \<in> set (collections_t w). \<not> own_collection k u c x" using that collection_get_cases(1) by blast
    then have "filter (own_collection k u c) (collections_t w) = []" by (simp add: filter_empty_conv)
    then show ?thesis
      by (simp add: collection_delete_def delete_collections_def bind_def sql_delete_none [OF none] sql_delete_none)
  qed
  show "x \<in> set (collections_t (snd (collection_delete k u c w)))"
    if "x \<in> set (collections_t w)" "\<not> visible u c (Some (c_user_id x))" for x w u c k
    using that by (auto simp: collection_delete_def delete_collections_def bind_def Let_def own_collection_def set_sql_delete)
qed

interpretation collection_activation:
  scoped_writer collections_t c_id "\<lambda>c. Some (c_user_id c)" collection_get collection_activate
proof unfold_locales
  show "collection_activate k u c w = (Inr None, w)" if "collection_get k u c w = (Inr None, w)" for k u c w
  proof -
    have none: "\<forall>x \<in> set (collections_t w). \<not> own_collection k u c x" using that collection_get_cases(1) by blast
    have "set_active k u c w = (Inr None, w)" by (simp add: set_active_def update_own_absent none bind_def)
    moreover have "\<not> sql_exists (\<lambda>x. c_id x = k \<and> c_user_id x = v) (collections_t w)" if "u = Some v" "\<not> c" for v
      using none that by (auto simp: sql_exists_iff own_collection_def visible_def)
    ultimately show ?thesis by (cases u; cases c) (simp_all add: collection_activate_def)
  qed
  show "x \<in> set (collections_t (snd (collection_activate k u c w)))"
    if x: "x \<in> set (collections_t w)" "\<not> visible u c (Some (c_user_id x))" for x w u c k
  proof -
    obtain v where u: "u = Some v" "\<not> c" "c_user_id x \<noteq> v" using x(2) by (cases u) (auto simp: visible_def)
    have act: "x \<in> set (collections_t (snd (set_active k u c w1)))" if "x \<in> set (collections_t w1)" for w1
      using update_own_frame [OF that, of "own_collection k u c" "\<lambda>c. c\<lparr>c_active := True\<rparr>"] x(2)
      by (auto simp: set_active_def bind_def own_collection_def split: prod.splits sum.splits)
    have "x \<in> set (collections_t (snd (deactivate_siblings v w)))"
      using update_own_frame [OF x(1), of "\<lambda>c. c_user_id c = v" "\<lambda>c. c\<lparr>c_active := False\<rparr>"] u(3)
      by (auto simp: deactivate_siblings_def bind_def split: prod.splits sum.splits)
    then have "x \<in> set (collections_t (snd (seq (deactivate_siblings v) (set_active k u c) w)))"
      using act by (auto simp: seq_def bind_def split: prod.splits sum.splits)
    then show ?thesis using x(1) u by (simp add: collection_activate_def)
  qed
qed

section \<open>Activation\<close>

lemma collection_ids_distinct: "db_ok w \<Longrightarrow> distinct (map c_id (collections_t w))"
  by (simp add: db_ok_def keys_ok_def)

lemma collection_unique:
  "db_ok w \<Longrightarrow> c \<in> set (collections_t w) \<Longrightarrow> d \<in> set (collections_t w) \<Longrightarrow> c_id c = c_id d \<Longrightarrow> c = d"
  using collection_ids_distinct by (metis distinct_map inj_onD)

text \<open>With all of a user's collections off, switching one on cannot violate the index.\<close>

lemma update_flag_run:
  assumes "db_ok w" and "\<And>c. f c = c\<lparr>c_active := b\<rparr>"
    and "b \<Longrightarrow> \<forall>c \<in> set (collections_t w). p c \<longrightarrow> \<not> active_taken w (c_user_id c) (c_id c)"
  shows "update_collections p f w =
    (Inr (map f (filter p (collections_t w))), w\<lparr>collections_t := sql_update p f (collections_t w)\<rparr>)"
proof -
  have "list_all collection_fits (collections_t w)" using db_okD(9) [OF assms(1)] by (simp add: widths_ok_def)
  then have "\<not> list_ex (\<lambda>c. \<not> collection_fits c) (map f (filter p (collections_t w)))"
    by (auto simp: list_ex_iff list_all_iff assms(2) collection_fits_def)
  moreover have "\<not> list_ex (\<lambda>c. c_active c \<and> active_taken w (c_user_id c) (c_id c)) (map f (filter p (collections_t w)))"
    using assms(3) by (auto simp: list_ex_iff assms(2))
  ultimately show ?thesis by (simp add: update_collections_def Let_def)
qed

lemma own_filter:
  assumes "db_ok w" and "c \<in> set (collections_t w)" and "visible u see (Some (c_user_id c))"
  shows "filter (own_collection (c_id c) u see) (collections_t w) = [c]"
proof -
  have "filter (own_collection (c_id c) u see) (collections_t w) = filter (\<lambda>d. c_id d = c_id c) (collections_t w)"
    using assms collection_unique [OF assms(1)] by (intro filter_cong refl) (auto simp: own_collection_def)
  then show ?thesis using filter_by_key [OF collection_ids_distinct [OF assms(1)] assms(2)] by simp
qed

text \<open>
  Property C13: activating one's own collection makes it the only active one. The call succeeds, returns
  the collection switched on, leaves the caller with exactly that active collection, and does not
  touch the collections of anybody else or any other table.
\<close>

theorem activate_makes_single:
  assumes ok: "db_ok w" and c: "c \<in> set (collections_t w)"
  shows "\<exists>w'. activate_collection (c_id c) (Some (c_user_id c)) False w = (Inr (c\<lparr>c_active := True\<rparr>), w')
    \<and> filter (\<lambda>d. c_active d \<and> c_user_id d = c_user_id c) (collections_t w') = [c\<lparr>c_active := True\<rparr>]
    \<and> filter (\<lambda>d. c_user_id d \<noteq> c_user_id c) (collections_t w') = filter (\<lambda>d. c_user_id d \<noteq> c_user_id c) (collections_t w)
    \<and> map c_id (collections_t w') = map c_id (collections_t w)
    \<and> w' = w\<lparr>collections_t := collections_t w'\<rparr>"
proof -
  let ?u = "c_user_id c"
  let ?off = "\<lambda>c. c\<lparr>c_active := False\<rparr>" and ?on = "\<lambda>c. c\<lparr>c_active := True\<rparr>"
  define w1 where "w1 = w\<lparr>collections_t := sql_update (\<lambda>d. c_user_id d = ?u) ?off (collections_t w)\<rparr>"
  have off: "deactivate_siblings ?u w = (Inr (), w1)"
    using ok by (simp add: deactivate_siblings_def update_flag_run [where b = False] bind_def w1_def)
  have ok1: "db_ok w1" using keeps_run [OF collection_db_ok(1) ok off] .
  have c1: "?off c \<in> set (collections_t w1)" using c by (auto simp: w1_def set_sql_update)
  have idle: "\<not> active_taken w1 ?u k" for k
    by (auto simp: active_taken_def sql_exists_iff w1_def set_sql_update)
  have own: "filter (own_collection (c_id c) (Some ?u) False) (collections_t w1) = [?off c]"
    using own_filter [OF ok1 c1, of "Some ?u" False] by (simp add: visible_def)
  define w2 where "w2 = w1\<lparr>collections_t := sql_update (own_collection (c_id c) (Some ?u) False) ?on (collections_t w1)\<rparr>"
  have "\<forall>d \<in> set (collections_t w1). own_collection (c_id c) (Some ?u) False d \<longrightarrow> \<not> active_taken w1 (c_user_id d) (c_id d)"
    using idle by (auto simp: own_collection_def visible_def)
  then have on: "set_active (c_id c) (Some ?u) False w1 = (Inr (Some (?on c)), w2)"
    by (simp add: set_active_def update_flag_run [OF ok1, where b = True] bind_def own w2_def)
  have run: "activate_collection (c_id c) (Some ?u) False w = (Inr (?on c), w2)"
    using c on off by (auto simp: activate_collection_def collection_activate_def bind_def seq_def sql_exists_iff)
  have "filter (\<lambda>d. c_active d \<and> c_user_id d = ?u) (sql_update (own_collection (c_id c) (Some ?u) False) ?on
      (sql_update (\<lambda>d. c_user_id d = ?u) ?off t)) =
      map ?on (map ?off (filter (\<lambda>d. c_id d = c_id c \<and> c_user_id d = ?u) t))" for t
    by (induction t) (auto simp: sql_update_def own_collection_def visible_def)
  moreover have "filter (\<lambda>d. c_id d = c_id c \<and> c_user_id d = ?u) (collections_t w) = [c]"
    using own_filter [OF ok c, of "Some ?u" False] by (simp add: visible_def own_collection_def [abs_def])
  ultimately have "filter (\<lambda>d. c_active d \<and> c_user_id d = ?u) (collections_t w2) = [?on c]"
    by (simp add: w2_def w1_def)
  moreover have "filter (\<lambda>d. c_user_id d \<noteq> ?u) (collections_t w2) = filter (\<lambda>d. c_user_id d \<noteq> ?u) (collections_t w)"
  proof -
    have "filter (\<lambda>d. c_user_id d \<noteq> ?u) (sql_update (own_collection (c_id c) (Some ?u) False) ?on
      (sql_update (\<lambda>d. c_user_id d = ?u) ?off t)) = filter (\<lambda>d. c_user_id d \<noteq> ?u) t" for t
      by (induction t) (auto simp: sql_update_def own_collection_def visible_def)
    then show ?thesis by (simp add: w2_def w1_def)
  qed
  moreover have "map c_id (collections_t w2) = map c_id (collections_t w)"
    by (simp add: w2_def w1_def map_sql_update)
  moreover have "w2 = w\<lparr>collections_t := collections_t w2\<rparr>" by (simp add: w2_def w1_def)
  ultimately show ?thesis using run by blast
qed

text \<open>
  Fact: nobody switches, deletes or even sees a collection of somebody else. For an ordinary caller
  the id of a foreign collection behaves as an id that does not exist: every operation reports
  "not found" (or finds nothing) and the world is unchanged, the caller's active collection included.
\<close>

theorem foreign_collection_untouchable:
  assumes "db_ok w" and "c \<in> set (collections_t w)" and "c_user_id c \<noteq> me"
  shows "collection_get (c_id c) (Some me) False w = (Inr None, w)
    \<and> collection_detail_db (c_id c) (Some me) False w = (Inr None, w)
    \<and> update_collection (c_id c) body (Some me) False w = (Inr None, w)
    \<and> delete_collection (c_id c) (Some me) False w = (Inr False, w)
    \<and> activate_collection (c_id c) (Some me) False w = (Inl (NotFoundError ''Collection not found''), w)
    \<and> deactivate_collection (c_id c) (Some me) False w = (Inl (NotFoundError ''Collection not found''), w)
    \<and> assign_receipt (c_id c) r (Some me) False w = (Inl (NotFoundError ''Collection not found''), w)
    \<and> unassign_receipt (c_id c) r (Some me) False w = (Inl (NotFoundError ''Collection not found''), w)"
proof -
  have d: "distinct (map c_id (collections_t w))" using assms(1) by (rule collection_ids_distinct)
  have o: "Some (c_user_id c) \<noteq> Some me" using assms(3) by simp
  note noop = collection_scope.foreign_is_absent [OF d assms(2) refl o]
    collection_activation.foreign_write_is_noop [OF d assms(2) refl o]
    collection_deactivation.foreign_write_is_noop [OF d assms(2) refl o]
    collection_deletion.foreign_write_is_noop [OF d assms(2) refl o]
  have "fetchrow (filter (own_collection (c_id c) (Some me) False) (collections_t w)) = None"
    using noop(1) by (simp add: collection_get_def)
  then have ex: "collection_exists (c_id c) (Some me) False w = (Inr False, w)" by (simp add: collection_exists_def)
  show ?thesis
    by (simp add: noop ex collection_detail_db_def update_collection_def delete_collection_def activate_collection_def
        deactivate_collection_def assign_receipt_def unassign_receipt_def bind_def seq_def)
qed

section \<open>Links never cross owners\<close>

definition links_private :: "world \<Rightarrow> bool" where
  "links_private w \<longleftrightarrow> (\<forall>l \<in> set (links_t w). \<forall>r \<in> set (receipts_t w). \<forall>c \<in> set (collections_t w).
     lk_receipt_id l = r_id r \<and> lk_collection_id l = c_id c \<longrightarrow> r_user_id r = Some (c_user_id c))"

definition owns :: "world \<Rightarrow> uuid \<Rightarrow> uuid \<Rightarrow> uuid \<Rightarrow> bool" where
  "owns w u r k \<longleftrightarrow> (\<forall>x \<in> set (receipts_t w). r_id x = r \<longrightarrow> r_user_id x = Some u)
     \<and> (\<forall>c \<in> set (collections_t w). c_id c = k \<longrightarrow> c_user_id c = u)"

lemma insert_link_private:
  "links_private w \<Longrightarrow> owns w u r k \<Longrightarrow> links_private (snd (insert_link r k w))"
  by (auto simp: links_private_def owns_def insert_link_def Let_def)

lemma insert_link_tables:
  "receipts_t (snd (insert_link r k w)) = receipts_t w" "collections_t (snd (insert_link r k w)) = collections_t w"
  by (auto simp: insert_link_def Let_def)

lemma insert_links_private:
  assumes "links_private w" and "\<forall>k \<in> set ks. owns w u r k"
  shows "links_private (snd (for_each ks (insert_link r) w))"
  using assms
proof (induction ks arbitrary: w)
  case (Cons k ks)
  have 1: "links_private (snd (insert_link r k w))" using insert_link_private [of w u r k] Cons.prems by simp
  have 2: "\<forall>k' \<in> set ks. owns (snd (insert_link r k w)) u r k'"
    using Cons.prems by (simp add: owns_def insert_link_tables)
  show ?case
    using 1 Cons.IH [OF 1 2] by (cases "insert_link r k w") (auto simp: seq_def bind_def split: sum.split)
qed simp

lemma exists_owns:
  assumes "db_ok w" and "collection_exists k (Some u) False w = (Inr True, w)"
    and "get_receipt_by_id r (Some u) False w = (Inr (Some x), w)"
  shows "owns w u r k"
proof -
  from assms(2) obtain c where "c \<in> set (collections_t w)" "c_id c = k" "c_user_id c = u"
    by (auto simp: collection_exists_def own_collection_def visible_def dest!: fetchrow_filter_Some)
  moreover have "x \<in> set (receipts_t w)" "r_id x = r" "r_user_id x = Some u"
    using get_receipt_cases(2) [OF assms(3)] by (auto simp: own_receipt_def visible_def)
  ultimately show ?thesis
    unfolding owns_def using receipt_unique [OF assms(1)] collection_unique [OF assms(1)] by blast
qed

lemma guards_pass:
  "for_each ks (\<lambda>k. bind (gets (p k)) (\<lambda>b. guard b e)) w =
   (if \<forall>k \<in> set ks. p k w then (Inr (), w) else (Inl e, w))"
  by (induction ks) (auto simp: seq_def bind_def guard_def)

text \<open>
  Property C4: memberships never cross owners. If every link joins a receipt and a collection of one
  owner, this stays so after an ordinary caller assigns a receipt or replaces a receipt's
  collections, whatever ids the request names; so a collection never shows another user's receipt.
\<close>

theorem links_stay_private:
  assumes ok: "db_ok w" and priv: "links_private w"
  shows "links_private (snd (assign_receipt k r (Some u) False w))
    \<and> links_private (snd (unassign_receipt k r (Some u) False w))
    \<and> links_private (snd (set_receipt_collections r ks (Some u) False w))"
proof (intro conjI)
  obtain b where b: "collection_exists k (Some u) False w = (Inr b, w)" by (simp add: collection_exists_def)
  obtain x where x: "get_receipt_by_id r (Some u) False w = (Inr x, w)" by (simp add: get_receipt_by_id_def)
  show "links_private (snd (assign_receipt k r (Some u) False w))"
  proof (cases "b \<and> x \<noteq> None")
    case True
    then have "owns w u r k" using exists_owns [OF ok] b x by auto
    then show ?thesis using True b x insert_link_private [OF priv]
      by (simp add: assign_receipt_def collection_assign_def bind_def)
  qed (use b x priv in \<open>auto simp: assign_receipt_def bind_def seq_def guard_def\<close>)
  show "links_private (snd (unassign_receipt k r (Some u) False w))"
    using priv b
    by (auto simp: unassign_receipt_def bind_def seq_def guard_def collection_unassign_def links_private_def Let_def set_sql_delete)
  have loop: "for_each ks (\<lambda>k. bind (collection_exists k (Some u) False) (\<lambda>b. guard b e)) w =
      (if \<forall>k \<in> set ks. collection_exists k (Some u) False w = (Inr True, w) then (Inr (), w) else (Inl e, w))" for e
    by (simp add: collection_exists_def guards_pass)
  show "links_private (snd (set_receipt_collections r ks (Some u) False w))"
  proof (cases "x \<noteq> None \<and> (\<forall>k \<in> set ks. collection_exists k (Some u) False w = (Inr True, w))")
    case True
    let ?w = "w\<lparr>links_t := sql_delete (\<lambda>l. lk_receipt_id l = r) (links_t w)\<rparr>"
    have "\<forall>k \<in> set ks. owns ?w u r k" using exists_owns [OF ok] True x by (auto simp: owns_def)
    moreover have "links_private ?w" using priv by (auto simp: links_private_def set_sql_delete)
    ultimately have "links_private (snd (for_each ks (insert_link r) ?w))" by (intro insert_links_private)
    then show ?thesis
      using True x loop by (simp add: set_receipt_collections_def set_receipt_collections_db_def bind_def seq_def)
  next
    case False
    then show ?thesis using x loop priv
      by (auto simp: set_receipt_collections_def bind_def seq_def guard_def)
  qed
qed

section \<open>Names\<close>

definition name_key :: "collection_row \<Rightarrow> uuid \<times> string" where
  "name_key c = (c_user_id c, py_lower (c_name c))"

definition names_unique :: "world \<Rightarrow> bool" where
  "names_unique w \<longleftrightarrow> distinct (map name_key (collections_t w))"

lemma names_unique_map:
  assumes "names_unique w" and "\<And>c. name_key (f c) = name_key c"
  shows "names_unique (snd (update_collections p f w))"
  using assms by (simp add: names_unique_def update_collections_def Let_def map_sql_update)

text \<open>Rewriting rows of one id keeps a key distinct when no other row has the new key.\<close>

lemma distinct_key_update:
  assumes "distinct (map g t)" and "distinct (map key t)" and "\<And>x. p x \<Longrightarrow> key x = k"
    and "\<And>x y. x \<in> set t \<Longrightarrow> y \<in> set t \<Longrightarrow> p x \<Longrightarrow> key y \<noteq> k \<Longrightarrow> g y \<noteq> g (f x)"
  shows "distinct (map g (sql_update p f t))"
  using assms(1,2,4)
proof (induction t)
  case (Cons x t)
  have IH: "distinct (map g (sql_update p f t))" using Cons by simp
  have "g (if p x then f x else x) \<notin> g ` set (sql_update p f t)"
  proof (cases "p x")
    case True
    then have k: "key x = k" using assms(3) by blast
    have "key x \<notin> key ` set t" using Cons.prems(2) by simp
    then have other: "key y \<noteq> k" if "y \<in> set t" for y using that k by (metis image_eqI)
    then have "\<forall>y \<in> set t. \<not> p y" using assms(3) by blast
    then have same: "sql_update p f t = t" by (rule sql_update_none)
    have "g y \<noteq> g (f x)" if "y \<in> set t" for y using Cons.prems(3) [of x y] True other that by simp
    then have "g (f x) \<notin> g ` set t" by fastforce
    then show ?thesis unfolding same using True by simp
  next
    case False
    have "g x \<noteq> g (f y)" if y: "y \<in> set t" "p y" for y
    proof (cases "key x = k")
      case True
      moreover have "key y = k" using assms(3) y(2) by blast
      moreover have "key x \<notin> key ` set t" using Cons.prems(2) by simp
      ultimately show ?thesis using y(1) by (metis image_eqI)
    next
      case False
      then show ?thesis using Cons.prems(3) [of y x] y by auto
    qed
    then show ?thesis using False Cons.prems(1) by (auto simp: set_sql_update)
  qed
  moreover have "sql_update p f (x # t) = (if p x then f x else x) # sql_update p f t" by (simp add: sql_update_def)
  ultimately show ?case using IH by (simp del: set_sql_update)
qed (simp add: sql_update_def)

lemma find_by_name_run:
  obtains (free) "find_by_name u n w = (Inr None, w)" "(u, py_lower n) \<notin> name_key ` set (collections_t w)"
    | (taken) e where "find_by_name u n w = (Inr (Some e), w)" "e \<in> set (collections_t w)"
      "name_key e = (u, py_lower n)"
proof (cases "fetchrow (filter (\<lambda>c. c_user_id c = u \<and> py_lower (c_name c) = py_lower n) (collections_t w))")
  case None
  then have "(u, py_lower n) \<notin> name_key ` set (collections_t w)"
    by (force simp: fetchrow_filter_None name_key_def)
  then show ?thesis using free None by (simp add: find_by_name_def)
next
  case (Some e)
  then show ?thesis using taken by (auto simp: find_by_name_def name_key_def dest: fetchrow_filter_Some)
qed

lemma seq_state: "snd (seq m n w) \<in> {snd (m w), snd (n (snd (m w)))}"
  by (cases "m w"; cases "fst (m w)") (simp_all add: seq_def bind_def)

lemma deactivate_siblings_state:
  "snd (deactivate_siblings u w) = snd (update_collections (\<lambda>c. c_user_id c = u) (\<lambda>c. c\<lparr>c_active := False\<rparr>) w)"
  by (simp add: deactivate_siblings_def bind_def split: prod.split sum.split)

lemma collection_create_names:
  assumes "names_unique w" and "(u, py_lower n) \<notin> name_key ` set (collections_t w)"
  shows "names_unique (snd (collection_create u n col s e a w))"
proof -
  let ?off = "update_collections (\<lambda>c. c_user_id c = u) (\<lambda>c. c\<lparr>c_active := False\<rparr>)"
  let ?ins = "bind gen_uuid (\<lambda>k. bind (gets w_clock) (\<lambda>now. insert_collection
        \<lparr>c_id = k, c_user_id = u, c_name = n, c_color = col, c_start = s, c_end = e, c_active = a, c_created_at = now\<rparr>))"
  have ins: "names_unique (snd (?ins v))"
    if "names_unique v" "(u, py_lower n) \<notin> name_key ` set (collections_t v)" for v
    using that by (auto simp: gen_uuid_def bind_def insert_collection_def names_unique_def name_key_def)
  have keys: "map name_key (collections_t (snd (?off w))) = map name_key (collections_t w)"
    by (simp add: update_collections_def Let_def map_sql_update name_key_def)
  have off: "names_unique (snd (?off w))" "(u, py_lower n) \<notin> name_key ` set (collections_t (snd (?off w)))"
    using assms keys unfolding names_unique_def by (metis list.set_map)+
  show ?thesis
  proof (cases "a")
    case True
    have "snd (collection_create u n col s e a w) \<in> {snd (?off w), snd (?ins (snd (?off w)))}"
      using seq_state [of "deactivate_siblings u" ?ins w] True
      unfolding deactivate_siblings_state collection_create_def by simp
    then show ?thesis using ins [OF off] off(1) by auto
  next
    case False
    then show ?thesis using ins [OF assms] by (simp add: collection_create_def)
  qed
qed

lemma collection_create_result:
  assumes "collection_create u n col s e a w = (r, w')"
  shows "(\<exists>c. r = Inr c \<and> c \<in> set (collections_t w') \<and> c_name c = n \<and> c_user_id c = u)
    \<or> r \<in> {Inl DataError, Inl UniqueViolation, Inl ForeignKeyViolation}"
proof -
  let ?row = "\<lambda>k now. \<lparr>c_id = k, c_user_id = u, c_name = n, c_color = col, c_start = s, c_end = e,
      c_active = a, c_created_at = now\<rparr>"
  have ins: "(\<exists>c. r = Inr c \<and> c \<in> set (collections_t w') \<and> c_name c = n \<and> c_user_id c = u)
      \<or> r \<in> {Inl DataError, Inl UniqueViolation, Inl ForeignKeyViolation}"
    if "bind gen_uuid (\<lambda>k. bind (gets w_clock) (\<lambda>now. insert_collection (?row k now))) v = (r, w')" for v
    using that by (auto simp: gen_uuid_def bind_def insert_collection_def split: if_splits)
  obtain x v where v: "(if a then deactivate_siblings u else ret ()) w = (x, v)" by fastforce
  show ?thesis
  proof (cases x)
    case (Inr y)
    then show ?thesis using assms v ins [of v] by (simp add: collection_create_def seq_def)
  next
    case (Inl err)
    then have "a" "deactivate_siblings u w = (Inl err, v)" using v by (auto split: if_splits)
    then have "err \<in> {DataError, UniqueViolation}"
      by (auto simp: deactivate_siblings_def bind_def update_collections_def Let_def split: if_splits)
    then show ?thesis using assms v Inl by (auto simp: collection_create_def seq_def)
  qed
qed

lemma write_keeps_names:
  assumes ok: "db_ok w" and names: "names_unique w"
    and free: "\<And>y. y \<in> set (collections_t w) \<Longrightarrow> c_id y \<noteq> k \<Longrightarrow> name_key y \<noteq> (u, py_lower n)"
  shows "names_unique (snd (collection_update k (Some u) False n col s e w))"
proof -
  let ?f = "\<lambda>c. c\<lparr>c_name := n, c_color := col, c_start := s, c_end := e\<rparr>"
  let ?p = "own_collection k (Some u) False"
  have "distinct (map name_key (sql_update ?p ?f (collections_t w)))"
  proof (rule distinct_key_update [where key = c_id and k = k])
    show "distinct (map name_key (collections_t w))" using names by (simp add: names_unique_def)
    show "distinct (map c_id (collections_t w))" using ok by (rule collection_ids_distinct)
    show "c_id x = k" if "?p x" for x using that by (simp add: own_collection_def)
    show "name_key y \<noteq> name_key (?f x)" if "y \<in> set (collections_t w)" "?p x" "c_id y \<noteq> k" for x y
      using free [OF that(1,3)] that(2) by (simp add: name_key_def own_collection_def visible_def)
  qed
  then show ?thesis using names
    by (simp add: collection_update_def bind_def update_collections_def Let_def names_unique_def)
qed

lemma update_keeps_names:
  assumes ok: "db_ok w" and names: "names_unique w"
  shows "names_unique (snd (update_collection k body (Some u) False w))"
proof (cases "fetchrow (filter (own_collection k (Some u) False) (collections_t w))")
  case None
  then show ?thesis using names by (simp add: update_collection_def collection_get_def)
next
  case (Some c)
  then have c: "c \<in> set (collections_t w)" "c_id c = k" "c_user_id c = u"
    by (auto simp: own_collection_def visible_def dest!: fetchrow_filter_Some)
  show ?thesis
  proof (cases "cb_name body")
    case None
    have keep: "name_key y \<noteq> (u, py_lower (c_name c))" if "y \<in> set (collections_t w)" "c_id y \<noteq> k" for y
      using names that c unfolding names_unique_def name_key_def
      by (metis (mono_tags, lifting) distinct_map inj_onD)
    show ?thesis
      using Some None names write_keeps_names [OF ok names keep]
      by (simp add: update_collection_def collection_get_def Let_def seq_def validate_dates_def guard_def bind_def)
  next
    case n: (Some n)
    let ?n = "normalize_collection_name n"
    show ?thesis
    proof (rule find_by_name_run [of u ?n w])
      assume f: "find_by_name u ?n w = (Inr None, w)" "(u, py_lower ?n) \<notin> name_key ` set (collections_t w)"
      then have free: "name_key y \<noteq> (u, py_lower ?n)" if "y \<in> set (collections_t w)" "c_id y \<noteq> k" for y
        using that by (metis image_eqI)
      show ?thesis using Some n names write_keeps_names [OF ok names free] f(1)
        by (simp add: update_collection_def collection_get_def Let_def seq_def validate_dates_def guard_def bind_def)
    next
      fix e assume f: "find_by_name u ?n w = (Inr (Some e), w)" and e: "e \<in> set (collections_t w)"
        "name_key e = (u, py_lower ?n)"
      have free: "name_key y \<noteq> (u, py_lower ?n)" if "y \<in> set (collections_t w)" "c_id y \<noteq> k" "c_id e = k" for y
        using names that e unfolding names_unique_def by (metis (mono_tags, lifting) distinct_map inj_onD)
      show ?thesis using Some n names write_keeps_names [OF ok names free] f
        by (cases "c_id e = k")
          (simp_all add: update_collection_def collection_get_def Let_def seq_def validate_dates_def guard_def bind_def)
    qed
  qed
qed

text \<open>
  Property C27: names are unique per user. No two collections of one user have names that differ only
  in case after any create and after any update by an ordinary caller; a create that is refused for
  its name, color or dates changes nothing, and a successful one stores the collapsed, nonblank name.
\<close>

theorem names_stay_unique:
  assumes ok: "db_ok w" and names: "names_unique w"
  shows "names_unique (snd (create_collection body u w))
    \<and> names_unique (snd (update_collection k body (Some u) False w))
    \<and> (case create_collection body u w of
         (Inr c, w') \<Rightarrow> c \<in> set (collections_t w') \<and> c_name c \<noteq> [] \<and> collapse (c_name c) = c_name c \<and> c_user_id c = u
       | (Inl (ValueError m), w') \<Rightarrow> w' = w
       | (Inl (NameConflictError m), w') \<Rightarrow> w' = w
       | _ \<Rightarrow> True)"
proof (intro conjI)
  let ?n = "normalize_collection_name (case cb_name body of None \<Rightarrow> [] | Some n \<Rightarrow> n)"
  let ?make = "collection_create u ?n (cb_color body) (cb_start body) (cb_end body) (cb_active body)"
  have "(\<exists>e. create_collection body u w = (Inl e, w))
      \<or> ?n \<noteq> [] \<and> (u, py_lower ?n) \<notin> name_key ` set (collections_t w) \<and> create_collection body u w = ?make w"
    by (rule find_by_name_run [of u ?n w])
      (auto simp: create_collection_def Let_def guard_def validate_dates_def seq_def)
  moreover have "collapse ?n = ?n" by (simp add: normalize_collection_name_eq)
  ultimately consider (no) e where "create_collection body u w = (Inl e, w)"
    | (yes) "?n \<noteq> []" "collapse ?n = ?n" "(u, py_lower ?n) \<notin> name_key ` set (collections_t w)"
        "create_collection body u w = ?make w" by blast
  note cases = this
  show "names_unique (snd (create_collection body u w))"
    by (rule cases) (use names collection_create_names [OF names] in auto)
  show "case create_collection body u w of
         (Inr c, w') \<Rightarrow> c \<in> set (collections_t w') \<and> c_name c \<noteq> [] \<and> collapse (c_name c) = c_name c \<and> c_user_id c = u
       | (Inl (ValueError m), w') \<Rightarrow> w' = w
       | (Inl (NameConflictError m), w') \<Rightarrow> w' = w
       | _ \<Rightarrow> True"
  proof (rule cases)
    fix e assume "create_collection body u w = (Inl e, w)"
    then show ?thesis by (simp split: exn.split)
  next
    assume y: "?n \<noteq> []" "collapse ?n = ?n" "create_collection body u w = ?make w"
    obtain r w' where r: "?make w = (r, w')" by fastforce
    show ?thesis using collection_create_result [OF r] y r by auto
  qed
  show "names_unique (snd (update_collection k body (Some u) False w))"
    by (rule update_keeps_names [OF ok names])
qed

section \<open>Totals\<close>

lemma currency_totals_keys: "set (map fst (currency_totals rs)) = set (map r_currency rs)"
  "distinct (map fst (currency_totals rs))"
proof -
  define g where "g = (\<lambda>c. (c, sum_list (map r_total (filter (\<lambda>r. r_currency r = c) rs))))"
  have m: "currency_totals rs = sort_key (\<lambda>p. - snd p) (map g (remdups (map r_currency rs)))"
    by (simp add: currency_totals_def g_def)
  have "fst \<circ> g = id" by (auto simp: g_def)
  then have "image_mset fst (mset (currency_totals rs)) = mset (remdups (map r_currency rs))"
    unfolding m by (simp add: image_mset.compositionality)
  then have e: "mset (map fst (currency_totals rs)) = mset (remdups (map r_currency rs))" by simp
  show "distinct (map fst (currency_totals rs))"
    using mset_eq_imp_distinct_iff [OF e] by simp
  show "set (map fst (currency_totals rs)) = set (map r_currency rs)"
    using mset_eq_setD [OF e] by simp
qed

lemma currency_totals_value:
  "(cur, t) \<in> set (currency_totals rs) \<Longrightarrow> t = sum_list (map r_total (filter (\<lambda>r. r_currency r = cur) rs))"
  by (auto simp: currency_totals_def)

lemma shown_are_linked:
  assumes "links_private w" and "c \<in> set (collections_t w)"
  shows "filter (\<lambda>r. visible (Some (c_user_id c)) False (r_user_id r)) (linked_receipts (c_id c) w) = linked_receipts (c_id c) w"
proof (rule filter_True, rule ballI)
  fix r assume "r \<in> set (linked_receipts (c_id c) w)"
  then have "r \<in> set (receipts_t w)" "\<lparr>lk_receipt_id = r_id r, lk_collection_id = c_id c\<rparr> \<in> set (links_t w)"
    by (simp_all add: linked_receipts_def)
  then have "r_user_id r = Some (c_user_id c)" using assms unfolding links_private_def by fastforce
  then show "visible (Some (c_user_id c)) False (r_user_id r)" by (simp add: visible_def)
qed


section \<open>What an administrator can do\<close>

text \<open>
  Fact: a see-all administrator cannot activate a collection while its owner has another active
  one. The siblings are left alone for such a caller, so the index refuses the update: the request
  fails with the database's uniqueness error, which nothing above translates, and nothing changes.
\<close>

theorem admin_activation_conflicts:
  assumes ok: "db_ok w" and c: "c \<in> set (collections_t w)"
    and sibling: "d \<in> set (collections_t w)" "c_user_id d = c_user_id c" "c_active d" "c_id d \<noteq> c_id c"
  shows "activate_collection (c_id c) me True w = (Inl UniqueViolation, w)"
proof -
  have own: "filter (own_collection (c_id c) me True) (collections_t w) = [c]"
    using own_filter [OF ok c] by (simp add: visible_def)
  have taken: "active_taken w (c_user_id c) (c_id c)"
    using sibling by (auto simp: active_taken_def sql_exists_iff)
  have fits: "collection_fits c" using db_okD(9) [OF ok] c by (simp add: widths_ok_def list_all_iff)
  then have "set_active (c_id c) me True w = (Inl UniqueViolation, w)"
    using taken by (simp add: set_active_def bind_def update_collections_def own collection_fits_def)
  then show ?thesis
    by (cases me) (simp_all add: activate_collection_def collection_activate_def bind_def)
qed

section \<open>Samples\<close>

definition trip :: collection_row where
  "trip = \<lparr>c_id = 60, c_user_id = 1, c_name = ''Trip'', c_color = None, c_start = None, c_end = None,
     c_active = True, c_created_at = 900\<rparr>"

definition album_world :: world where
  "album_world = stored_world\<lparr>collections_t := [trip, trip\<lparr>c_id := 61, c_name := ''Home'', c_active := False\<rparr>],
     links_t := [\<lparr>lk_receipt_id = 20, lk_collection_id = 60\<rparr>]\<rparr>"

lemma album_world_ok: "db_ok album_world" by code_simp

lemma album_world_facts: "links_private album_world" "names_unique album_world"
  "trip \<in> set (collections_t album_world)" by code_simp+

theorem activate_makes_single_witness:
  "\<exists>w'. activate_collection 61 (Some 1) False album_world
       = (Inr (trip\<lparr>c_id := 61, c_name := ''Home''\<rparr>), w')
     \<and> filter (\<lambda>d. c_active d \<and> c_user_id d = 1) (collections_t w') = [trip\<lparr>c_id := 61, c_name := ''Home''\<rparr>]"
  using activate_makes_single [OF album_world_ok, of "trip\<lparr>c_id := 61, c_name := ''Home'', c_active := False\<rparr>"]
  by (auto simp: album_world_def trip_def)

theorem foreign_collection_untouchable_witness:
  "activate_collection 60 (Some 2) False album_world = (Inl (NotFoundError ''Collection not found''), album_world)"
  using foreign_collection_untouchable [OF album_world_ok album_world_facts(3), of 2] by (simp add: trip_def)

theorem links_stay_private_witness: "links_private (snd (assign_receipt 61 20 (Some 1) False album_world))"
  using links_stay_private [OF album_world_ok album_world_facts(1)] by blast

definition new_body :: collection_body where
  "new_body = \<lparr>cb_name = Some ''Work'', cb_color = None, cb_start = None, cb_end = None, cb_active = False\<rparr>"

theorem names_stay_unique_witness: "names_unique (snd (create_collection new_body 1 album_world))"
  using names_stay_unique [OF album_world_ok album_world_facts(2)] by blast


theorem admin_activation_conflicts_witness:
  "activate_collection 61 (Some 3) True album_world = (Inl UniqueViolation, album_world)"
  using admin_activation_conflicts [OF album_world_ok, of "trip\<lparr>c_id := 61, c_name := ''Home'', c_active := False\<rparr>" trip "Some 3"]
  by (simp add: album_world_def trip_def)

text \<open>
  Names stay unique only under ordinary callers: a see-all caller's
  rename is compared with the caller's own names, so it can give the owner two collections of one name.
\<close>

theorem admin_rename_duplicates:
  "\<not> names_unique (snd (update_collection 61 (new_body\<lparr>cb_name := Some ''Trip''\<rparr>) (Some 2) True album_world))"
  by code_simp

end
