(* ===== verification/Search.thy ===== *)
theory Search
  imports CollectionStore "HOL-Library.Option_ord"
begin

text \<open>
  Listing and searching receipts: list_receipts and search_products of provider/db/receipt_db.py with
  PostgreSQL's ILIKE, the price summary of ReceiptService.search_products and the route of
  api/search.py.
\<close>

section \<open>ILIKE\<close>

text \<open>
  A pattern is \<open>%\<close> (any run of characters), \<open>_\<close> (one character) or a character, with the backslash
  taking the next one literally. The program's patterns end in \<open>%\<close>, so a backslash at the very end,
  which the server refuses, does not occur.
\<close>

datatype like_token = AnyRun | AnyOne | Literal char

fun like_tokens :: "string \<Rightarrow> like_token list" where
  "like_tokens [] = []"
| "like_tokens (c # s) =
     (if c = CHR ''%'' then AnyRun # like_tokens s
      else if c = CHR ''_'' then AnyOne # like_tokens s
      else if c = CHR 0x5C then (case s of [] \<Rightarrow> [] | d # r \<Rightarrow> Literal d # like_tokens r)
      else Literal c # like_tokens s)"

fun like_match :: "like_token list \<Rightarrow> string \<Rightarrow> bool" where
  "like_match [] s = (s = [])"
| "like_match (Literal c # p) s = (case s of [] \<Rightarrow> False | d # r \<Rightarrow> c = d \<and> like_match p r)"
| "like_match (AnyOne # p) s = (case s of [] \<Rightarrow> False | d # r \<Rightarrow> like_match p r)"
| "like_match (AnyRun # p) s =
     (like_match p s \<or> (case s of [] \<Rightarrow> False | d # r \<Rightarrow> like_match (AnyRun # p) r))"

definition ilike :: "string \<Rightarrow> string \<Rightarrow> bool" where
  "ilike pattern s = like_match (like_tokens (py_lower pattern)) (py_lower s)"

definition contains_pattern :: "string \<Rightarrow> string" where
  "contains_pattern query = ''%'' @ query @ ''%''"

definition no_wildcards :: "string \<Rightarrow> bool" where
  "no_wildcards = list_all (\<lambda>c. c \<noteq> CHR ''%'' \<and> c \<noteq> CHR ''_'' \<and> c \<noteq> CHR 0x5C)"

section \<open>list_receipts\<close>

text \<open>
  The statement names the table only by its alias, so the collection filter, which refers to
  \<open>receipts.id\<close>, is refused by the server. \<open>search\<close> and \<open>status\<close> count only when nonempty.
\<close>

definition undefined_table :: exn where
  "undefined_table = OtherError ''UndefinedTableError''"

record list_filter =
  lf_status :: "string list option"
  lf_from :: "date option"
  lf_to :: "date option"
  lf_search :: "string option"
  lf_collection :: "uuid option"

fun receipt_status_name :: "receipt_status \<Rightarrow> string" where
  "receipt_status_name Unverified = ''unverified''"
| "receipt_status_name Verified = ''verified''"

definition passes_filter :: "list_filter \<Rightarrow> receipt_row \<Rightarrow> bool" where
  "passes_filter f r \<longleftrightarrow>
     (case lf_status f of None \<Rightarrow> True | Some st \<Rightarrow> st = [] \<or> receipt_status_name (r_status r) \<in> set st)
     \<and> (case lf_from f of None \<Rightarrow> True | Some d \<Rightarrow> d \<le> r_date r)
     \<and> (case lf_to f of None \<Rightarrow> True | Some d \<Rightarrow> r_date r \<le> d)
     \<and> (case lf_search f of None \<Rightarrow> True | Some q \<Rightarrow> q = []
          \<or> ilike (contains_pattern q) (r_merchant_name r)
          \<or> (case r_receipt_number r of None \<Rightarrow> False | Some n \<Rightarrow> ilike (contains_pattern q) n))"

definition thumbnail_of :: "world \<Rightarrow> receipt_row \<Rightarrow> string option" where
  "thumbnail_of w r = Option.bind (fetchrow (filter (\<lambda>i. r_image_id r = Some (im_id i)) (images_t w))) im_thumb"

definition list_receipts ::
  "nat \<Rightarrow> nat \<Rightarrow> list_filter \<Rightarrow> uuid option \<Rightarrow> bool \<Rightarrow> (world, (receipt_row \<times> string option) list) py" where
  "list_receipts limit offset f user_id can_see_all =
     (if lf_collection f \<noteq> None then raise undefined_table
      else gets (\<lambda>w. map (\<lambda>r. (r, thumbnail_of w r)) (take limit (drop offset
        (rev (sort_key r_date (rev
          (filter (\<lambda>r. visible user_id can_see_all (r_user_id r) \<and> passes_filter f r) (receipts_t w)))))))))"

section \<open>search_products\<close>

record purchase =
  pp_receipt :: uuid
  pp_description :: string
  pp_merchant :: string
  pp_date :: date
  pp_time :: "string option"
  pp_quantity :: rat
  pp_unit_price :: rat
  pp_currency :: string

definition joined_items :: "world \<Rightarrow> (item_row \<times> receipt_row) list" where
  "joined_items w = concat (map (\<lambda>i. map (\<lambda>r. (i, r)) (filter (\<lambda>r. r_id r = li_receipt_id i) (receipts_t w))) (items_t w))"

definition tod_order :: "tod \<Rightarrow> nat" where
  "tod_order t = ((tod_hour t * 60 + tod_minute t) * 60 + tod_second t) * 1000000 + tod_micro t"

text \<open>
  The ORDER BY, every part descending; with NULLS LAST a missing time is the smallest value, which is
  what the order on options gives.
\<close>

definition search_key :: "item_row \<times> receipt_row \<Rightarrow> date \<times> nat option \<times> timestamp \<times> uuid \<times> uuid" where
  "search_key p = (case p of (i, r) \<Rightarrow>
     (r_date r, map_option tod_order (r_time r), r_created_at r, r_id r, li_id i))"

definition purchase_of :: "item_row \<times> receipt_row \<Rightarrow> purchase" where
  "purchase_of p = (case p of (i, r) \<Rightarrow>
     \<lparr>pp_receipt = li_receipt_id i, pp_description = li_description i, pp_merchant = r_merchant_name r,
      pp_date = r_date r, pp_time = map_option time_isoformat (r_time r), pp_quantity = to_double (li_quantity i),
      pp_unit_price = li_unit_price i, pp_currency = r_currency r\<rparr>)"

definition search_hit :: "string \<Rightarrow> uuid option \<Rightarrow> bool \<Rightarrow> item_row \<times> receipt_row \<Rightarrow> bool" where
  "search_hit query user_id can_see_all p = (case p of (i, r) \<Rightarrow>
     r_status r = Verified \<and> r_verified r \<and> ilike (contains_pattern query) (li_description i)
     \<and> visible user_id can_see_all (r_user_id r))"

definition search_products :: "string \<Rightarrow> uuid option \<Rightarrow> bool \<Rightarrow> (world, purchase list) py" where
  "search_products query user_id can_see_all = gets (\<lambda>w.
     map purchase_of (rev (sort_key search_key (filter (search_hit query user_id can_see_all) (joined_items w)))))"

record product_search =
  ps_query :: string
  ps_purchases :: "purchase list"
  ps_latest :: "rat option"
  ps_cheapest :: "rat option"
  ps_average :: "rat option"
  ps_currency :: "string option"

definition dec_sum :: "rat list \<Rightarrow> rat" where
  "dec_sum xs = foldl (\<lambda>a x. dec28 (a + x)) 0 xs"

definition price_summary :: "string \<Rightarrow> purchase list \<Rightarrow> product_search" where
  "price_summary query purchases = (case purchases of
     [] \<Rightarrow> \<lparr>ps_query = query, ps_purchases = [], ps_latest = None, ps_cheapest = None, ps_average = None, ps_currency = None\<rparr>
   | p # _ \<Rightarrow>
      (let prices = map pp_unit_price purchases;
           non_negative = filter (\<lambda>x. 0 \<le> x) prices in
       \<lparr>ps_query = query, ps_purchases = purchases, ps_latest = Some (pp_unit_price p),
        ps_cheapest = (if non_negative = [] then None else Some (Min (set non_negative))),
        ps_average = Some (dec28 (dec_sum prices / of_nat (length prices))),
        ps_currency = Some (pp_currency p)\<rparr>))"

definition service_search_products :: "string \<Rightarrow> uuid option \<Rightarrow> bool \<Rightarrow> (world, product_search) py" where
  "service_search_products query user_id can_see_all =
     bind (search_products query user_id can_see_all) (\<lambda>ps. ret (price_summary query ps))"

text \<open>GET /search; the bounds on the query are FastAPI's.\<close>

definition search_route :: "string \<Rightarrow> uuid \<Rightarrow> bool \<Rightarrow> (world, product_search) py" where
  "search_route query user_id can_see_all =
     seq (guard (1 \<le> length query \<and> length query \<le> 255) (HTTPError 422 ''Unprocessable Entity''))
     (bind (gets w_db_ready) (\<lambda>ready.
      seq (guard ready (HTTPError 503 ''Database not available''))
      (seq (guard (py_strip query \<noteq> []) (HTTPError 422 ''Query must not be blank''))
        (service_search_products (py_strip query) (Some user_id) can_see_all))))"

section \<open>What a pattern matches\<close>

lemma like_any_run: "like_match (AnyRun # p) s \<longleftrightarrow> (\<exists>a b. s = a @ b \<and> like_match p b)"
proof (induction s)
  case (Cons d r)
  have "like_match (AnyRun # p) (d # r) \<longleftrightarrow> like_match p (d # r) \<or> (\<exists>a b. r = a @ b \<and> like_match p b)"
    using Cons.IH by simp
  also have "\<dots> \<longleftrightarrow> (\<exists>a b. d # r = a @ b \<and> like_match p b)"
    by (metis Cons_eq_append_conv append_Nil)
  finally show ?case .
qed simp

lemma like_literals: "like_match (map Literal q @ p) s \<longleftrightarrow> (\<exists>r. s = q @ r \<and> like_match p r)"
  by (induction q arbitrary: s) (auto split: list.splits)

lemma like_tokens_literal: "no_wildcards q \<Longrightarrow> like_tokens (q @ s) = map Literal q @ like_tokens s"
  by (induction q) (auto simp: no_wildcards_def)

lemma lower_char_plain: "lower_char c \<in> {CHR ''%'', CHR ''_'', CHR 0x5C} \<longleftrightarrow> c \<in> {CHR ''%'', CHR ''_'', CHR 0x5C}"
proof -
  have keep: "lower_char d = d" if "d \<in> {CHR ''%'', CHR ''_'', CHR 0x5C}" for d
    using that by (auto simp: lower_char_def code_of_def Let_def)
  have code: "code_of (lower_char c) = code_of c \<or> 97 \<le> code_of (lower_char c)"
    using code_of_lower [of c] by (auto split: if_splits)
  have "lower_char c = c" if "lower_char c \<in> {CHR ''%'', CHR ''_'', CHR 0x5C}"
    using code that by (auto simp: code_of_def)
  with keep show ?thesis by metis
qed

lemma no_wildcards_lower: "no_wildcards (py_lower q) \<longleftrightarrow> no_wildcards q"
  using lower_char_plain by (auto simp: no_wildcards_def py_lower_def list_all_iff)

lemma ilike_contains:
  assumes "no_wildcards q"
  shows "ilike (contains_pattern q) s \<longleftrightarrow> sublist (py_lower q) (py_lower s)"
proof -
  have any: "lower_char CHR ''%'' = CHR ''%''" by (simp add: lower_char_def code_of_def)
  have "like_tokens (py_lower (contains_pattern q)) = AnyRun # map Literal (py_lower q) @ [AnyRun]"
    using assms like_tokens_literal [of "py_lower q" "''%''"]
    by (simp add: contains_pattern_def no_wildcards_lower) (simp add: py_lower_def any)
  then show ?thesis
    unfolding ilike_def by (simp only: like_any_run like_literals) (auto simp: sublist_def like_any_run)
qed

section \<open>What a search finds\<close>

lemma rev_sort_key_desc: "sorted_wrt (\<lambda>a b. k b \<le> k a) (rev (sort_key k xs))"
  by (simp add: sorted_wrt_rev) (metis sorted_map sorted_sort_key)

text \<open>
  Property C32: product search. For a query without wildcard characters the hits are, counted with
  multiplicity, exactly the line items of verified receipts the caller may see whose description
  contains the query up to case; they come latest first (date, time, creation, identifiers), and the
  database is only read.
\<close>

theorem search_finds_exactly:
  assumes "no_wildcards q"
  shows "\<exists>hits. search_products q u see w = (Inr (map purchase_of hits), w)
    \<and> mset hits = mset (filter (\<lambda>p. r_status (snd p) = Verified \<and> r_verified (snd p)
        \<and> sublist (py_lower q) (py_lower (li_description (fst p))) \<and> visible u see (r_user_id (snd p))) (joined_items w))
    \<and> sorted_wrt (\<lambda>a b. search_key b \<le> search_key a) hits"
proof -
  have "search_hit q u see = (\<lambda>p. r_status (snd p) = Verified \<and> r_verified (snd p)
        \<and> sublist (py_lower q) (py_lower (li_description (fst p))) \<and> visible u see (r_user_id (snd p)))"
    by (rule ext) (simp add: search_hit_def ilike_contains [OF assms] split: prod.split)
  then show ?thesis
    by (intro exI [of _ "rev (sort_key search_key (filter (search_hit q u see) (joined_items w)))"])
       (simp add: search_products_def rev_sort_key_desc)
qed

definition item_row_of :: "uuid \<Rightarrow> uuid \<Rightarrow> string \<Rightarrow> rat \<Rightarrow> nat \<Rightarrow> item_row" where
  "item_row_of k r d price n = \<lparr>li_id = k, li_receipt_id = r, li_description = d, li_original = d,
     li_category = ''unknown'', li_source = FromUnknown, li_quantity = 1, li_unit_price = price,
     li_total_price = price, li_tags = [], li_position = n\<rparr>"

definition receipt_row_of :: "uuid \<Rightarrow> date \<Rightarrow> uuid \<Rightarrow> receipt_row" where
  "receipt_row_of k d u = \<lparr>r_id = k, r_confidence = 90, r_merchant_name = ''Market'', r_merchant_address = None,
     r_receipt_number = None, r_date = d, r_time = None, r_currency = ''EUR'', r_category = ''grocery'', r_subtotal = 3,
     r_discount_total = 0, r_tax_total = 0, r_tip = None, r_total = 3, r_payment_method = ''cash'', r_created_at = 0,
     r_status = Verified, r_image_id = None, r_verified = True, r_user_id = Some u\<rparr>"

definition search_world :: world where
  "search_world = shop_world\<lparr>
     receipts_t := [receipt_row_of 1 (Date 2025 1 5) 7, receipt_row_of 2 (Date 2025 2 5) 7, receipt_row_of 3 (Date 2025 3 5) 8],
     items_t := [item_row_of 10 1 ''Whole MILK'' (99 / 100) 0, item_row_of 11 2 ''milk'' (- 25 / 100) 0,
       item_row_of 12 2 ''Bread'' 2 1, item_row_of 13 3 ''milk'' 1 0]\<rparr>"

lemma search_finds_exactly_witness:
  "\<exists>hits. search_products ''milk'' (Some 7) False search_world = (Inr (map purchase_of hits), search_world)
    \<and> mset (map (li_id \<circ> fst) hits) = {#10, 11#} \<and> sorted_wrt (\<lambda>a b. search_key b \<le> search_key a) hits"
proof -
  have n: "no_wildcards ''milk''" by code_simp
  let ?found = "filter (\<lambda>p. r_status (snd p) = Verified \<and> r_verified (snd p)
    \<and> sublist (py_lower ''milk'') (py_lower (li_description (fst p))) \<and> visible (Some 7) False (r_user_id (snd p)))
      (joined_items search_world)"
  have "map (li_id \<circ> fst) ?found = [10, 11]" by code_simp
  then have "image_mset (li_id \<circ> fst) (mset ?found) = {#10, 11#}" unfolding mset_map [symmetric] by simp
  then show ?thesis
    using search_finds_exactly [OF n, of "Some 7" False search_world] unfolding mset_map by force
qed

section \<open>The price summary\<close>

text \<open>
  Fact: price summary. For a nonempty result whose prices are whole cents of at most
  10^12 (what the price column holds) the summary names the price and currency of the latest
  purchase, the least price that is not negative (none if all are), and the mean of all prices,
  refunds included, rounded once to 28 digits.
\<close>

theorem price_summary_exact:
  assumes "ps \<noteq> []" and "\<forall>p \<in> set ps. cents (pp_unit_price p) \<and> \<bar>pp_unit_price p\<bar> \<le> 10 ^ 12"
    and "length ps < 10 ^ 14"
  shows "ps_latest (price_summary q ps) = Some (pp_unit_price (hd ps))
    \<and> ps_currency (price_summary q ps) = Some (pp_currency (hd ps))
    \<and> (case ps_cheapest (price_summary q ps) of
         None \<Rightarrow> \<forall>p \<in> set ps. pp_unit_price p < 0
       | Some m \<Rightarrow> 0 \<le> m \<and> m \<in> pp_unit_price ` set ps
           \<and> (\<forall>p \<in> set ps. pp_unit_price p < 0 \<or> m \<le> pp_unit_price p))
    \<and> ps_average (price_summary q ps)
        = Some (dec28 (sum_list (map pp_unit_price ps) / of_nat (length ps)))"
proof -
  obtain p ps' where c: "ps = p # ps'" using assms(1) by (cases ps) auto
  let ?non = "filter (\<lambda>x. 0 \<le> x) (map pp_unit_price ps)"
  have "rat_of_nat (length ps) < of_nat (10 ^ 14)" using assms(3) by (simp only: of_nat_less_iff)
  then have total: "dec_sum (map pp_unit_price ps) = sum_list (map pp_unit_price ps)"
    unfolding dec_sum_def using assms(2) dec28_fold [of "map pp_unit_price ps" "10 ^ 12" 0] by (simp add: cents_def)
  have least: "0 \<le> Min (set ?non) \<and> Min (set ?non) \<in> pp_unit_price ` set ps
      \<and> (\<forall>p \<in> set ps. pp_unit_price p < 0 \<or> Min (set ?non) \<le> pp_unit_price p)" if "?non \<noteq> []"
  proof -
    define m where "m = Min (set ?non)"
    have "m \<in> set ?non" unfolding m_def using that by (intro Min_in) (simp_all del: set_filter)
    moreover have "pp_unit_price p < 0 \<or> m \<le> pp_unit_price p" if "p \<in> set ps" for p
      using that Min_le [of "set ?non" "pp_unit_price p"] unfolding m_def by fastforce
    ultimately show ?thesis unfolding m_def [symmetric] by auto
  qed
  have none: "\<forall>p \<in> set ps. pp_unit_price p < 0" if "?non = []"
    using that by (auto simp: filter_empty_conv)
  have eq: "price_summary q ps = \<lparr>ps_query = q, ps_purchases = ps, ps_latest = Some (pp_unit_price (hd ps)),
      ps_cheapest = (if ?non = [] then None else Some (Min (set ?non))),
      ps_average = Some (dec28 (dec_sum (map pp_unit_price ps) / of_nat (length ps))), ps_currency = Some (pp_currency (hd ps))\<rparr>"
    by (simp add: price_summary_def c Let_def)
  show ?thesis
  proof (cases "?non = []")
    case True
    show ?thesis unfolding eq if_P [OF True] using none [OF True] total by simp
  next
    case False
    show ?thesis unfolding eq if_not_P [OF False] total using least [OF False] by (simp del: set_filter)
  qed
qed

lemma price_summary_exact_witness:
  "let ps = map purchase_of (joined_items search_world) in
     ps_cheapest (price_summary ''milk'' ps) = Some (99 / 100)
     \<and> ps_average (price_summary ''milk'' ps) = Some (dec28 (sum_list (map pp_unit_price ps) / of_nat (length ps)))"
proof -
  define ps where "ps = map purchase_of (joined_items search_world)"
  have p: "map pp_unit_price ps = [99 / 100, - 25 / 100, 2, 1]" unfolding ps_def by code_simp
  then have set: "pp_unit_price ` set ps = {99 / 100, - 25 / 100, 2, 1}" by (metis list.set_map list.set(1,2))
  have ne: "ps \<noteq> []" using p by auto
  have len: "length ps < 10 ^ 14" using arg_cong [OF p, of length] by simp
  have "\<forall>x \<in> pp_unit_price ` set ps. cents x \<and> \<bar>x\<bar> \<le> 10 ^ 12" unfolding set by (simp add: cents_def)
  then have c: "\<forall>p \<in> set ps. cents (pp_unit_price p) \<and> \<bar>pp_unit_price p\<bar> \<le> 10 ^ 12" by simp
  have "ps_cheapest (price_summary ''milk'' ps) = Some (99 / 100)" unfolding ps_def by code_simp
  then show ?thesis
    using price_summary_exact [OF ne c len, of "''milk''"] unfolding ps_def [symmetric] Let_def by simp
qed

end
