(* ===== verification/Statistics.thy ===== *)
theory Statistics
  imports Search
begin

text \<open>
  Spending statistics over verified receipts: the STATS statements and get_statistics of
  provider/db/receipt_db.py, the result classes of model/statistics.py and the first route of
  api/statistics.py. Rounding of AVG, whose number of digits is the engine's choice, is the parameter
  \<open>rnd\<close>; CURRENT_DATE is the argument \<open>today\<close>. Names sort by code point (the C collation).
\<close>

section \<open>Selection and grouping\<close>

text \<open>The WHERE clause all statements share; \<open>EXISTS\<close> keeps a receipt single.\<close>

definition in_scope :: "uuid option \<Rightarrow> bool \<Rightarrow> uuid option \<Rightarrow> world \<Rightarrow> receipt_row \<Rightarrow> bool" where
  "in_scope user_id can_see_all collection w r \<longleftrightarrow>
     r_status r = Verified \<and> r_verified r \<and> visible user_id can_see_all (r_user_id r)
     \<and> (case collection of None \<Rightarrow> True
        | Some k \<Rightarrow> sql_exists (\<lambda>l. lk_receipt_id l = r_id r \<and> lk_collection_id l = k) (links_t w))"

definition stats_rows :: "uuid option \<Rightarrow> bool \<Rightarrow> uuid option \<Rightarrow> world \<Rightarrow> receipt_row list" where
  "stats_rows user_id can_see_all collection w =
     filter (in_scope user_id can_see_all collection w) (receipts_t w)"

text \<open>\<open>GROUP BY key\<close>: one nonempty group per value of the key.\<close>

definition group_by :: "('r \<Rightarrow> 'k) \<Rightarrow> 'r list \<Rightarrow> ('k \<times> 'r list) list" where
  "group_by key rs = map (\<lambda>k. (k, filter (\<lambda>r. key r = k) rs)) (remdups (map key rs))"

definition avg_of :: "(rat \<Rightarrow> rat) \<Rightarrow> rat list \<Rightarrow> rat" where
  "avg_of rnd xs = rnd (sum_list xs / of_nat (length xs))"

text \<open>
  \<open>percentile_cont(0.5)::numeric\<close>: the engine works on doubles, interpolates half way between the
  two middle values and the cast keeps 15 digits.
\<close>

definition median_of :: "rat list \<Rightarrow> rat" where
  "median_of xs = (let s = map to_double (sort xs); n = length xs; lo = s ! ((n - 1) div 2); hi = s ! (n div 2) in
     round_sig 10 15 (if odd n then lo else to_double (lo + to_double (to_double (hi - lo) / 2))))"

section \<open>The statements\<close>

record currency_stats =
  ct_currency :: string
  ct_count :: nat
  ct_total :: rat
  ct_average :: rat
  ct_median :: rat
  ct_minimum :: rat
  ct_maximum :: rat
  ct_subtotal :: rat
  ct_discounts :: rat
  ct_taxes :: rat
  ct_tips :: rat

definition currency_row :: "(rat \<Rightarrow> rat) \<Rightarrow> string \<times> receipt_row list \<Rightarrow> currency_stats" where
  "currency_row rnd g = (case g of (c, rs) \<Rightarrow>
     \<lparr>ct_currency = c, ct_count = length rs, ct_total = sum_list (map r_total rs),
      ct_average = avg_of rnd (map r_total rs), ct_median = median_of (map r_total rs),
      ct_minimum = Min (set (map r_total rs)), ct_maximum = Max (set (map r_total rs)),
      ct_subtotal = sum_list (map r_subtotal rs), ct_discounts = sum_list (map r_discount_total rs),
      ct_taxes = sum_list (map r_tax_total rs),
      ct_tips = sum_list (map (\<lambda>r. case r_tip r of None \<Rightarrow> 0 | Some t \<Rightarrow> t) rs)\<rparr>)"

definition stats_currency :: "(rat \<Rightarrow> rat) \<Rightarrow> receipt_row list \<Rightarrow> currency_stats list" where
  "stats_currency rnd rs = sort_key (\<lambda>s. (- ct_total s, map code_of (ct_currency s)))
     (map (currency_row rnd) (group_by r_currency rs))"

text \<open>NamedStatistics, WeekdayStatistics and WeeklyStatistics differ in the type of their first field.\<close>

record 'k group_stats =
  gs_name :: 'k
  gs_currency :: string
  gs_count :: nat
  gs_total :: rat
  gs_average :: rat

definition group_row :: "(rat \<Rightarrow> rat) \<Rightarrow> ('k \<times> string) \<times> receipt_row list \<Rightarrow> 'k group_stats" where
  "group_row rnd g = (case g of ((k, c), rs) \<Rightarrow>
     \<lparr>gs_name = k, gs_currency = c, gs_count = length rs, gs_total = sum_list (map r_total rs),
      gs_average = avg_of rnd (map r_total rs)\<rparr>)"

definition grouped_stats :: "(rat \<Rightarrow> rat) \<Rightarrow> (receipt_row \<Rightarrow> 'k) \<Rightarrow> receipt_row list \<Rightarrow> 'k group_stats list" where
  "grouped_stats rnd field rs = map (group_row rnd) (group_by (\<lambda>r. (field r, r_currency r)) rs)"

definition stats_named :: "(rat \<Rightarrow> rat) \<Rightarrow> (receipt_row \<Rightarrow> string) \<Rightarrow> receipt_row list \<Rightarrow> string group_stats list" where
  "stats_named rnd field rs =
     sort_key (\<lambda>s. (- gs_total s, map code_of (gs_name s), map code_of (gs_currency s))) (grouped_stats rnd field rs)"

definition stats_weekday :: "(rat \<Rightarrow> rat) \<Rightarrow> receipt_row list \<Rightarrow> int group_stats list" where
  "stats_weekday rnd rs =
     sort_key (\<lambda>s. (gs_name s, map code_of (gs_currency s))) (grouped_stats rnd (\<lambda>r. isodow (r_date r)) rs)"

text \<open>Weeks are named by the ordinal of their Monday.\<close>

definition recent :: "date \<Rightarrow> int \<Rightarrow> receipt_row \<Rightarrow> bool" where
  "recent today weeks r \<longleftrightarrow> week_start today - 7 * max (weeks - 1) 0 \<le> toordinal (r_date r)"

definition stats_weekly :: "(rat \<Rightarrow> rat) \<Rightarrow> date \<Rightarrow> int \<Rightarrow> receipt_row list \<Rightarrow> int group_stats list" where
  "stats_weekly rnd today weeks rs =
     sort_key (\<lambda>s. (gs_name s, map code_of (gs_currency s)))
       (grouped_stats rnd (\<lambda>r. week_start (r_date r)) (filter (recent today weeks) rs))"

definition merchant_label :: "receipt_row \<Rightarrow> string" where
  "merchant_label r = (if r_merchant_name r = [] then ''Unknown merchant'' else r_merchant_name r)"

record receipt_statistics =
  rs_count :: nat
  rs_currencies :: "currency_stats list"
  rs_merchants :: "string group_stats list"
  rs_categories :: "string group_stats list"
  rs_payment :: "string group_stats list"
  rs_weekdays :: "int group_stats list"
  rs_weekly :: "int group_stats list"

definition statistics_of :: "(rat \<Rightarrow> rat) \<Rightarrow> date \<Rightarrow> int \<Rightarrow> receipt_row list \<Rightarrow> receipt_statistics" where
  "statistics_of rnd today weeks rs =
     (let currencies = stats_currency rnd rs in
      \<lparr>rs_count = sum_list (map ct_count currencies), rs_currencies = currencies,
       rs_merchants = stats_named rnd merchant_label rs, rs_categories = stats_named rnd r_category rs,
       rs_payment = stats_named rnd r_payment_method rs, rs_weekdays = stats_weekday rnd rs,
       rs_weekly = stats_weekly rnd today weeks rs\<rparr>)"

definition get_statistics ::
  "(rat \<Rightarrow> rat) \<Rightarrow> date \<Rightarrow> uuid option \<Rightarrow> bool \<Rightarrow> int \<Rightarrow> uuid option \<Rightarrow> (world, receipt_statistics) py" where
  "get_statistics rnd today user_id can_see_all weeks collection =
     gets (\<lambda>w. statistics_of rnd today weeks (stats_rows user_id can_see_all collection w))"

definition statistics_route ::
  "(rat \<Rightarrow> rat) \<Rightarrow> date \<Rightarrow> int \<Rightarrow> uuid option \<Rightarrow> uuid \<Rightarrow> bool \<Rightarrow> (world, receipt_statistics) py" where
  "statistics_route rnd today weeks collection user_id can_see_all =
     seq (guard (1 \<le> weeks \<and> weeks \<le> 52) (HTTPError 422 ''Unprocessable Entity''))
     (bind (gets w_db_ready) (\<lambda>ready.
      seq (guard ready (HTTPError 503 ''Database not available''))
        (get_statistics rnd today (Some user_id) can_see_all weeks collection)))"

section \<open>Groups partition their rows\<close>

lemma groups_sum:
  fixes g :: "'r \<Rightarrow> 'a :: comm_monoid_add"
  assumes "finite K" and "key ` set rs \<subseteq> K"
  shows "(\<Sum>k \<in> K. sum_list (map g (filter (\<lambda>r. key r = k) rs))) = sum_list (map g rs)"
  using assms(2)
proof (induction rs)
  case (Cons r rs)
  have "(\<Sum>k \<in> K. sum_list (map g (filter (\<lambda>r. key r = k) (r # rs))))
      = (\<Sum>k \<in> K. (if key r = k then g r else 0) + sum_list (map g (filter (\<lambda>r. key r = k) rs)))"
    by (rule sum.cong) auto
  also have "\<dots> = g r + sum_list (map g rs)"
    using Cons assms(1) by (simp add: sum.distrib)
  finally show ?case by simp
qed simp

lemma group_by_sum:
  fixes g :: "'r \<Rightarrow> 'a :: comm_monoid_add"
  shows "sum_list (map (\<lambda>p. sum_list (map g (snd p))) (group_by key rs)) = sum_list (map g rs)"
  using groups_sum [of "set (map key rs)" key rs g]
  by (simp add: group_by_def comp_def sum_list_distinct_conv_sum_set)

lemma sum_list_sort_key:
  fixes f :: "'r \<Rightarrow> 'a :: comm_monoid_add"
  shows "sum_list (map f (sort_key k xs)) = sum_list (map f xs)"
  by (metis mset_map mset_sort sum_mset_sum_list)

text \<open>
  \<open>adds_up cur cnt tot es rs\<close>: the entries account for every row once, and per currency their
  totals are the total of the rows.
\<close>

definition adds_up ::
  "('e \<Rightarrow> string) \<Rightarrow> ('e \<Rightarrow> nat) \<Rightarrow> ('e \<Rightarrow> rat) \<Rightarrow> 'e list \<Rightarrow> receipt_row list \<Rightarrow> bool" where
  "adds_up cur cnt tot es rs \<longleftrightarrow> sum_list (map cnt es) = length rs
     \<and> (\<forall>c. sum_list (map (\<lambda>e. if cur e = c then tot e else 0) es)
          = sum_list (map (\<lambda>r. if r_currency r = c then r_total r else 0) rs))"

lemma adds_up_sort [simp]: "adds_up cur cnt tot (sort_key k es) rs = adds_up cur cnt tot es rs"
  by (simp add: adds_up_def sum_list_sort_key)

lemma adds_up_groups:
  assumes "\<And>p r. p \<in> set (group_by key rs) \<Longrightarrow> r \<in> set (snd p) \<Longrightarrow> r_currency r = cur (row p)"
    and "\<And>p. cnt (row p) = length (snd p)" and "\<And>p. tot (row p) = sum_list (map r_total (snd p))"
  shows "adds_up cur cnt tot (map row (group_by key rs)) rs"
proof -
  have "sum_list (map cnt (map row (group_by key rs))) = length rs"
    using group_by_sum [of "\<lambda>_. 1 :: nat" key rs] by (simp add: comp_def assms(2) sum_list_triv)
  moreover have "sum_list (map (\<lambda>e. if cur e = c then tot e else 0) (map row (group_by key rs)))
      = sum_list (map (\<lambda>r. if r_currency r = c then r_total r else 0) rs)" for c
  proof -
    have "(if cur (row p) = c then tot (row p) else 0)
        = sum_list (map (\<lambda>r. if r_currency r = c then r_total r else 0) (snd p))" if "p \<in> set (group_by key rs)" for p
    proof -
      have l: "map (\<lambda>r. if r_currency r = c then r_total r else 0) (snd p)
          = map (\<lambda>r. if cur (row p) = c then r_total r else 0) (snd p)"
        using assms(1) [OF that] by (intro map_cong) simp_all
      show ?thesis unfolding l by (simp add: assms(3))
    qed
    then have "map (\<lambda>e. if cur e = c then tot e else 0) (map row (group_by key rs))
        = map (\<lambda>p. sum_list (map (\<lambda>r. if r_currency r = c then r_total r else 0) (snd p))) (group_by key rs)"
      by simp
    then show ?thesis by (simp only: group_by_sum)
  qed
  ultimately show ?thesis by (simp add: adds_up_def)
qed

lemma stats_currency_adds_up: "adds_up ct_currency ct_count ct_total (stats_currency rnd rs) rs"
  unfolding stats_currency_def adds_up_sort
  by (rule adds_up_groups) (auto simp: currency_row_def group_by_def split: prod.split)

lemma grouped_stats_adds_up: "adds_up gs_currency gs_count gs_total (grouped_stats rnd field rs) rs"
  unfolding grouped_stats_def
  by (rule adds_up_groups) (auto simp: group_row_def group_by_def split: prod.split)


end
