(* ===== verification/ItemStats.thy ===== *)
theory ItemStats
  imports Statistics
begin

text \<open>
  Spending by item category: the statement of provider/db/item_statistics_db.py, the aggregation of
  service/item_statistics_service.py and the second route of api/statistics.py. Decimal arithmetic is
  the default context of 28 digits.
\<close>

section \<open>The statement\<close>

datatype total_row =
    ItemTotal (tr_month: date) (tr_category: string) (tr_currency: string) (tr_total: rat)
  | ReceiptTotal (tr_currency: string) (tr_total: rat)

definition in_range :: "date \<Rightarrow> date \<Rightarrow> receipt_row \<Rightarrow> bool" where
  "in_range date_from date_to r \<longleftrightarrow> date_from \<le> r_date r \<and> r_date r \<le> date_to"

definition scoped_receipts :: "date \<Rightarrow> date \<Rightarrow> uuid \<Rightarrow> bool \<Rightarrow> uuid option \<Rightarrow> world \<Rightarrow> receipt_row list" where
  "scoped_receipts date_from date_to user_id can_see_all collection w =
     filter (in_range date_from date_to) (stats_rows (Some user_id) can_see_all collection w)"

definition scoped_items :: "receipt_row list \<Rightarrow> item_row list \<Rightarrow> (receipt_row \<times> item_row) list" where
  "scoped_items rs items = concat (map (\<lambda>r. map (\<lambda>i. (r, i)) (filter (\<lambda>i. li_receipt_id i = r_id r) items)) rs)"

definition trunc_month :: "date \<Rightarrow> date" where
  "trunc_month d = Date (date_year d) (date_month d) 1"

definition item_key :: "receipt_row \<times> item_row \<Rightarrow> date \<times> string \<times> string" where
  "item_key p = (trunc_month (r_date (fst p)), li_category (snd p), r_currency (fst p))"

definition item_total_rows :: "receipt_row list \<Rightarrow> item_row list \<Rightarrow> total_row list" where
  "item_total_rows rs items =
     map (\<lambda>g. case g of ((m, cat, cur), ps) \<Rightarrow> ItemTotal m cat cur (sum_list (map (li_total_price \<circ> snd) ps)))
       (group_by item_key (scoped_items rs items))
     @ map (\<lambda>g. case g of (cur, qs) \<Rightarrow> ReceiptTotal cur (sum_list (map r_total qs))) (group_by r_currency rs)"

definition get_totals :: "date \<Rightarrow> date \<Rightarrow> uuid \<Rightarrow> bool \<Rightarrow> uuid option \<Rightarrow> (world, total_row list) py" where
  "get_totals date_from date_to user_id can_see_all collection = gets (\<lambda>w.
     item_total_rows (scoped_receipts date_from date_to user_id can_see_all collection w) (items_t w))"

section \<open>The aggregation\<close>

text \<open>A \<open>defaultdict(Decimal)\<close>, in insertion order, and its \<open>d[k] += x\<close> and \<open>d[k]\<close>.\<close>

fun bump :: "'k \<Rightarrow> rat \<Rightarrow> ('k \<times> rat) list \<Rightarrow> ('k \<times> rat) list" where
  "bump k x [] = [(k, dec28 (0 + x))]"
| "bump k x ((j, v) # d) = (if j = k then (j, dec28 (v + x)) # d else (j, v) # bump k x d)"

definition amount_of :: "('k \<times> rat) list \<Rightarrow> 'k \<Rightarrow> rat" where
  "amount_of d k = (case map_of d k of None \<Rightarrow> 0 | Some v \<Rightarrow> v)"

record tallies =
  ty_totals :: "((string \<times> string) \<times> rat) list"
  ty_monthly :: "((date \<times> string \<times> string) \<times> rat) list"
  ty_currency :: "(string \<times> rat) list"
  ty_month :: "((date \<times> string) \<times> rat) list"
  ty_receipts :: "(string \<times> rat) list"
  ty_deposits :: "(string \<times> rat) list"
  ty_items :: "(string \<times> rat) list"

definition category_or_unknown :: "string \<Rightarrow> string" where
  "category_or_unknown c = (if c = [] then ''unknown'' else c)"

fun tally :: "tallies \<Rightarrow> total_row \<Rightarrow> tallies" where
  "tally y (ReceiptTotal cur x) = y\<lparr>ty_receipts := bump cur x (ty_receipts y)\<rparr>"
| "tally y (ItemTotal m c cur x) =
     (let cat = category_or_unknown c; y1 = y\<lparr>ty_items := bump cur x (ty_items y)\<rparr> in
      if cat = ''deposit'' then y1\<lparr>ty_deposits := bump cur x (ty_deposits y1)\<rparr>
      else y1\<lparr>ty_totals := bump (cat, cur) x (ty_totals y1), ty_monthly := bump (m, cat, cur) x (ty_monthly y1),
             ty_currency := bump cur x (ty_currency y1), ty_month := bump (m, cur) x (ty_month y1)\<rparr>)"

definition no_tallies :: tallies where
  "no_tallies = \<lparr>ty_totals = [], ty_monthly = [], ty_currency = [], ty_month = [], ty_receipts = [],
     ty_deposits = [], ty_items = []\<rparr>"

text \<open>\<open>quantize(Decimal("0.01"))\<close> raises when the result would need more than 28 digits.\<close>

definition quantize_cents :: "rat \<Rightarrow> exn + rat" where
  "quantize_cents x = (let c = round_half_even (x * 100) in
     if 10 ^ 28 \<le> \<bar>c\<bar> then Inl (OtherError ''InvalidOperation'') else Inr (of_int c / 100))"

definition percentage :: "rat \<Rightarrow> rat \<Rightarrow> exn + rat option" where
  "percentage amount whole =
     (if 0 < whole then map_sum id Some (quantize_cents (dec28 (dec28 (amount / whole) * 100))) else Inr None)"

record category_entry =
  ce_category :: string
  ce_currency :: string
  ce_total :: rat
  ce_share :: "rat option"

record month_entry =
  me_month :: date
  me_category :: string
  me_currency :: string
  me_total :: rat
  me_share :: "rat option"

record reconciliation_entry =
  rn_currency :: string
  rn_receipt_total :: rat
  rn_item_total :: rat
  rn_deposit_total :: rat
  rn_unallocated :: rat

record item_report =
  it_months :: int
  it_from :: date
  it_to :: date
  it_categories :: "category_entry list"
  it_monthly :: "month_entry list"
  it_reconciliation :: "reconciliation_entry list"

definition text_key :: "string \<Rightarrow> nat list" where
  "text_key = map code_of"

definition category_entries :: "tallies \<Rightarrow> ('s, category_entry list) py" where
  "category_entries y =
     collect (sort_key (\<lambda>e. (text_key (snd (fst e)), - snd e, text_key (fst (fst e)))) (ty_totals y))
       (\<lambda>e. case e of ((cat, cur), x) \<Rightarrow>
          bind (lift_result (percentage x (amount_of (ty_currency y) cur))) (\<lambda>share.
            ret \<lparr>ce_category = cat, ce_currency = cur, ce_total = x, ce_share = share\<rparr>))"

definition month_entries :: "tallies \<Rightarrow> date \<Rightarrow> int \<Rightarrow> ('s, month_entry list) py" where
  "month_entries y start months =
     bind (collect [0..months - 1] (\<lambda>offset.
       bind (lift_result (month_start start offset)) (\<lambda>month.
         collect (sort_key (\<lambda>k. (text_key (fst k), text_key (snd k))) (map fst (ty_totals y))) (\<lambda>k.
           case k of (cat, cur) \<Rightarrow>
             let x = amount_of (ty_monthly y) (month, cat, cur) in
             bind (lift_result (percentage x (amount_of (ty_month y) (month, cur)))) (\<lambda>share.
               ret \<lparr>me_month = month, me_category = cat, me_currency = cur, me_total = x, me_share = share\<rparr>)))))
       (\<lambda>rows. ret (concat rows))"

definition reconciliation_entries :: "tallies \<Rightarrow> reconciliation_entry list" where
  "reconciliation_entries y =
     map (\<lambda>cur. \<lparr>rn_currency = cur, rn_receipt_total = amount_of (ty_receipts y) cur,
            rn_item_total = amount_of (ty_items y) cur, rn_deposit_total = amount_of (ty_deposits y) cur,
            rn_unallocated = dec28 (amount_of (ty_receipts y) cur - amount_of (ty_items y) cur)\<rparr>)
       (sort_key text_key (remdups (map fst (ty_receipts y) @ map fst (ty_items y))))"

definition build_item_statistics :: "total_row list \<Rightarrow> int \<Rightarrow> date \<Rightarrow> ('s, item_report) py" where
  "build_item_statistics rows months today =
     bind (lift_result (month_start today (1 - months))) (\<lambda>start.
     let y = foldl tally no_tallies rows in
     bind (category_entries y) (\<lambda>cats.
     bind (month_entries y start months) (\<lambda>hist.
       ret \<lparr>it_months = months, it_from = start, it_to = today, it_categories = cats, it_monthly = hist,
            it_reconciliation = reconciliation_entries y\<rparr>)))"

text \<open>\<open>today\<close> is the UTC date the service reads once.\<close>

definition item_statistics ::
  "date \<Rightarrow> uuid \<Rightarrow> bool \<Rightarrow> int \<Rightarrow> uuid option \<Rightarrow> (world, item_report) py" where
  "item_statistics today user_id can_see_all months collection =
     bind (lift_result (month_start today (1 - months))) (\<lambda>date_from.
     bind (get_totals date_from today user_id can_see_all collection) (\<lambda>rows.
       build_item_statistics rows months today))"

definition item_statistics_route ::
  "date \<Rightarrow> int \<Rightarrow> uuid option \<Rightarrow> uuid \<Rightarrow> bool \<Rightarrow> (world, item_report) py" where
  "item_statistics_route today months collection user_id can_see_all =
     seq (guard (1 \<le> months \<and> months \<le> 36) (HTTPError 422 ''Unprocessable Entity''))
     (bind (gets w_db_ready) (\<lambda>ready.
      seq (guard ready (HTTPError 503 ''Database not available''))
        (item_statistics today user_id can_see_all months collection)))"

section \<open>What the dictionaries hold\<close>

definition put :: "('k \<times> rat) list \<Rightarrow> 'k \<times> rat \<Rightarrow> ('k \<times> rat) list" where
  "put d e = bump (fst e) (snd e) d"

definition feed_receipt :: "total_row \<Rightarrow> (string \<times> rat) list" where
  "feed_receipt r = (case r of ReceiptTotal cur x \<Rightarrow> [(cur, x)] | ItemTotal m c cur x \<Rightarrow> [])"

definition feed_item :: "total_row \<Rightarrow> (string \<times> rat) list" where
  "feed_item r = (case r of ReceiptTotal cur x \<Rightarrow> [] | ItemTotal m c cur x \<Rightarrow> [(cur, x)])"

definition feed_deposit :: "total_row \<Rightarrow> (string \<times> rat) list" where
  "feed_deposit r = (case r of ReceiptTotal cur x \<Rightarrow> []
     | ItemTotal m c cur x \<Rightarrow> if category_or_unknown c = ''deposit'' then [(cur, x)] else [])"

definition feed_month :: "total_row \<Rightarrow> ((date \<times> string \<times> string) \<times> rat) list" where
  "feed_month r = (case r of ReceiptTotal cur x \<Rightarrow> []
     | ItemTotal m c cur x \<Rightarrow> if category_or_unknown c = ''deposit'' then [] else [((m, category_or_unknown c, cur), x)])"

definition feed_total :: "total_row \<Rightarrow> ((string \<times> string) \<times> rat) list" where
  "feed_total r = map (\<lambda>e. (snd (fst e), snd e)) (feed_month r)"

lemma tally_feeds:
  "ty_receipts (foldl tally y rows) = foldl put (ty_receipts y) (concat (map feed_receipt rows))"
  "ty_items (foldl tally y rows) = foldl put (ty_items y) (concat (map feed_item rows))"
  "ty_deposits (foldl tally y rows) = foldl put (ty_deposits y) (concat (map feed_deposit rows))"
  "ty_monthly (foldl tally y rows) = foldl put (ty_monthly y) (concat (map feed_month rows))"
  "ty_totals (foldl tally y rows) = foldl put (ty_totals y) (concat (map feed_total rows))"
proof (induction rows arbitrary: y)
  case (Cons r rows)
  { case 1 show ?case unfolding list.map concat.simps foldl_append foldl_Cons Cons.IH by (cases r) (auto simp: put_def feed_receipt_def Let_def) }
  { case 2 show ?case unfolding list.map concat.simps foldl_append foldl_Cons Cons.IH by (cases r) (auto simp: put_def feed_item_def Let_def) }
  { case 3 show ?case unfolding list.map concat.simps foldl_append foldl_Cons Cons.IH by (cases r) (auto simp: put_def feed_deposit_def Let_def) }
  { case 4 show ?case unfolding list.map concat.simps foldl_append foldl_Cons Cons.IH by (cases r) (auto simp: put_def feed_month_def Let_def) }
  { case 5 show ?case unfolding list.map concat.simps foldl_append foldl_Cons Cons.IH by (cases r) (auto simp: put_def feed_total_def feed_month_def Let_def) }
qed simp_all

lemma bump_keys: "set (map fst (bump k x d)) = insert k (set (map fst d))"
  by (induction k x d rule: bump.induct) auto

lemma bump_distinct: "distinct (map fst d) \<Longrightarrow> distinct (map fst (bump k x d))"
proof (induction k x d rule: bump.induct)
  case (2 k x j v d)
  then show ?case using bump_keys [of k x d] by auto
qed simp

lemma bump_amount:
  "dec28 (amount_of d k + x) = amount_of d k + x \<Longrightarrow> amount_of (bump k x d) j = amount_of d j + (if j = k then x else 0)"
  by (induction k x d rule: bump.induct) (auto simp: amount_of_def)

definition fed :: "'k \<Rightarrow> ('k \<times> rat) list \<Rightarrow> rat" where
  "fed k es = sum_list (map (\<lambda>e. if fst e = k then snd e else 0) es)"

definition weight :: "('k \<times> rat) list \<Rightarrow> rat" where
  "weight es = sum_list (map (\<lambda>e. \<bar>snd e\<bar>) es)"

lemma fed_weight: "\<bar>fed k es\<bar> \<le> weight es"
  by (induction es) (auto simp: fed_def weight_def)

lemma fed_cents: "\<forall>e \<in> set es. cents (snd e) \<Longrightarrow> cents (fed k es)"
  by (induction es) (auto simp: fed_def cents_def distrib_right)

lemma dict_amounts:
  assumes "\<forall>e \<in> set es. cents (snd e)" and "weight es < 10 ^ 26"
  shows "amount_of (foldl put [] es) k = fed k es \<and> set (map fst (foldl put [] es)) = fst ` set es
    \<and> distinct (map fst (foldl put [] es))"
  using assms
proof (induction es arbitrary: k rule: rev_induct)
  case Nil
  then show ?case by (simp add: amount_of_def fed_def)
next
  case (snoc e es)
  have w: "weight es + \<bar>snd e\<bar> < 10 ^ 26" using snoc.prems(2) by (simp add: weight_def)
  then have "weight es < 10 ^ 26" using abs_ge_zero [of "snd e"] by linarith
  with snoc have IH: "amount_of (foldl put [] es) j = fed j es" "set (map fst (foldl put [] es)) = fst ` set es"
    "distinct (map fst (foldl put [] es))" for j by auto
  have "\<bar>fed (fst e) es + snd e\<bar> < 10 ^ 26" using fed_weight [of "fst e" es] w by linarith
  then have "dec28 (fed (fst e) es + snd e) = fed (fst e) es + snd e"
    using snoc.prems(1) by (intro dec28_cents cents_add fed_cents) simp_all
  moreover have last: "foldl put [] (es @ [e]) = bump (fst e) (snd e) (foldl put [] es)"
    by (simp add: put_def [of "foldl put [] es"])
  ultimately have "amount_of (foldl put [] (es @ [e])) j = fed j (es @ [e])" for j
    using bump_amount [of "foldl put [] es" "fst e" "snd e" j] by (auto simp: IH fed_def)
  moreover have "set (map fst (foldl put [] (es @ [e]))) = fst ` set (es @ [e])"
    unfolding last bump_keys IH(2) by simp
  moreover have "distinct (map fst (foldl put [] (es @ [e])))"
    unfolding last by (rule bump_distinct) (rule IH(3))
  ultimately show ?case by simp
qed

section \<open>Reconciliation\<close>

text \<open>Amounts of a statement: whole cents that together stay below what 28 digits hold.\<close>

definition exact_rows :: "total_row list \<Rightarrow> bool" where
  "exact_rows rows \<longleftrightarrow> list_all (\<lambda>r. cents (tr_total r)) rows \<and> sum_list (map (\<lambda>r. \<bar>tr_total r\<bar>) rows) < 10 ^ 26"

lemma feeds_exact:
  assumes "exact_rows rows"
    and "\<And>r. f r = [] \<or> (\<exists>k. f r = [(k, tr_total r)])"
  shows "(\<forall>e \<in> set (concat (map f rows)). cents (snd e)) \<and> weight (concat (map f rows)) < 10 ^ 26"
proof -
  have "(\<forall>e \<in> set (concat (map f rows)). cents (snd e)) \<and> weight (concat (map f rows)) \<le> sum_list (map (\<lambda>r. \<bar>tr_total r\<bar>) rows)"
    if "list_all (\<lambda>r. cents (tr_total r)) rows" for rows
    using that
  proof (induction rows)
    case (Cons r rows)
    then show ?case using assms(2) [of r] by (auto simp: weight_def intro: add_increasing)
  qed (simp add: weight_def)
  with assms(1) show ?thesis unfolding exact_rows_def using le_less_trans by blast
qed

lemma feed_shapes:
  "feed_receipt r = [] \<or> (\<exists>k. feed_receipt r = [(k, tr_total r)])"
  "feed_item r = [] \<or> (\<exists>k. feed_item r = [(k, tr_total r)])"
  "feed_deposit r = [] \<or> (\<exists>k. feed_deposit r = [(k, tr_total r)])"
  "feed_month r = [] \<or> (\<exists>k. feed_month r = [(k, tr_total r)])"
  "feed_total r = [] \<or> (\<exists>k. feed_total r = [(k, tr_total r)])"
  by (cases r; simp add: feed_receipt_def feed_item_def feed_deposit_def feed_month_def feed_total_def)+

lemma tally_dicts:
  assumes "exact_rows rows"
  defines "y \<equiv> foldl tally no_tallies rows"
  shows "amount_of (ty_receipts y) c = fed c (concat (map feed_receipt rows))"
    and "amount_of (ty_items y) c = fed c (concat (map feed_item rows))"
    and "amount_of (ty_deposits y) c = fed c (concat (map feed_deposit rows))"
    and "amount_of (ty_monthly y) m = fed m (concat (map feed_month rows))"
    and "amount_of (ty_totals y) t = fed t (concat (map feed_total rows))"
    and "distinct (map fst (ty_totals y))" and "set (map fst (ty_totals y)) = fst ` set (concat (map feed_total rows))"
  unfolding y_def tally_feeds
  using dict_amounts [of "concat (map feed_receipt rows)"] dict_amounts [of "concat (map feed_item rows)"]
    dict_amounts [of "concat (map feed_deposit rows)"] dict_amounts [of "concat (map feed_month rows)"]
    dict_amounts [of "concat (map feed_total rows)"] feeds_exact [OF assms(1) feed_shapes(1)]
    feeds_exact [OF assms(1) feed_shapes(2)] feeds_exact [OF assms(1) feed_shapes(3)]
    feeds_exact [OF assms(1) feed_shapes(4)] feeds_exact [OF assms(1) feed_shapes(5)]
  by (simp_all add: no_tallies_def)

text \<open>What a comprehension reads off its elements.\<close>

lemma collect_map:
  "collect xs f s = (Inr ys, s') \<Longrightarrow> (\<And>x s y s'. f x s = (Inr y, s') \<Longrightarrow> g y = h x) \<Longrightarrow> map g ys = map h xs"
proof (induction xs arbitrary: s ys)
  case (Cons x xs)
  then obtain y t zs u where "f x s = (Inr y, t)" "collect xs f t = (Inr zs, u)" "ys = y # zs" "u = s'"
    by (auto simp: bind_eq_Inr)
  with Cons show ?case by simp
qed simp

lemma map_of_sum:
  assumes "distinct (map fst d)"
  shows "sum_list (map (\<lambda>e. if p (fst e) then snd e else 0) d)
    = (\<Sum>k \<in> set (map fst d). if p k then amount_of d k else 0)"
  using assms
proof (induction d)
  case (Cons e d)
  have other: "amount_of (e # d) x = amount_of d x" if "x \<noteq> fst e" for x using that by (simp add: amount_of_def)
  have "fst e \<notin> set (map fst d)" using Cons.prems by simp
  then have "(\<Sum>k \<in> set (map fst d). if p k then amount_of (e # d) k else 0) = (\<Sum>k \<in> set (map fst d). if p k then amount_of d k else 0)"
    by (intro sum.cong) (metis other)+
  with Cons show ?case by (cases e) (auto simp: amount_of_def)
qed simp

lemma fed_over:
  assumes "finite K"
  shows "(\<Sum>k \<in> K. fed k es) = sum_list (map (\<lambda>e. if fst e \<in> K then snd e else 0) es)"
proof (induction es)
  case Nil
  then show ?case by (simp add: fed_def)
next
  case (Cons e es)
  have "(\<Sum>k \<in> K. fed k (e # es)) = (\<Sum>k \<in> K. (if fst e = k then snd e else 0) + fed k es)"
    by (rule sum.cong) (auto simp: fed_def)
  with Cons assms show ?case by (simp add: sum.distrib)
qed

definition category_total :: "item_report \<Rightarrow> string \<Rightarrow> rat" where
  "category_total st cur = sum_list (map (\<lambda>k. if ce_currency k = cur then ce_total k else 0) (it_categories st))"

definition trend_total :: "item_report \<Rightarrow> string \<Rightarrow> string \<Rightarrow> rat" where
  "trend_total st cat cur =
     sum_list (map (\<lambda>e. if me_category e = cat \<and> me_currency e = cur then me_total e else 0) (it_monthly st))"

lemma category_entries_read:
  assumes "category_entries y s = (Inr cats, s')"
  shows "mset (map (\<lambda>k. ((ce_category k, ce_currency k), ce_total k)) cats) = mset (ty_totals y)"
proof -
  have "map (\<lambda>k. ((ce_category k, ce_currency k), ce_total k)) cats
      = map (\<lambda>e. e) (sort_key (\<lambda>e. (text_key (snd (fst e)), - snd e, text_key (fst (fst e)))) (ty_totals y))"
    using assms unfolding category_entries_def
    by (rule collect_map) (auto simp: bind_eq_Inr split: prod.splits)
  then show ?thesis by simp
qed

lemma sum_list_mset:
  fixes f :: "'r \<Rightarrow> 'a :: comm_monoid_add"
  shows "mset xs = mset ys \<Longrightarrow> sum_list (map f xs) = sum_list (map f ys)"
  by (metis mset_map sum_mset_sum_list)

lemma category_total_sum:
  assumes "category_entries y s = (Inr cats, s')" and "exact_rows rows" and y: "y = foldl tally no_tallies rows"
  shows "sum_list (map (\<lambda>k. if ce_currency k = cur then ce_total k else 0) cats)
    = sum_list (map (\<lambda>e. if snd (fst e) = cur then snd e else 0) (concat (map feed_total rows)))"
proof -
  let ?f = "\<lambda>e :: (string \<times> string) \<times> rat. if snd (fst e) = cur then snd e else 0"
  let ?es = "concat (map feed_total rows)"
  note d = tally_dicts [OF assms(2), folded y]
  have f: "(\<lambda>k. if ce_currency k = cur then ce_total k else 0) = ?f \<circ> (\<lambda>k. ((ce_category k, ce_currency k), ce_total k))"
    by (rule ext) simp
  have "sum_list (map (\<lambda>k. if ce_currency k = cur then ce_total k else 0) cats)
      = sum_list (map ?f (map (\<lambda>k. ((ce_category k, ce_currency k), ce_total k)) cats))"
    unfolding f by (simp only: map_map)
  also have "\<dots> = sum_list (map ?f (ty_totals y))"
    by (rule sum_list_mset) (rule category_entries_read [OF assms(1)])
  also have "\<dots> = (\<Sum>k \<in> fst ` set ?es. if snd k = cur then fed k ?es else 0)"
    unfolding map_of_sum [OF d(6), of "\<lambda>k. snd k = cur"] d(5) unfolding d(7) ..
  also have "\<dots> = (\<Sum>k \<in> {k \<in> fst ` set ?es. snd k = cur}. fed k ?es)"
    by (simp add: sum.inter_filter del: set_concat)
  also have "\<dots> = sum_list (map ?f ?es)"
    by (subst fed_over, simp, intro arg_cong [where f = sum_list] map_cong refl) (simp del: set_concat)
  finally show ?thesis .
qed

lemma collect_each: "collect xs f s = (Inr ys, s') \<Longrightarrow> x \<in> set xs \<Longrightarrow> \<exists>y t u. f x t = (Inr y, u)"
  by (induction xs arbitrary: s ys) (fastforce simp: bind_eq_Inr)+

text \<open>The months of the trend.\<close>

definition trend_months :: "date \<Rightarrow> int \<Rightarrow> date set" where
  "trend_months start months = {m. \<exists>k \<in> {0..months - 1}. month_start start k = Inr m}"

lemma sum_list_concat: "sum_list (concat xss) = sum_list (map sum_list xss)"
  by (induction xss) simp_all

lemma month_entries_read:
  fixes s :: 's
  assumes "month_entries y start months s = (Inr hist, s')"
    and "(cat, cur) \<in> set (map fst (ty_totals y))" and "distinct (map fst (ty_totals y))"
  shows "sum_list (map (\<lambda>e. if me_category e = cat \<and> me_currency e = cur then me_total e else 0) hist)
    = (\<Sum>m \<in> trend_months start months. amount_of (ty_monthly y) (m, cat, cur))"
proof -
  let ?keys = "sort_key (\<lambda>k. (text_key (fst k), text_key (snd k))) (map fst (ty_totals y))"
  let ?am = "amount_of (ty_monthly y)"
  let ?f = "\<lambda>e. if fst (snd e) = (cat, cur) then snd (snd e) else 0"
  let ?g = "\<lambda>e. (me_month e, (me_category e, me_currency e), me_total e)"
  define mo where "mo k = (case month_start start k of Inr m \<Rightarrow> m | Inl e \<Rightarrow> start)" for k
  define month_rows :: "int \<Rightarrow> ('s, month_entry list) py" where "month_rows k = bind (lift_result (month_start start k)) (\<lambda>month.
         collect ?keys (\<lambda>k. case k of (cat, cur) \<Rightarrow>
             let x = ?am (month, cat, cur) in
             bind (lift_result (percentage x (amount_of (ty_month y) (month, cur)))) (\<lambda>share.
               ret \<lparr>me_month = month, me_category = cat, me_currency = cur, me_total = x, me_share = share\<rparr>)))" for k
  obtain rows t where rows: "collect [0..months - 1] month_rows s = (Inr rows, t)" and hist: "hist = concat rows"
    using assms(1) unfolding month_entries_def month_rows_def by (auto simp: bind_eq_Inr)
  have each: "month_start start k = Inr (mo k)" if "k \<in> set [0..months - 1]" for k
    using collect_each [OF rows that] by (auto simp: month_rows_def bind_eq_Inr lift_result_eq_Inr mo_def)
  have one: "map ?g es = map (\<lambda>k. (mo j, k, ?am (mo j, k))) ?keys" if run: "month_rows j u = (Inr es, v)" for j es u v
  proof -
    obtain m where m: "month_start start j = Inr m"
      using run by (cases "month_start start j") (simp_all add: month_rows_def lift_result_def)
    have c: "collect ?keys (\<lambda>k. case k of (cat, cur) \<Rightarrow>
             let x = ?am (m, cat, cur) in
             bind (lift_result (percentage x (amount_of (ty_month y) (m, cur)))) (\<lambda>share.
               ret \<lparr>me_month = m, me_category = cat, me_currency = cur, me_total = x, me_share = share\<rparr>)) u = (Inr es, v)"
      using run unfolding month_rows_def m lift_result_def by simp
    show ?thesis using c by (rule collect_map) (auto simp: mo_def m Let_def bind_eq_Inr split: prod.splits)
  qed
  have "map (map ?g) rows = map (\<lambda>j. map (\<lambda>k. (mo j, k, ?am (mo j, k))) ?keys) [0..months - 1]"
    using rows by (rule collect_map) (rule one)
  then have "sum_list (map ?f (map ?g hist)) = sum_list (map (\<lambda>j. sum_list (map (\<lambda>k. ?f (mo j, k, ?am (mo j, k))) ?keys)) [0..months - 1])"
    unfolding hist map_concat sum_list_concat by (simp add: comp_def)
  also have "(\<lambda>j. sum_list (map (\<lambda>k. ?f (mo j, k, ?am (mo j, k))) ?keys)) = (\<lambda>j. ?am (mo j, cat, cur))"
  proof
    fix j
    have "sum_list (map (\<lambda>k. ?f (mo j, k, ?am (mo j, k))) ?keys) = (\<Sum>k \<in> set ?keys. if k = (cat, cur) then ?am (mo j, k) else 0)"
      using assms(3) by (subst sum_list_distinct_conv_sum_set) (simp_all cong: if_cong)
    also have "\<dots> = ?am (mo j, cat, cur)" using assms(2) by (subst sum.delta) auto
    finally show "sum_list (map (\<lambda>k. ?f (mo j, k, ?am (mo j, k))) ?keys) = ?am (mo j, cat, cur)" .
  qed
  also have "sum_list (map (\<lambda>j. ?am (mo j, cat, cur)) [0..months - 1]) = (\<Sum>j \<in> {0..months - 1}. ?am (mo j, cat, cur))"
    by (subst sum_list_distinct_conv_sum_set) simp_all
  also have "\<dots> = (\<Sum>m \<in> mo ` {0..months - 1}. ?am (m, cat, cur))"
  proof (subst sum.reindex)
    show "inj_on mo {0..months - 1}"
    proof (rule inj_onI)
      fix a b assume "a \<in> {0..months - 1}" "b \<in> {0..months - 1}" "mo a = mo b"
      have "month_index (mo k) = month_index start + k" if "k \<in> {0..months - 1}" for k
        using that by (intro month_index_month_start each) simp
      then have "month_index start + a = month_index start + b"
        using \<open>a \<in> _\<close> \<open>b \<in> _\<close> \<open>mo a = mo b\<close> by metis
      then show "a = b" by simp
    qed
  qed simp
  also have "mo ` {0..months - 1} = trend_months start months"
  proof
    show "mo ` {0..months - 1} \<subseteq> trend_months start months" using each by (auto simp: trend_months_def)
    show "trend_months start months \<subseteq> mo ` {0..months - 1}" by (auto simp: trend_months_def mo_def intro!: rev_image_eqI)
  qed
  finally have sum: "sum_list (map (?f \<circ> ?g) hist) = (\<Sum>m \<in> trend_months start months. ?am (m, cat, cur))"
    by (simp only: map_map)
  have f: "?f \<circ> ?g = (\<lambda>e. if me_category e = cat \<and> me_currency e = cur then me_total e else 0)"
    by (rule ext) simp
  show ?thesis using sum unfolding f .
qed

section \<open>The months of the statement\<close>

lemma months_covered:
  assumes "month_start today (1 - months) = Inr from" and "from \<le> d" and "d \<le> today" and "valid_date d" and "valid_date today"
  shows "trunc_month d \<in> trend_months from months"
proof -
  have idx: "month_index from = month_index today + (1 - months)" using month_index_month_start [OF assms(1)] .
  have day: "date_day from = 1" using assms(1) by (simp add: month_start_Inr)
  have v: "1 \<le> date_month e \<and> date_month e \<le> 12 \<and> 1 \<le> date_year e \<and> date_year e \<le> 9999" if "valid_date e" for e
    using that by (simp add: valid_date_def mk_date_def split: if_splits)
  have f: "1 \<le> date_month from \<and> date_month from \<le> 12"
  proof -
    have "0 \<le> n mod 12 \<and> n mod 12 < 12" for n :: int by simp
    then show ?thesis using assms(1) by (auto simp: month_start_Inr)
  qed
  have lo: "month_index from \<le> month_index d" and hi: "month_index d \<le> month_index today"
    using assms(2,3) f v [OF assms(4)] v [OF assms(5)] by (auto simp: less_eq_date_def month_index_def)
  have "month_start from (month_index d - month_index from) = Inr (trunc_month d)"
    using v [OF assms(4)] by (auto simp: month_start_Inr month_index_def trunc_month_def)
  with lo hi idx show ?thesis by (auto simp: trend_months_def intro!: bexI [of _ "month_index d - month_index from"])
qed

lemma row_months:
  assumes "ItemTotal m cat cur x \<in> set (item_total_rows (scoped_receipts from today u see coll w) items)"
  shows "\<exists>r \<in> set (receipts_t w). m = trunc_month (r_date r) \<and> from \<le> r_date r \<and> r_date r \<le> today"
  using assms
  by (auto simp: item_total_rows_def group_by_def scoped_items_def item_key_def scoped_receipts_def in_range_def stats_rows_def)

lemma fed_append [simp]: "fed k (xs @ ys) = fed k xs + fed k ys"
  by (simp add: fed_def)

lemma items_split:
  "fed cur (concat (map feed_item rows)) = fed cur (concat (map feed_deposit rows))
    + sum_list (map (\<lambda>e. if snd (fst e) = cur then snd e else 0) (concat (map feed_total rows)))"
proof (induction rows)
  case (Cons r rows)
  then show ?case
    by (cases r) (auto simp: feed_item_def feed_deposit_def feed_total_def feed_month_def fed_def)
qed (simp add: fed_def)

lemma trend_covers:
  assumes "finite M" and "\<And>r m c cur x. r \<in> set rows \<Longrightarrow> r = ItemTotal m c cur x \<Longrightarrow> m \<in> M"
  shows "(\<Sum>m \<in> M. fed (m, k) (concat (map feed_month rows))) = fed k (concat (map feed_total rows))"
proof -
  let ?es = "concat (map feed_month rows)"
  have in_M: "fst (fst e) \<in> M" if "e \<in> set ?es" for e
    using that assms(2) by (auto simp: feed_month_def split: total_row.splits if_splits)
  have inj: "inj_on (\<lambda>m. (m, k)) M" by (simp add: inj_on_def)
  have "(\<Sum>m \<in> M. fed (m, k) ?es) = (\<Sum>j \<in> (\<lambda>m. (m, k)) ` M. fed j ?es)" by (simp only: sum.reindex [OF inj] comp_def)
  also have "\<dots> = sum_list (map (\<lambda>e. if snd (fst e) = k then snd e else 0) ?es)"
    unfolding fed_over [OF finite_imageI [OF assms(1)]]
    by (intro arg_cong [where f = sum_list] map_cong refl) (use in_M in \<open>force simp del: set_concat\<close>)
  also have "\<dots> = fed k (concat (map feed_total rows))"
  proof (induction rows)
    case (Cons r rows)
    then show ?case by (cases r) (auto simp: fed_def feed_total_def feed_month_def)
  qed (simp add: fed_def)
  finally show ?thesis .
qed

lemma group_by_cond:
  fixes g :: "'r \<Rightarrow> rat"
  shows "sum_list (map (\<lambda>p. if c (fst p) then sum_list (map g (snd p)) else 0) (group_by key rs))
    = sum_list (map (\<lambda>r. if c (key r) then g r else 0) rs)"
proof -
  have "(if c (fst p) then sum_list (map g (snd p)) else 0) = sum_list (map (\<lambda>r. if c (key r) then g r else 0) (snd p))"
    if "p \<in> set (group_by key rs)" for p
  proof -
    have l: "map (\<lambda>r. if c (key r) then g r else 0) (snd p) = map (\<lambda>r. if c (fst p) then g r else 0) (snd p)"
      using that by (intro map_cong) (auto simp: group_by_def)
    show ?thesis unfolding l by simp
  qed
  then have "map (\<lambda>p. if c (fst p) then sum_list (map g (snd p)) else 0) (group_by key rs)
      = map (\<lambda>p. sum_list (map (\<lambda>r. if c (key r) then g r else 0) (snd p))) (group_by key rs)" by simp
  then show ?thesis by (simp only: group_by_sum)
qed

definition receipts_total :: "receipt_row list \<Rightarrow> string \<Rightarrow> rat" where
  "receipts_total rs cur = sum_list (map (\<lambda>r. if r_currency r = cur then r_total r else 0) rs)"

definition items_total :: "(receipt_row \<times> item_row) list \<Rightarrow> string \<Rightarrow> rat" where
  "items_total ps cur = sum_list (map (\<lambda>p. if r_currency (fst p) = cur then li_total_price (snd p) else 0) ps)"

lemma statement_sums:
  "fed cur (concat (map feed_receipt (item_total_rows rs items))) = receipts_total rs cur"
  "fed cur (concat (map feed_item (item_total_rows rs items))) = items_total (scoped_items rs items) cur"
proof -
  have none: "concat (map feed_receipt (map (\<lambda>g. case g of ((m, cat, cur), ps) \<Rightarrow> ItemTotal m cat cur (f ps)) gs)) = []"
    "concat (map feed_item (map (\<lambda>g. case g of (cur, qs) \<Rightarrow> ReceiptTotal cur (h qs)) hs)) = []" for f gs and h :: "receipt_row list \<Rightarrow> rat" and hs
    by (auto simp: feed_receipt_def feed_item_def split: prod.splits)
  have a: "fed cur (concat (map feed_receipt (map (\<lambda>g. case g of (cur, qs) \<Rightarrow> ReceiptTotal cur (sum_list (map r_total qs))) gs)))
      = sum_list (map (\<lambda>p. if fst p = cur then sum_list (map r_total (snd p)) else 0) gs)" for gs
    by (induction gs) (auto simp: fed_def feed_receipt_def split: prod.splits)
  show "fed cur (concat (map feed_receipt (item_total_rows rs items))) = receipts_total rs cur"
    unfolding item_total_rows_def map_append concat_append none append_Nil receipts_total_def
    by (simp only: a group_by_cond [of "\<lambda>k. k = cur"])
  have b: "fed cur (concat (map feed_item (map (\<lambda>g. case g of ((m, cat, cur), ps) \<Rightarrow> ItemTotal m cat cur (sum_list (map (li_total_price \<circ> snd) ps))) gs)))
      = sum_list (map (\<lambda>p. if snd (snd (fst p)) = cur then sum_list (map (li_total_price \<circ> snd) (snd p)) else 0) gs)" for gs
    by (induction gs) (auto simp: fed_def feed_item_def comp_def split: prod.splits)
  show "fed cur (concat (map feed_item (item_total_rows rs items))) = items_total (scoped_items rs items) cur"
    unfolding item_total_rows_def map_append concat_append none append_Nil2 items_total_def
    by (simp only: b group_by_cond [of "\<lambda>k. snd (snd k) = cur"] item_key_def snd_conv comp_apply cong: if_cong)
qed

lemma unallocated_exact:
  assumes "exact_rows rows"
  shows "dec28 (fed c (concat (map feed_receipt rows)) - fed c (concat (map feed_item rows)))
    = fed c (concat (map feed_receipt rows)) - fed c (concat (map feed_item rows))"
proof (rule dec28_cents)
  let ?r = "concat (map feed_receipt rows)" and ?i = "concat (map feed_item rows)"
  have "cents (fed c ?r)" "cents (fed c ?i)"
    using feeds_exact [OF assms feed_shapes(1)] feeds_exact [OF assms feed_shapes(2)] by (simp_all add: fed_cents)
  then show "cents (fed c ?r - fed c ?i)" by (simp add: cents_def left_diff_distrib)
  have w: "weight (concat (map feed_receipt rows)) + weight (concat (map feed_item rows)) = sum_list (map (\<lambda>r. \<bar>tr_total r\<bar>) rows)" for rows
  proof (induction rows)
    case (Cons r rows)
    then show ?case by (cases r) (auto simp: weight_def feed_receipt_def feed_item_def)
  qed (simp add: weight_def)
  show "\<bar>fed c ?r - fed c ?i\<bar> < 10 ^ 26"
    using w [of rows] assms fed_weight [of c ?r] fed_weight [of c ?i] unfolding exact_rows_def by linarith
qed

lemma item_statistics_reads: "keeps P (item_statistics today u see months coll)"
  by (auto simp: item_statistics_def get_totals_def build_item_statistics_def category_entries_def month_entries_def Let_def
      intro!: keeps_intro)

text \<open>One line of the reconciliation, and one line of the categories.\<close>

lemma reconciled_line:
  assumes ex: "exact_rows rows" and y: "y = foldl tally no_tallies rows" and rows: "rows = item_total_rows rs is"
    and cats: "category_entries y w = (Inr cats, v)" and e: "e \<in> set (reconciliation_entries y)"
  shows "rn_receipt_total e = receipts_total rs (rn_currency e)
    \<and> rn_item_total e = items_total (scoped_items rs is) (rn_currency e)
    \<and> rn_item_total e = rn_deposit_total e
        + sum_list (map (\<lambda>k. if ce_currency k = rn_currency e then ce_total k else 0) cats)
    \<and> rn_receipt_total e = rn_item_total e + rn_unallocated e"
proof -
  note d = tally_dicts [OF ex, folded y]
  have r: "rn_receipt_total e = fed (rn_currency e) (concat (map feed_receipt rows))"
    "rn_item_total e = fed (rn_currency e) (concat (map feed_item rows))"
    "rn_deposit_total e = fed (rn_currency e) (concat (map feed_deposit rows))"
    "rn_unallocated e = rn_receipt_total e - rn_item_total e"
    using e unallocated_exact [OF ex] by (auto simp: reconciliation_entries_def d y [symmetric])
  moreover have "sum_list (map (\<lambda>k. if ce_currency k = rn_currency e then ce_total k else 0) cats)
      = sum_list (map (\<lambda>x. if snd (fst x) = rn_currency e then snd x else 0) (concat (map feed_total rows)))"
    using category_total_sum [OF cats ex y] .
  moreover have "fed (rn_currency e) (concat (map feed_receipt rows)) = receipts_total rs (rn_currency e)"
    "fed (rn_currency e) (concat (map feed_item rows)) = items_total (scoped_items rs is) (rn_currency e)"
    unfolding rows statement_sums by (rule refl)+
  ultimately show ?thesis using items_split [of "rn_currency e" rows] by (metis add.commute diff_add_cancel)
qed

lemma trend_line:
  assumes ex: "exact_rows rows" and y: "y = foldl tally no_tallies rows"
    and rows: "rows = item_total_rows (scoped_receipts from today u see coll w) items"
    and start: "month_start today (1 - months) = Inr from" "valid_date today" "\<forall>r \<in> set (receipts_t w). valid_date (r_date r)"
    and cats: "category_entries y v = (Inr cats, v')" and hist: "month_entries y from months s = (Inr hist, s')"
    and k: "k \<in> set cats"
  shows "sum_list (map (\<lambda>e. if me_category e = ce_category k \<and> me_currency e = ce_currency k then me_total e else 0) hist) = ce_total k"
proof -
  note d = tally_dicts [OF ex, folded y]
  let ?k = "(ce_category k, ce_currency k)"
  have "(?k, ce_total k) \<in> set (map (\<lambda>k. ((ce_category k, ce_currency k), ce_total k)) cats)" using k by simp
  then have entry: "(?k, ce_total k) \<in> set (ty_totals y)" using category_entries_read [OF cats] mset_eq_setD by blast
  then have "ce_total k = amount_of (ty_totals y) ?k" using d(6) by (simp add: amount_of_def)
  also have "\<dots> = fed ?k (concat (map feed_total rows))" by (rule d(5))
  also have "\<dots> = (\<Sum>m \<in> trend_months from months. fed (m, ?k) (concat (map feed_month rows)))"
  proof (rule trend_covers [symmetric])
    have "trend_months from months \<subseteq> (\<lambda>j. projr (month_start from j)) ` {0..months - 1}"
      by (auto simp: trend_months_def image_iff) force
    then show "finite (trend_months from months)" by (rule finite_subset) simp
    show "m \<in> trend_months from months" if "r \<in> set rows" "r = ItemTotal m c cur x" for r m c cur x
      using that row_months [of m c cur x "from" today u see coll w items] months_covered [OF start(1)] start(2,3)
      by (auto simp: rows)
  qed
  finally show ?thesis
    using month_entries_read [OF hist _ d(6), of "ce_category k" "ce_currency k"] entry by (force simp: d(4))
qed

text \<open>
  Property C30: spending adds up. If the amounts the statement returns are whole cents that together
  stay below 10^26, then for every currency the page's receipt total is the sum of the receipts in
  scope and its item total the sum of their items; deposits and the categories together are the item
  total, and items plus the unallocated rest the receipt total, without rounding loss. The monthly
  trend of every category adds up to the category's total, and nothing is written.
\<close>

theorem item_statistics_reconcile:
  assumes "month_start today (1 - months) = Inr from" and "valid_date today"
    and "\<forall>r \<in> set (receipts_t w). valid_date (r_date r)"
    and "exact_rows (item_total_rows (scoped_receipts from today u see coll w) (items_t w))"
    and "item_statistics today u see months coll w = (Inr st, w')"
  shows "w' = w
    \<and> (\<forall>e \<in> set (it_reconciliation st).
         rn_receipt_total e = receipts_total (scoped_receipts from today u see coll w) (rn_currency e)
         \<and> rn_item_total e = items_total (scoped_items (scoped_receipts from today u see coll w) (items_t w)) (rn_currency e)
         \<and> rn_item_total e = rn_deposit_total e + category_total st (rn_currency e)
         \<and> rn_receipt_total e = rn_item_total e + rn_unallocated e)
    \<and> (\<forall>k \<in> set (it_categories st). trend_total st (ce_category k) (ce_currency k) = ce_total k)"
proof -
  define rows where "rows = item_total_rows (scoped_receipts from today u see coll w) (items_t w)"
  define y where "y = foldl tally no_tallies rows"
  have ex: "exact_rows rows" using assms(4) by (simp add: rows_def)
  obtain cats w1 hist w2 where cats: "category_entries y w = (Inr cats, w1)"
    and hist: "month_entries y from months w1 = (Inr hist, w2)"
    and st: "st = \<lparr>it_months = months, it_from = from, it_to = today, it_categories = cats, it_monthly = hist,
            it_reconciliation = reconciliation_entries y\<rparr>"
    using assms(5)
    by (auto simp: item_statistics_def assms(1) lift_result_def get_totals_def build_item_statistics_def Let_def bind_eq_Inr
        rows_def [symmetric] y_def [symmetric])
  have "\<forall>e \<in> set (it_reconciliation st).
         rn_receipt_total e = receipts_total (scoped_receipts from today u see coll w) (rn_currency e)
         \<and> rn_item_total e = items_total (scoped_items (scoped_receipts from today u see coll w) (items_t w)) (rn_currency e)
         \<and> rn_item_total e = rn_deposit_total e + category_total st (rn_currency e)
         \<and> rn_receipt_total e = rn_item_total e + rn_unallocated e"
    unfolding st category_total_def item_report.select_convs by (rule ballI) (rule reconciled_line [OF ex y_def rows_def cats])
  moreover have "\<forall>k \<in> set (it_categories st). trend_total st (ce_category k) (ce_currency k) = ce_total k"
    using trend_line [OF ex y_def rows_def assms(1-3) cats hist] by (simp add: st trend_total_def)
  moreover have "w' = w" using keeps_run [OF item_statistics_reads [of "\<lambda>s. s = w"] refl assms(5)] .
  ultimately show ?thesis by blast
qed

lemma item_statistics_reconcile_witness:
  "\<exists>st. item_statistics (Date 2025 3 10) 8 False 1 None search_world = (Inr st, search_world)
    \<and> map rn_receipt_total (it_reconciliation st) = [3]
    \<and> (\<forall>e \<in> set (it_reconciliation st). rn_item_total e = rn_deposit_total e + category_total st (rn_currency e)
        \<and> rn_receipt_total e = rn_item_total e + rn_unallocated e)
    \<and> (\<forall>k \<in> set (it_categories st). trend_total st (ce_category k) (ce_currency k) = ce_total k)"
proof -
  let ?rows = "[ItemTotal (Date 2025 3 1) ''unknown'' ''EUR'' 1, ReceiptTotal ''EUR'' 3]"
  define y where "y = foldl tally no_tallies ?rows"
  have 1: "month_start (Date 2025 3 10) (1 - 1) = Inr (Date 2025 3 1)" by code_simp
  have 2: "valid_date (Date 2025 3 10)" by code_simp
  have 3: "list_all (\<lambda>r. valid_date (r_date r)) (receipts_t search_world)" by code_simp
  have rows: "item_total_rows (scoped_receipts (Date 2025 3 1) (Date 2025 3 10) 8 False None search_world) (items_t search_world) = ?rows"
    by code_simp
  have 4: "exact_rows (item_total_rows (scoped_receipts (Date 2025 3 1) (Date 2025 3 10) 8 False None search_world) (items_t search_world))"
    unfolding rows by code_simp
  have tot: "ty_totals y = [((''unknown'', ''EUR''), 1)]" unfolding y_def by code_simp
  have am: "amount_of (ty_currency y) ''EUR'' = 1 \<and> amount_of (ty_month y) (Date 2025 3 1, ''EUR'') = 1
      \<and> amount_of (ty_monthly y) (Date 2025 3 1, ''unknown'', ''EUR'') = 1"
    unfolding y_def by code_simp
  have pct: "percentage 1 1 = Inr (Some 100)" by code_simp
  have start: "month_start (Date 2025 3 1) 0 = Inr (Date 2025 3 1)" by code_simp
  have recon: "map rn_receipt_total (reconciliation_entries y) = [3]" unfolding y_def by code_simp
  have cats: "\<exists>cs. category_entries y w = (Inr cs, w)" for w :: world
    by (simp add: category_entries_def tot am pct lift_result_def)
  have hist: "\<exists>hs. month_entries y (Date 2025 3 1) 1 w = (Inr hs, w)" for w :: world
    by (simp add: month_entries_def tot am pct start lift_result_def Let_def)
  obtain cs hs where "category_entries y search_world = (Inr cs, search_world)"
    "month_entries y (Date 2025 3 1) 1 search_world = (Inr hs, search_world)" using cats hist by blast
  then obtain st where run: "item_statistics (Date 2025 3 10) 8 False 1 None search_world = (Inr st, search_world)"
    and "it_reconciliation st = reconciliation_entries y"
    using 1 rows by (simp add: item_statistics_def get_totals_def build_item_statistics_def Let_def lift_result_def
        y_def del: foldl_Cons)
  then show ?thesis
    using item_statistics_reconcile [OF 1 2 _ 4 run] 3 recon by (auto simp: list_all_iff)
qed

end
