(* ===== verification/ImageFiles.thy ===== *)
theory ImageFiles
  imports CollectionStore
begin

text \<open>
  Files on disk: service/image_service.py (ImageService) over \<open>w_files\<close>, the path algebra of
  pathlib it uses, and the textual form of identifiers that names the files. The type sniffer
  (libmagic) and the thumbnail codec (Pillow) are arguments, in the record \<open>image_cfg\<close>.
\<close>

section \<open>Identifiers as text\<close>

definition hex_digit :: "nat \<Rightarrow> char" where
  "hex_digit d = char_of (if d < 10 then 48 + d else 87 + d)"

primrec hex_digits :: "nat \<Rightarrow> nat \<Rightarrow> string" where
  "hex_digits 0 n = []"
| "hex_digits (Suc w) n = hex_digits w (n div 16) @ [hex_digit (n mod 16)]"

text \<open>\<open>UUID.hex\<close> and \<open>str(UUID)\<close>\<close>

definition uuid_hex :: "uuid \<Rightarrow> string" where
  "uuid_hex u = hex_digits 32 (unat u)"

definition uuid_str :: "uuid \<Rightarrow> string" where
  "uuid_str u = (let h = uuid_hex u in
     take 8 h @ ''-'' @ take 4 (drop 8 h) @ ''-'' @ take 4 (drop 12 h) @ ''-'' @ take 4 (drop 16 h) @ ''-'' @ drop 20 h)"

lemma code_of_hex_digit: "d < 16 \<Longrightarrow> code_of (hex_digit d) = (if d < 10 then 48 + d else 87 + d)"
  by (simp add: code_of_def hex_digit_def)

lemma hex_digit_inj:
  assumes "a < 16" and "b < 16" and "hex_digit a = hex_digit b"
  shows "a = b"
proof -
  have "(if a < 10 then 48 + a else 87 + a) = (if b < 10 then 48 + b else 87 + b)"
    using assms code_of_hex_digit by metis
  then show ?thesis by (simp split: if_splits)
qed

lemma length_hex_digits [simp]: "length (hex_digits w n) = w"
  by (induction w arbitrary: n) auto

lemma hex_digits_inj: "m < 16 ^ w \<Longrightarrow> n < 16 ^ w \<Longrightarrow> hex_digits w m = hex_digits w n \<Longrightarrow> m = n"
proof (induction w arbitrary: m n)
  case (Suc w)
  have lt: "k div 16 < 16 ^ w" if "k < 16 ^ Suc w" for k :: nat
    by (rule less_mult_imp_div_less) (use that in \<open>simp add: mult.commute\<close>)
  have d: "hex_digits w (m div 16) = hex_digits w (n div 16)" and h: "hex_digit (m mod 16) = hex_digit (n mod 16)"
    using Suc.prems(3) by simp_all
  have "m div 16 = n div 16" using Suc.IH [OF lt [OF Suc.prems(1)] lt [OF Suc.prems(2)] d] .
  moreover have "m mod 16 = n mod 16" by (rule hex_digit_inj [OF _ _ h]) simp_all
  ultimately show ?case by (metis div_mult_mod_eq)
qed simp

lemma length_uuid_hex [simp]: "length (uuid_hex u) = 32"
  by (simp add: uuid_hex_def)

lemma uuid_hex_inj: "uuid_hex u = uuid_hex v \<Longrightarrow> u = v"
proof -
  have b: "unat u < 16 ^ 32" for u :: uuid using unsigned_less [of u] by simp
  assume "uuid_hex u = uuid_hex v"
  then have "unat u = unat v" unfolding uuid_hex_def by (rule hex_digits_inj [OF b b])
  then show "u = v" by (rule unsigned_word_eqI)
qed

lemma uuid_hex_parts:
  "uuid_hex u = take 8 (uuid_hex u) @ take 4 (drop 8 (uuid_hex u)) @ take 4 (drop 12 (uuid_hex u))
     @ take 4 (drop 16 (uuid_hex u)) @ drop 20 (uuid_hex u)"
proof -
  let ?h = "uuid_hex u"
  have "take 4 (drop 16 ?h) @ drop 20 ?h = drop 16 ?h" using append_take_drop_id [of 4 "drop 16 ?h"] by simp
  moreover have "take 4 (drop 12 ?h) @ drop 16 ?h = drop 12 ?h" using append_take_drop_id [of 4 "drop 12 ?h"] by simp
  moreover have "take 4 (drop 8 ?h) @ drop 12 ?h = drop 8 ?h" using append_take_drop_id [of 4 "drop 8 ?h"] by simp
  ultimately show ?thesis using append_take_drop_id [of 8 ?h] by (simp only:)
qed

lemma uuid_str_inj:
  assumes "uuid_str u = uuid_str v"
  shows "u = v"
proof -
  have "take 8 (uuid_hex u) = take 8 (uuid_hex v)" "take 4 (drop 8 (uuid_hex u)) = take 4 (drop 8 (uuid_hex v))"
    "take 4 (drop 12 (uuid_hex u)) = take 4 (drop 12 (uuid_hex v))"
    "take 4 (drop 16 (uuid_hex u)) = take 4 (drop 16 (uuid_hex v))" "drop 20 (uuid_hex u) = drop 20 (uuid_hex v)"
    using assms by (simp_all add: uuid_str_def Let_def)
  then have "uuid_hex u = uuid_hex v" using uuid_hex_parts [of u] uuid_hex_parts [of v] by simp
  then show ?thesis by (rule uuid_hex_inj)
qed

section \<open>Paths\<close>

text \<open>Slash-separated paths without a trailing slash; \<open>Path("")\<close> is written \<open>[]\<close>.\<close>

definition path_name :: "string \<Rightarrow> string" where
  "path_name p = rev (takeWhile (\<lambda>c. c \<noteq> CHR ''/'') (rev p))"

definition path_parent :: "string \<Rightarrow> string" where
  "path_parent p = rev (drop 1 (dropWhile (\<lambda>c. c \<noteq> CHR ''/'') (rev p)))"

definition path_join :: "string \<Rightarrow> string \<Rightarrow> string" where
  "path_join d n = d @ ''/'' @ n"

text \<open>
  \<open>Path.suffix\<close>: from the last dot of the name, unless it is the first or the last character;
  \<open>Path.stem\<close> is the rest.
\<close>

definition path_suffix :: "string \<Rightarrow> string" where
  "path_suffix p = (let n = path_name p; e = rev (takeWhile (\<lambda>c. c \<noteq> CHR ''.'') (rev n)) in
     if e = [] \<or> length n \<le> Suc (length e) then [] else CHR ''.'' # e)"

definition path_stem :: "string \<Rightarrow> string" where
  "path_stem p = take (length (path_name p) - length (path_suffix p)) (path_name p)"

definition thumb_for :: "string \<Rightarrow> string" where
  "thumb_for p = path_join (path_join (path_parent p) ''thumbnails'') (path_stem p @ ''.thumb.webp'')"

lemma path_name_join [simp]:
  assumes "CHR ''/'' \<notin> set n"
  shows "path_name (path_join d n) = n"
proof -
  have "takeWhile (\<lambda>c. c \<noteq> CHR ''/'') (rev n @ CHR ''/'' # rev d) = rev n"
    using assms by (subst takeWhile_append2) auto
  then show ?thesis by (simp add: path_name_def path_join_def)
qed

lemma path_parent_join [simp]:
  assumes "CHR ''/'' \<notin> set n"
  shows "path_parent (path_join d n) = d"
proof -
  have "\<forall>c \<in> set (rev n). c \<noteq> CHR ''/''" using assms by auto
  then have "dropWhile (\<lambda>c. c \<noteq> CHR ''/'') (rev n @ CHR ''/'' # rev d) = dropWhile (\<lambda>c. c \<noteq> CHR ''/'') (CHR ''/'' # rev d)"
    by (intro dropWhile_append2) blast
  then show ?thesis by (simp add: path_parent_def path_join_def)
qed

section \<open>ImageService\<close>

record image_cfg =
  ic_tmp :: string
  ic_save :: string
  ic_sniff :: "string \<Rightarrow> string"
  ic_thumb :: "string \<Rightarrow> string option"

definition file_exists :: "string \<Rightarrow> world \<Rightarrow> bool" where
  "file_exists p w \<longleftrightarrow> w_files w p \<noteq> None"

definition ALLOWED_IMAGE_TYPES :: "string list" where
  "ALLOWED_IMAGE_TYPES = [''image/jpeg'', ''image/png'', ''image/webp'', ''image/heic'', ''image/heif'', ''image/gif'']"

definition SNIFF_CHUNK :: nat where
  "SNIFF_CHUNK = 4096"

definition get_media_type :: "image_cfg \<Rightarrow> string \<Rightarrow> string" where
  "get_media_type cfg content = ic_sniff cfg (take SNIFF_CHUNK content)"

text \<open>The media type and byte size of accepted content; ImageInfo refuses an empty file.\<close>

definition validate_and_inspect :: "image_cfg \<Rightarrow> string \<Rightarrow> (world, string \<times> int) py" where
  "validate_and_inspect cfg content =
     (let media = get_media_type cfg content in
      if media \<notin> set ALLOWED_IMAGE_TYPES then raise (UnsupportedImageTypeError media)
      else if content = [] then raise (ValueError ''size_bytes must be greater than 0'')
      else ret (media, int (length content)))"

definition write_file :: "string \<Rightarrow> string \<Rightarrow> (world, unit) py" where
  "write_file p content = modify (\<lambda>w. w\<lparr>w_files := (w_files w)(p := Some content)\<rparr>)"

definition unlink :: "string \<Rightarrow> (world, unit) py" where
  "unlink p = modify (\<lambda>w. w\<lparr>w_files := (w_files w)(p := None)\<rparr>)"

definition move_file :: "string \<Rightarrow> string \<Rightarrow> (world, unit) py" where
  "move_file src dst = modify (\<lambda>w. w\<lparr>w_files := (w_files w)(src := None, dst := w_files w src)\<rparr>)"

definition store_tmp_image :: "image_cfg \<Rightarrow> string \<Rightarrow> (world, string) py" where
  "store_tmp_image cfg content = bind gen_uuid (\<lambda>k.
     (let p = path_join (ic_tmp cfg) (''temp_'' @ uuid_str k @ ''.png'') in
      seq (write_file p content) (ret p)))"

definition perm_name :: "uuid \<Rightarrow> string \<Rightarrow> string" where
  "perm_name receipt_id tmp = ''receipt_'' @ uuid_str receipt_id @ path_suffix tmp"

definition perm_path :: "image_cfg \<Rightarrow> string \<Rightarrow> uuid \<Rightarrow> (world, string) py" where
  "perm_path cfg tmp receipt_id =
     (let p = path_join (ic_save cfg) (perm_name receipt_id tmp) in
      bind (gets (file_exists p)) (\<lambda>taken.
        if taken then bind gen_uuid (\<lambda>k.
          ret (path_join (ic_save cfg) (uuid_hex k @ ''_'' @ perm_name receipt_id tmp)))
        else ret p))"

definition store_perm_image :: "image_cfg \<Rightarrow> string \<Rightarrow> uuid \<Rightarrow> (world, string option \<times> string option) py" where
  "store_perm_image cfg tmp receipt_id =
     bind (gets (file_exists tmp)) (\<lambda>there.
       if \<not> there then ret (None, None)
       else bind (perm_path cfg tmp receipt_id) (\<lambda>dest.
         seq (move_file tmp dest)
         (bind (gets (file_exists (thumb_for tmp))) (\<lambda>thumb.
           if thumb then seq (move_file (thumb_for tmp) (thumb_for dest)) (ret (Some dest, Some (thumb_for dest)))
           else ret (Some dest, None)))))"

definition delete_image :: "string option \<Rightarrow> (world, bool) py" where
  "delete_image image_path = (case image_path of
     None \<Rightarrow> ret False
   | Some p \<Rightarrow> bind (gets (file_exists p)) (\<lambda>there.
       if \<not> there then ret False
       else seq (unlink p)
         (bind (gets (file_exists (thumb_for p))) (\<lambda>thumb.
           seq (if thumb then unlink (thumb_for p) else ret ()) (ret True)))))"

text \<open>A thumbnail that cannot be made is no thumbnail; nothing is raised.\<close>

definition generate_thumbnail :: "image_cfg \<Rightarrow> string \<Rightarrow> (world, string option) py" where
  "generate_thumbnail cfg src = bind (gets (\<lambda>w. w_files w src)) (\<lambda>content.
     case content of None \<Rightarrow> ret None
     | Some c \<Rightarrow> (case ic_thumb cfg c of None \<Rightarrow> ret None
         | Some t \<Rightarrow> seq (write_file (thumb_for src) t) (ret (Some (thumb_for src)))))"

section \<open>Frame\<close>

definition same_tables :: "world \<Rightarrow> world \<Rightarrow> bool" where
  "same_tables v w \<longleftrightarrow> w\<lparr>w_files := w_files v, w_tick := w_tick v, w_clock := w_clock v\<rparr> = v"

lemma same_tables_refl [simp]: "same_tables w w"
  by (simp add: same_tables_def)

lemma same_tables_trans:
  assumes "same_tables u v" and "same_tables v w"
  shows "same_tables u w"
proof -
  have v: "v = w\<lparr>w_files := w_files v, w_tick := w_tick v, w_clock := w_clock v\<rparr>"
    using assms(2) by (simp add: same_tables_def)
  have "v\<lparr>w_files := w_files u, w_tick := w_tick u, w_clock := w_clock u\<rparr> = u"
    using assms(1) by (simp add: same_tables_def)
  then show ?thesis by (subst (asm) v) (simp add: same_tables_def)
qed

lemma same_tables_ok: "same_tables v w \<Longrightarrow> db_ok w = db_ok v"
  unfolding same_tables_def by (metis db_ok_other(1-3))

definition only_files :: "(world, 'a) py \<Rightarrow> bool" where
  "only_files m \<longleftrightarrow> (\<forall>w. same_tables w (snd (m w)))"

named_theorems only_files_intro \<open>actions that touch only files, identifiers and the clock\<close>

lemma only_files_basic [only_files_intro]:
  "only_files (ret x)" "only_files (raise e)" "only_files (gets f)" "only_files gen_uuid"
  "only_files (write_file p s)" "only_files (unlink p)" "only_files (move_file p q)"
  by (simp_all add: only_files_def gen_uuid_def write_file_def unlink_def move_file_def same_tables_def)

lemma only_files_bind [only_files_intro]:
  "only_files m \<Longrightarrow> (\<And>x. only_files (f x)) \<Longrightarrow> only_files (bind m f)"
  unfolding only_files_def bind_def
  by (auto split: prod.split sum.split) (metis same_tables_trans snd_conv)+

lemma only_files_seq [only_files_intro]: "only_files m \<Longrightarrow> only_files n \<Longrightarrow> only_files (seq m n)"
  by (simp add: seq_def only_files_bind)

lemma only_files_if [only_files_intro]:
  "only_files m \<Longrightarrow> only_files n \<Longrightarrow> only_files (if b then m else n)"
  by simp

lemma only_files_option [only_files_intro]:
  "only_files m \<Longrightarrow> (\<And>x. only_files (f x)) \<Longrightarrow> only_files (case r of None \<Rightarrow> m | Some x \<Rightarrow> f x)"
  by (cases r) simp_all

lemma only_files_ops [only_files_intro]:
  "only_files (store_tmp_image cfg s)" "only_files (perm_path cfg p r)" "only_files (store_perm_image cfg p r)"
  "only_files (delete_image q)" "only_files (generate_thumbnail cfg p)" "only_files (validate_and_inspect cfg s)"
  unfolding store_tmp_image_def perm_path_def store_perm_image_def delete_image_def generate_thumbnail_def
    validate_and_inspect_def Let_def
  by (intro only_files_intro)+

lemma only_files_keeps: "only_files m \<Longrightarrow> keeps db_ok m"
  unfolding only_files_def keeps_def by (metis same_tables_ok)

lemma file_ops_ok [keeps_intro]:
  "keeps db_ok (store_tmp_image cfg s)" "keeps db_ok (store_perm_image cfg p r)"
  "keeps db_ok (delete_image q)" "keeps db_ok (generate_thumbnail cfg p)" "keeps db_ok (validate_and_inspect cfg s)"
  "keeps db_ok (write_file p s)" "keeps db_ok (unlink p)"
  by (rule only_files_keeps only_files_ops only_files_basic)+

section \<open>What moving and deleting do\<close>

lemma no_slash [simp]:
  "CHR ''/'' \<notin> set (path_name p)" "CHR ''/'' \<notin> set (path_stem p)" "CHR ''/'' \<notin> set (path_suffix p)"
proof -
  show n: "CHR ''/'' \<notin> set (path_name p)" by (auto simp: path_name_def dest: set_takeWhileD)
  show "CHR ''/'' \<notin> set (path_stem p)" using n in_set_takeD unfolding path_stem_def by fast
  show "CHR ''/'' \<notin> set (path_suffix p)"
    using n by (auto simp: path_suffix_def Let_def dest!: set_takeWhileD)
qed

lemma hex_digit_not_slash: "d < 16 \<Longrightarrow> hex_digit d \<noteq> CHR ''/''"
proof
  assume "d < 16" and "hex_digit d = CHR ''/''"
  then have "code_of (CHR ''/'') = (if d < 10 then 48 + d else 87 + d)" using code_of_hex_digit by metis
  moreover have "code_of (CHR ''/'') = 47" by (simp add: code_of_def)
  ultimately show False by (simp split: if_splits)
qed

lemma hex_no_slash [simp]: "CHR ''/'' \<notin> set (uuid_hex u)"
proof -
  have "CHR ''/'' \<notin> set (hex_digits w n)" for w n
    by (induction w arbitrary: n) (auto dest!: sym [of "CHR ''/''"] simp: hex_digit_not_slash)
  then show ?thesis by (simp add: uuid_hex_def)
qed

lemma uuid_no_slash [simp]: "CHR ''/'' \<notin> set (uuid_str u)"
  using hex_no_slash [of u] by (auto simp: uuid_str_def Let_def dest!: in_set_takeD in_set_dropD)

lemma path_join_inj: "path_join d n = path_join e n \<Longrightarrow> d = e"
  by (simp add: path_join_def)

lemma path_join_neq [simp]: "path_join d n \<noteq> d" "d \<noteq> path_join d n"
  by (simp_all add: path_join_def)

text \<open>The two directories and their thumbnail folders are four different directories.\<close>

definition dirs_apart :: "image_cfg \<Rightarrow> bool" where
  "dirs_apart cfg \<longleftrightarrow> ic_tmp cfg \<noteq> ic_save cfg \<and> ic_save cfg \<noteq> path_join (ic_tmp cfg) ''thumbnails''
     \<and> ic_tmp cfg \<noteq> path_join (ic_save cfg) ''thumbnails''"

lemma parent_thumb: "path_parent (thumb_for p) = path_join (path_parent p) ''thumbnails''"
  by (simp add: thumb_for_def)

lemma perm_path_run:
  obtains dest n where "perm_path cfg tmp r w = (Inr dest, w\<lparr>w_tick := n\<rparr>)" "path_parent dest = ic_save cfg"
    "file_exists dest w \<Longrightarrow> file_exists (path_join (ic_save cfg)
       (uuid_hex (w_supply w (w_tick w)) @ ''_'' @ perm_name r tmp)) w"
proof (cases "file_exists (path_join (ic_save cfg) (perm_name r tmp)) w")
  case True
  let ?d = "path_join (ic_save cfg) (uuid_hex (w_supply w (w_tick w)) @ ''_'' @ perm_name r tmp)"
  have "perm_path cfg tmp r w = (Inr ?d, w\<lparr>w_tick := Suc (w_tick w)\<rparr>)"
    using True by (simp add: perm_path_def Let_def gen_uuid_def bind_def)
  then show ?thesis by (rule that) (simp_all add: perm_name_def)
next
  case False
  have "perm_path cfg tmp r w = (Inr (path_join (ic_save cfg) (perm_name r tmp)), w\<lparr>w_tick := w_tick w\<rparr>)"
    using False by (simp add: perm_path_def Let_def)
  then show ?thesis by (rule that) (use False in \<open>simp_all add: perm_name_def\<close>)
qed

lemma perm_image_run:
  assumes "dirs_apart cfg" and "path_parent tmp = ic_tmp cfg"
    and "\<not> file_exists (path_join (ic_save cfg) (uuid_hex (w_supply w (w_tick w)) @ ''_'' @ perm_name r tmp)) w"
  shows "if file_exists tmp w then
      \<exists>dest w'. store_perm_image cfg tmp r w =
          (Inr (Some dest, if file_exists (thumb_for tmp) w then Some (thumb_for dest) else None), w')
        \<and> path_parent dest = ic_save cfg \<and> \<not> file_exists dest w
        \<and> w_files w' dest = w_files w tmp \<and> \<not> file_exists tmp w'
        \<and> (file_exists (thumb_for tmp) w \<longrightarrow>
             w_files w' (thumb_for dest) = w_files w (thumb_for tmp) \<and> \<not> file_exists (thumb_for tmp) w')
        \<and> (\<forall>q. q \<notin> {tmp, dest, thumb_for tmp, thumb_for dest} \<longrightarrow> w_files w' q = w_files w q)
        \<and> same_tables w w'
    else store_perm_image cfg tmp r w = (Inr (None, None), w)"
proof (cases "file_exists tmp w")
  case True
  obtain dest n where run: "perm_path cfg tmp r w = (Inr dest, w\<lparr>w_tick := n\<rparr>)" and par: "path_parent dest = ic_save cfg"
    and free: "\<not> file_exists dest w" using perm_path_run [of cfg tmp r w] assms(3) by metis
  have neq: "dest \<noteq> tmp" "thumb_for tmp \<noteq> tmp" "thumb_for tmp \<noteq> dest" "thumb_for dest \<noteq> tmp"
    "thumb_for dest \<noteq> dest" "thumb_for dest \<noteq> thumb_for tmp"
    using assms(1,2) par parent_thumb [of tmp] parent_thumb [of dest]
    unfolding dirs_apart_def by (metis path_join_neq(1) path_join_inj)+
  let ?w1 = "w\<lparr>w_tick := n, w_files := (w_files w)(tmp := None, dest := w_files w tmp)\<rparr>"
  show ?thesis
  proof (cases "file_exists (thumb_for tmp) w")
    case thumb: True
    have "store_perm_image cfg tmp r w = (Inr (Some dest, Some (thumb_for dest)),
        ?w1\<lparr>w_files := (w_files ?w1)(thumb_for tmp := None, thumb_for dest := w_files w (thumb_for tmp))\<rparr>)"
      using True thumb run neq by (simp add: store_perm_image_def file_exists_def move_file_def)
    then show ?thesis using True thumb neq par free by (simp add: file_exists_def same_tables_def)
  next
    case no: False
    have "store_perm_image cfg tmp r w = (Inr (Some dest, None), ?w1)"
      using True no run neq by (simp add: store_perm_image_def file_exists_def move_file_def)
    then show ?thesis using True no neq par free by (simp add: file_exists_def same_tables_def)
  qed
qed (simp add: store_perm_image_def)

text \<open>
  Fact: a verified image is moved, never lost or mixed up. Storing an existing temporary image
  moves its bytes to a path of the save directory where no file was before (provided the random
  name, used when the receipt's own name is taken, is free), removes the temporary file, moves its
  thumbnail along if there is one, and touches no other file and no table; a missing file is
  reported as such and nothing happens.
\<close>

theorem perm_image_moved:
  assumes "dirs_apart cfg" and "path_parent tmp = ic_tmp cfg"
    and "\<not> file_exists (path_join (ic_save cfg) (uuid_hex (w_supply w (w_tick w)) @ ''_'' @ perm_name r tmp)) w"
  shows "if file_exists tmp w then
      \<exists>dest w'. store_perm_image cfg tmp r w =
          (Inr (Some dest, if file_exists (thumb_for tmp) w then Some (thumb_for dest) else None), w')
        \<and> path_parent dest = ic_save cfg \<and> \<not> file_exists dest w
        \<and> w_files w' dest = w_files w tmp \<and> \<not> file_exists tmp w'
        \<and> (file_exists (thumb_for tmp) w \<longrightarrow>
             w_files w' (thumb_for dest) = w_files w (thumb_for tmp) \<and> \<not> file_exists (thumb_for tmp) w')
        \<and> (\<forall>q. q \<notin> {tmp, dest, thumb_for tmp, thumb_for dest} \<longrightarrow> w_files w' q = w_files w q)
        \<and> same_tables w w'
    else store_perm_image cfg tmp r w = (Inr (None, None), w)"
  using assms by (rule perm_image_run)

definition sample_cfg :: image_cfg where
  "sample_cfg = \<lparr>ic_tmp = ''/t'', ic_save = ''/s'', ic_sniff = (\<lambda>_. ''image/png''), ic_thumb = (\<lambda>c. Some (''thumb:'' @ c))\<rparr>"

definition disk_world :: world where
  "disk_world = sample_world\<lparr>w_files := [''/t/a.png'' \<mapsto> ''bytes'']\<rparr>"

theorem perm_image_moved_witness:
  "\<exists>dest w'. store_perm_image sample_cfg ''/t/a.png'' 5 disk_world = (Inr (Some dest, None), w')
     \<and> w_files w' dest = Some ''bytes'' \<and> \<not> file_exists ''/t/a.png'' w'"
proof -
  have e: "file_exists ''/t/a.png'' disk_world" "\<not> file_exists (thumb_for ''/t/a.png'') disk_world"
    "w_files disk_world ''/t/a.png'' = Some ''bytes''"
    by (simp_all add: file_exists_def disk_world_def thumb_for_def path_join_def path_parent_def path_stem_def path_name_def)
  show ?thesis
    using perm_image_moved [of sample_cfg "''/t/a.png''" disk_world 5] e
    by (simp add: dirs_apart_def sample_cfg_def path_join_def path_parent_def)
       (auto simp: file_exists_def disk_world_def)
qed

text \<open>Deleting removes the file and its thumbnail and nothing else, and tells whether there was one.\<close>

lemma delete_image_run:
  assumes "thumb_for p \<noteq> p"
  shows "delete_image (Some p) w =
    (Inr (file_exists p w), if file_exists p w then w\<lparr>w_files := (w_files w)(p := None, thumb_for p := None)\<rparr> else w)"
  using assms by (auto simp: delete_image_def file_exists_def unlink_def seq_def fun_upd_idem)

end
