(* ===== verification/MultiImage.thy ===== *)
theory MultiImage
  imports Models
begin

text \<open>
  Overlapping photos of one receipt: helper/duplicates.py (\<open>verify_duplicate\<close> with difflib's
  SequenceMatcher) and model/receipt_extraction.py (\<open>MultiImageReceipt.reconciled\<close>).
\<close>

section \<open>difflib.SequenceMatcher(None, a, b, autojunk=False)\<close>

fun lcp :: "'a list \<Rightarrow> 'a list \<Rightarrow> nat" where
  "lcp (x # xs) (y # ys) = (if x = y then Suc (lcp xs ys) else 0)"
| "lcp _ _ = 0"

text \<open>
  \<open>find_longest_match\<close>: of all blocks \<open>a[i:i+k] == b[j:j+k]\<close> of maximal length the one that starts
  earliest in \<open>a\<close>, then earliest in \<open>b\<close>.
\<close>

definition all_blocks :: "'a list \<Rightarrow> 'a list \<Rightarrow> (nat \<times> nat \<times> nat) list" where
  "all_blocks a b = concat (map (\<lambda>i. map (\<lambda>j. (i, j, lcp (drop i a) (drop j b))) [0..<length b]) [0..<length a])"

fun best_block :: "nat \<times> nat \<times> nat \<Rightarrow> (nat \<times> nat \<times> nat) list \<Rightarrow> nat \<times> nat \<times> nat" where
  "best_block m [] = m"
| "best_block m (x # xs) = best_block (if snd (snd m) < snd (snd x) then x else m) xs"

definition longest_match :: "'a list \<Rightarrow> 'a list \<Rightarrow> nat \<times> nat \<times> nat" where
  "longest_match a b = best_block (0, 0, 0) (all_blocks a b)"

lemma lcp_take: "take (lcp xs ys) xs = take (lcp xs ys) ys"
  by (induction xs ys rule: lcp.induct) auto

lemma lcp_length: "lcp xs ys \<le> length xs" "lcp xs ys \<le> length ys"
  by (induction xs ys rule: lcp.induct) auto

lemma lcp_same [simp]: "lcp xs xs = length xs"
  by (induction xs) auto

lemma best_block_mem: "best_block m xs \<in> insert m (set xs)"
proof (induction xs arbitrary: m)
  case (Cons x xs)
  show ?case
  proof (cases "snd (snd m) < snd (snd x)")
    case True
    then show ?thesis using Cons [of x] by simp
  next
    case False
    then show ?thesis using Cons [of m] by (simp only: best_block.simps if_False) auto
  qed
qed simp

lemma best_block_first: "\<forall>x \<in> set xs. snd (snd x) \<le> snd (snd m) \<Longrightarrow> best_block m xs = m"
  by (induction xs) (simp_all add: not_less)

lemma longest_match_block:
  assumes "longest_match a b = (i, j, k)"
  shows "take k (drop i a) = take k (drop j b)" "i + k \<le> length a" "j + k \<le> length b"
proof -
  have "(i, j, k) \<in> insert (0, 0, 0) (set (all_blocks a b))"
    using best_block_mem [of "(0, 0, 0)" "all_blocks a b"] assms by (simp add: longest_match_def)
  then consider "i = 0" "j = 0" "k = 0" | "i < length a" "j < length b" "k = lcp (drop i a) (drop j b)"
    by (auto simp: all_blocks_def)
  then have "take k (drop i a) = take k (drop j b) \<and> i + k \<le> length a \<and> j + k \<le> length b"
  proof cases
    case 2
    then show ?thesis using lcp_take [of "drop i a" "drop j b"] lcp_length [of "drop i a" "drop j b"] by auto
  qed simp
  then show "take k (drop i a) = take k (drop j b)" "i + k \<le> length a" "j + k \<le> length b" by auto
qed

lemma longest_match_same:
  assumes "a \<noteq> []"
  shows "longest_match a a = (0, 0, length a)"
proof -
  have le: "snd (snd x) \<le> length a" if x: "x \<in> set (all_blocks a a)" for x
  proof -
    obtain i j where "x = (i, j, lcp (drop i a) (drop j a))" using x by (auto simp: all_blocks_def)
    then show ?thesis using lcp_length(1) [of "drop i a" "drop j a"] by simp
  qed
  have "all_blocks a a = (0, 0, length a) # tl (all_blocks a a)"
    using assms by (cases a) (auto simp: all_blocks_def upt_conv_Cons simp del: upt_Suc)
  then have "longest_match a a = best_block (0, 0, 0) ((0, 0, length a) # tl (all_blocks a a))"
    unfolding longest_match_def by (rule arg_cong)
  also have "\<dots> = best_block (0, 0, length a) (tl (all_blocks a a))" using assms by simp
  also have "\<dots> = (0, 0, length a)"
    using le by (intro best_block_first) (metis (no_types, lifting) list.set_sel(2) snd_conv tl_Nil empty_iff list.set(1))
  finally show ?thesis .
qed

lemma longest_match_less:
  assumes "(i, j, k) = longest_match a b" and "0 < k"
  shows "min (length a) i + min (length b) j < length a + length b"
    "length a - (i + k) + (length b - (j + k)) < length a + length b"
  using assms longest_match_block(2,3) [OF assms(1) [symmetric]] by linarith+

text \<open>The number of matched elements, \<open>sum(triple[-1] for triple in get_matching_blocks())\<close>.\<close>

function (sequential) matched :: "'a list \<Rightarrow> 'a list \<Rightarrow> nat" where
  "matched a b = (case longest_match a b of (i, j, k) \<Rightarrow>
     if k = 0 then 0
     else matched (take i a) (take j b) + k + matched (drop (i + k) a) (drop (j + k) b))"
  by pat_completeness auto

termination
  by (relation "measure (\<lambda>(a, b). length a + length b)") (auto intro: longest_match_less)

declare matched.simps [simp del]

lemma matched_le: "matched a b \<le> length a \<and> matched a b \<le> length b"
proof (induction a b rule: matched.induct)
  case (1 a b)
  obtain i j k where m: "longest_match a b = (i, j, k)" by (metis prod_cases3)
  show ?case
  proof (cases "k = 0")
    case False
    then have "matched (take i a) (take j b) \<le> length (take i a)" "matched (take i a) (take j b) \<le> length (take j b)"
      "matched (drop (i + k) a) (drop (j + k) b) \<le> length (drop (i + k) a)"
      "matched (drop (i + k) a) (drop (j + k) b) \<le> length (drop (j + k) b)"
      using "1.IH" m by simp_all
    then show ?thesis using longest_match_block(2,3) [OF m] m False by (subst (1 2) matched.simps) auto
  qed (use m in \<open>simp add: matched.simps\<close>)
qed

lemma matched_full: "matched a b = length a \<Longrightarrow> matched a b = length b \<Longrightarrow> a = b"
proof (induction a b rule: matched.induct)
  case (1 a b)
  obtain i j k where m: "longest_match a b = (i, j, k)" by (metis prod_cases3)
  show ?case
  proof (cases "k = 0")
    case True
    then show ?thesis using "1.prems" m by (simp add: matched.simps)
  next
    case False
    let ?l = "matched (take i a) (take j b)" and ?r = "matched (drop (i + k) a) (drop (j + k) b)"
    note blk = longest_match_block [OF m]
    have tot: "matched a b = ?l + k + ?r" using m False by (simp add: matched.simps)
    have bounds: "?l \<le> i" "?l \<le> j" "?r \<le> length a - (i + k)" "?r \<le> length b - (j + k)"
      using matched_le [of "take i a" "take j b"] matched_le [of "drop (i + k) a" "drop (j + k) b"] by auto
    have "?l = i" "?r = length a - (i + k)" using tot bounds blk(2) "1.prems"(1) by linarith+
    moreover have "?l = j" "?r = length b - (j + k)" using tot bounds blk(3) "1.prems"(2) by linarith+
    ultimately have "take i a = take j b" "drop (i + k) a = drop (j + k) b"
      using "1.IH" m False blk(2,3) by simp_all
    moreover have "a = take i a @ take k (drop i a) @ drop (i + k) a"
      "b = take j b @ take k (drop j b) @ drop (j + k) b"
      by (metis append_take_drop_id drop_drop add.commute)+
    ultimately show ?thesis using blk(1) by metis
  qed
qed

lemma matched_same: "matched a a = length a"
proof (cases "a = []")
  case True
  then show ?thesis using matched_le [of a a] by simp
next
  case False
  have "matched [] [] = 0" using matched_le [of "[]" "[]"] by simp
  then show ?thesis using longest_match_same [OF False] False by (simp add: matched.simps [of a])
qed

text \<open>\<open>ratio()\<close>: \<open>2.0 * matches / length\<close>, and 1.0 for two empty sequences.\<close>

definition ratio :: "'a list \<Rightarrow> 'a list \<Rightarrow> rat" where
  "ratio a b = (if a = [] \<and> b = [] then 1
     else 2 * of_nat (matched a b) / of_nat (length a + length b))"

lemma ratio_bounds: "0 \<le> ratio a b" "ratio a b \<le> 1"
proof -
  show "0 \<le> ratio a b" by (simp add: ratio_def)
  have "2 * matched a b \<le> length a + length b" using matched_le [of a b] by simp
  then have "2 * (of_nat (matched a b) :: rat) \<le> of_nat (length a + length b)"
    by (metis of_nat_le_iff of_nat_mult of_nat_numeral)
  then show "ratio a b \<le> 1" by (auto simp: ratio_def divide_le_eq)
qed

lemma ratio_one: "ratio a b = 1 \<longleftrightarrow> a = b"
proof
  assume r: "ratio a b = 1"
  show "a = b"
  proof (cases "a = [] \<and> b = []")
    case False
    then have "(2 * of_nat (matched a b) :: rat) = of_nat (length a + length b)"
      using r by (auto simp: ratio_def field_simps)
    then have "2 * matched a b = length a + length b"
      by (metis of_nat_eq_iff of_nat_mult of_nat_numeral)
    then show ?thesis using matched_le [of a b] matched_full [of a b] by linarith
  qed simp
qed (simp add: ratio_def matched_same)

section \<open>verify\_duplicate\<close>

definition name_key_of :: "string \<Rightarrow> string" where
  "name_key_of d = py_join '' '' (py_split (py_casefold d))"

definition verify_duplicate :: "rat \<Rightarrow> rat \<Rightarrow> rat \<Rightarrow> 'a line_item_scheme \<Rightarrow> 'b line_item_scheme \<Rightarrow> exn + bool" where
  "verify_duplicate name_similarity quantity_tolerance total_tolerance first second =
     (if \<not> (0 \<le> name_similarity \<and> name_similarity \<le> 1) \<or> quantity_tolerance < 0 \<or> total_tolerance < 0
      then Inl (ValueError ''Invalid duplicate verification tolerances'')
      else let left = name_key_of (i_description first); right = name_key_of (i_description second) in
        Inr (left \<noteq> [] \<and> right \<noteq> [] \<and> name_similarity \<le> ratio left right
          \<and> \<bar>i_quantity first - i_quantity second\<bar> \<le> quantity_tolerance
          \<and> \<bar>i_total_price first - i_total_price second\<bar> \<le> total_tolerance))"

definition default_duplicate :: "'a line_item_scheme \<Rightarrow> 'b line_item_scheme \<Rightarrow> bool" where
  "default_duplicate first second = (verify_duplicate 1 0 0 first second = Inr True)"

definition same_row :: "'a line_item_scheme \<Rightarrow> 'b line_item_scheme \<Rightarrow> bool" where
  "same_row x y \<longleftrightarrow> name_key_of (i_description x) \<noteq> [] \<and> name_key_of (i_description x) = name_key_of (i_description y)
     \<and> i_quantity x = i_quantity y \<and> i_total_price x = i_total_price y"

lemma default_duplicate_iff: "default_duplicate x y \<longleftrightarrow> same_row x y"
proof -
  have "1 \<le> ratio a b \<longleftrightarrow> a = b" for a b :: string using ratio_bounds(2) [of a b] ratio_one [of a b] by auto
  then show ?thesis by (auto simp: default_duplicate_def verify_duplicate_def Let_def same_row_def)
qed

text \<open>
  Fact: the overlap check is exact by default and monotone in its tolerances. With the default
  tolerances two rows are duplicates exactly when their names agree up to case and whitespace (and
  are not blank) and their quantities and totals are equal; loosening any valid tolerance never
  loses a duplicate; invalid tolerances are refused.
\<close>

theorem verify_duplicate_spec:
  fixes x :: "'a line_item_scheme" and y :: "'b line_item_scheme"
  shows "verify_duplicate 1 0 0 x y = Inr (same_row x y)
    \<and> (0 \<le> n' \<and> n' \<le> n \<and> q \<le> q' \<and> t \<le> t' \<and> verify_duplicate n q t x y = Inr True
        \<longrightarrow> verify_duplicate n' q' t' x y = Inr True)
    \<and> ((\<exists>e. verify_duplicate n q t x y = Inl e) \<longleftrightarrow> n < 0 \<or> 1 < n \<or> q < 0 \<or> t < 0)"
proof (intro conjI)
  show "verify_duplicate 1 0 0 x y = Inr (same_row x y)"
    using default_duplicate_iff [of x y] by (cases "verify_duplicate 1 0 0 x y")
      (auto simp: default_duplicate_def verify_duplicate_def Let_def)
  show "0 \<le> n' \<and> n' \<le> n \<and> q \<le> q' \<and> t \<le> t' \<and> verify_duplicate n q t x y = Inr True
        \<longrightarrow> verify_duplicate n' q' t' x y = Inr True"
    by (auto simp: verify_duplicate_def Let_def split: if_splits)
  show "(\<exists>e. verify_duplicate n q t x y = Inl e) \<longleftrightarrow> n < 0 \<or> 1 < n \<or> q < 0 \<or> t < 0"
    by (auto simp: verify_duplicate_def Let_def not_le)
qed

theorem verify_duplicate_spec_witness:
  "verify_duplicate (1/2) 1 0
     \<lparr>i_description = ''Milk 1L'', i_category = ''milk'', i_quantity = 1, i_unit_price = 2, i_total_price = 2, i_tags = [],
       i_id = None, i_remember = False, i_category_set = True\<rparr>
     \<lparr>i_description = ''milk  1l'', i_category = ''milk'', i_quantity = 1, i_unit_price = 2, i_total_price = 2, i_tags = [],
       i_id = None, i_remember = False, i_category_set = True\<rparr> = Inr True"
proof -
  let ?x = "\<lparr>i_description = ''Milk 1L'', i_category = ''milk'', i_quantity = 1, i_unit_price = 2, i_total_price = 2,
    i_tags = [], i_id = None, i_remember = False, i_category_set = True\<rparr>"
  let ?y = "?x\<lparr>i_description := ''milk  1l''\<rparr>"
  have "same_row ?x ?y" by code_simp
  then show ?thesis using verify_duplicate_spec [of ?x ?y "1/2" 1 0 1 0 0] by simp
qed

section \<open>MultiImageReceipt.reconciled\<close>

text \<open>A row carries the index of its photo; the receipt-level fields are those of \<open>mr_receipt\<close>.\<close>

record source_item = line_item +
  si_source :: nat

record multi_receipt =
  mr_receipt :: receipt
  mr_items :: "source_item list"
  mr_candidates :: "(nat \<times> nat) list"

definition bad_sources :: exn where
  "bad_sources = ValueError ''Line items must be grouped in input photo order with valid source_image''"

fun group_add :: "nat \<Rightarrow> 'a \<Rightarrow> (nat \<times> 'a list) list \<Rightarrow> (nat \<times> 'a list) list" where
  "group_add k v [] = [(k, [v])]"
| "group_add k v ((l, vs) # g) = (if k = l then (l, vs @ [v]) # g else (l, vs) # group_add k v g)"

fun group_pairs ::
  "nat list \<Rightarrow> (nat \<times> nat) list \<Rightarrow> (nat \<times> (nat \<times> nat) list) list \<Rightarrow> exn + (nat \<times> (nat \<times> nat) list) list" where
  "group_pairs sources [] g = Inr g"
| "group_pairs sources ((a, b) # ps) g =
     (if \<not> (a < b \<and> b < length sources)
      then Inl (ValueError ''Duplicate candidate indices are out of order or out of range'')
      else if sources ! b \<noteq> sources ! a + 1
      then Inl (ValueError ''Duplicate candidates must come from adjacent photos'')
      else group_pairs sources ps (group_add (sources ! a) (a, b) g))"

definition rows_of :: "nat list \<Rightarrow> nat \<Rightarrow> nat list" where
  "rows_of sources s = filter (\<lambda>i. sources ! i = s) [0..<length sources]"

text \<open>\<open>zip(earlier[-count:], later[:count])\<close>\<close>

definition expected_overlap :: "nat list \<Rightarrow> nat \<Rightarrow> nat \<Rightarrow> (nat \<times> nat) list" where
  "expected_overlap sources s count =
     (let earlier = rows_of sources s in
      zip (drop (length earlier - count) earlier) (take count (rows_of sources (Suc s))))"

fun removed_rows ::
  "source_item list \<Rightarrow> (nat \<times> (nat \<times> nat) list) list \<Rightarrow> exn + nat set" where
  "removed_rows items [] = Inr {}"
| "removed_rows items ((s, pairs) # g) =
     (if sort pairs \<noteq> expected_overlap (map si_source items) s (length pairs)
      then Inl (ValueError ''Duplicate candidates must describe an ordered photo-boundary overlap'')
      else case removed_rows items g of Inl e \<Rightarrow> Inl e
        | Inr rest \<Rightarrow> Inr (if list_all (\<lambda>(a, b). default_duplicate (items ! a) (items ! b)) pairs
            then snd ` set pairs \<union> rest else rest))"

definition reconciled :: "multi_receipt \<Rightarrow> nat \<Rightarrow> exn + receipt" where
  "reconciled m image_count =
     (let items = mr_items m; sources = map si_source items in
      if \<not> sorted sources \<or> \<not> list_all (\<lambda>s. s < image_count) sources then Inl bad_sources
      else case group_pairs sources (mr_candidates m) [] of
        Inl e \<Rightarrow> Inl e
      | Inr groups \<Rightarrow> (case removed_rows items groups of
          Inl e \<Rightarrow> Inl e
        | Inr removed \<Rightarrow> Inr ((mr_receipt m)\<lparr>rc_line_items :=
            map line_item.truncate (nths items (- removed))\<rparr>)))"

definition good_groups :: "nat list \<Rightarrow> (nat \<times> nat) set \<Rightarrow> (nat \<times> (nat \<times> nat) list) list \<Rightarrow> bool" where
  "good_groups sources C g \<longleftrightarrow> (\<forall>(s, ps) \<in> set g. \<forall>(a, b) \<in> set ps.
     (a, b) \<in> C \<and> a < b \<and> b < length sources \<and> sources ! a = s \<and> sources ! b = Suc s)"

lemma group_add_good:
  "good_groups sources C g \<Longrightarrow> (a, b) \<in> C \<Longrightarrow> a < b \<Longrightarrow> b < length sources \<Longrightarrow> sources ! a = s \<Longrightarrow>
   sources ! b = Suc s \<Longrightarrow> good_groups sources C (group_add s (a, b) g)"
  by (induction s "(a, b)" g rule: group_add.induct) (auto simp: good_groups_def)

lemma group_pairs_good:
  "group_pairs sources ps g = Inr h \<Longrightarrow> set ps \<subseteq> C \<Longrightarrow> good_groups sources C g \<Longrightarrow> good_groups sources C h"
  by (induction sources ps g rule: group_pairs.induct) (auto simp: group_add_good split: if_splits)

lemma prefix_closed:
  assumes "sorted_wrt (<) L" and "x \<in> set (take n L)" and "y \<in> set L" and "y < x"
  shows "y \<in> set (take n (L :: nat list))"
proof (rule ccontr)
  assume no: "y \<notin> set (take n L)"
  have split: "L = take n L @ drop n L" by simp
  then have "y \<in> set (drop n L)" using assms(3) no by (metis Un_iff set_append)
  moreover have "\<forall>a \<in> set (take n L). \<forall>b \<in> set (drop n L). a < b"
    using assms(1) split by (metis sorted_wrt_append)
  ultimately show False using assms(2,4) by fastforce
qed

lemma overlap_prefix:
  assumes "sort pairs = expected_overlap sources s (length pairs)"
  shows "snd ` set pairs = set (take (length pairs) (rows_of sources (Suc s)))"
proof -
  let ?e = "drop (length (rows_of sources s) - length pairs) (rows_of sources s)"
  let ?l = "take (length pairs) (rows_of sources (Suc s))"
  have z: "sort pairs = zip ?e ?l" using assms by (simp add: expected_overlap_def Let_def)
  then have "length pairs = min (length ?e) (length ?l)" by (metis length_sort length_zip)
  then have "length ?l \<le> length ?e" by auto
  then have "min (length ?e) (length ?l) = length ?l" by (rule min_absorb2)
  then have "map snd (zip ?e ?l) = ?l" unfolding map_snd_zip_take by (simp only: take_all_iff order_refl)
  then have "snd ` set (sort pairs) = set ?l" using z by (metis list.set_map)
  then show ?thesis by simp
qed

text \<open>What may be removed: rows that duplicate a row of the photo before, from the top of a photo on.\<close>

definition removable :: "source_item list \<Rightarrow> (nat \<times> nat) set \<Rightarrow> nat set \<Rightarrow> bool" where
  "removable items C R \<longleftrightarrow>
     (\<forall>b \<in> R. b < length items
        \<and> (\<exists>a. (a, b) \<in> C \<and> a < b \<and> si_source (items ! b) = Suc (si_source (items ! a)) \<and> same_row (items ! a) (items ! b))
        \<and> (\<forall>b' < b. si_source (items ! b') = si_source (items ! b) \<longrightarrow> b' \<in> R))"

lemma group_removable:
  assumes good: "\<forall>(a, b) \<in> set ps. (a, b) \<in> C \<and> a < b \<and> b < length items \<and> si_source (items ! a) = s
      \<and> si_source (items ! b) = Suc s"
    and overlap: "sort ps = expected_overlap (map si_source items) s (length ps)"
    and same: "list_all (\<lambda>(a, b). default_duplicate (items ! a) (items ! b)) ps"
  shows "removable items C (snd ` set ps)"
proof -
  have closed: "b' \<in> snd ` set ps"
    if b: "b \<in> snd ` set ps" "b' < b" "si_source (items ! b') = si_source (items ! b)" "b < length items" for b b'
  proof -
    let ?L = "rows_of (map si_source items) (Suc s)"
    have "si_source (items ! b) = Suc s" using b(1) good by auto
    then have "b' \<in> set ?L" using b by (simp add: rows_of_def)
    moreover have "sorted_wrt (<) ?L" by (simp add: rows_of_def sorted_wrt_filter)
    ultimately show ?thesis using prefix_closed [of ?L b _ b'] b(1,2) overlap_prefix [OF overlap] by simp
  qed
  show ?thesis
    unfolding removable_def
  proof (intro ballI conjI allI impI)
    fix b assume b: "b \<in> snd ` set ps"
    then obtain a where a: "(a, b) \<in> set ps" by auto
    then show len: "b < length items" using good by auto
    show "\<exists>a. (a, b) \<in> C \<and> a < b \<and> si_source (items ! b) = Suc (si_source (items ! a)) \<and> same_row (items ! a) (items ! b)"
      using a good same by (auto simp: list_all_iff default_duplicate_iff intro!: exI [of _ a])
    fix b' assume "b' < b" "si_source (items ! b') = si_source (items ! b)"
    then show "b' \<in> snd ` set ps" using closed [OF b] len by blast
  qed
qed

lemma removable_Un: "removable items C R \<Longrightarrow> removable items C S \<Longrightarrow> removable items C (R \<union> S)"
  by (auto simp: removable_def)

lemma removed_removable:
  "removed_rows items g = Inr R \<Longrightarrow> good_groups (map si_source items) C g \<Longrightarrow> removable items C R"
proof (induction items g arbitrary: R rule: removed_rows.induct)
  case (1 items)
  then show ?case by (simp add: removable_def)
next
  case (2 items s ps g)
  have overlap: "sort ps = expected_overlap (map si_source items) s (length ps)"
    using "2.prems"(1) by (auto split: if_splits)
  obtain rest where rest: "removed_rows items g = Inr rest"
    using "2.prems"(1) overlap by (auto split: sum.splits)
  have IH: "removable items C rest" using "2.IH" overlap rest "2.prems"(2) by (auto simp: good_groups_def)
  have good: "\<forall>(a, b) \<in> set ps. (a, b) \<in> C \<and> a < b \<and> b < length items \<and> si_source (items ! a) = s
      \<and> si_source (items ! b) = Suc s"
    using "2.prems"(2) by (fastforce simp: good_groups_def)
  show ?case
    using "2.prems"(1) overlap rest IH removable_Un [OF group_removable [OF good overlap] IH] by (auto split: if_splits)
qed

lemma reconciled_rest:
  "reconciled m n = Inr r \<Longrightarrow>
    \<exists>R. r = (mr_receipt m)\<lparr>rc_line_items := map line_item.truncate (nths (mr_items m) (- R))\<rparr>"
  by (auto simp: reconciled_def Let_def split: if_splits sum.splits)

text \<open>
  Property C10: merging photos drops only overlap. If the reconciliation of a multi-photo answer succeeds,
  the receipt is the answered one with some rows left out, and a row is left out only if it was
  proposed as a duplicate, a row of the photo directly before it has the same name, quantity and
  total, and every row above it on its own photo is left out too. So rows of the first photo and
  rows of a photo that shares nothing at its top with the one before always survive, in order.
\<close>

theorem reconciled_drops_only_overlap:
  assumes "reconciled m n = Inr r"
  shows "\<exists>R. removable (mr_items m) (set (mr_candidates m)) R
    \<and> r = (mr_receipt m)\<lparr>rc_line_items := map line_item.truncate (nths (mr_items m) (- R))\<rparr>
    \<and> (\<forall>b \<in> R. si_source (mr_items m ! b) \<noteq> 0)
    \<and> sorted (map si_source (mr_items m)) \<and> (\<forall>i \<in> set (mr_items m). si_source i < n)"
proof -
  have s: "sorted (map si_source (mr_items m))" "\<forall>i \<in> set (mr_items m). si_source i < n"
    using assms by (auto simp: reconciled_def Let_def list_all_iff split: if_splits)
  then have ok: "list_all (\<lambda>k. k < n) (map si_source (mr_items m))" by (simp add: list_all_iff)
  obtain g where g: "group_pairs (map si_source (mr_items m)) (mr_candidates m) [] = Inr g"
    using assms s(1) ok by (cases "group_pairs (map si_source (mr_items m)) (mr_candidates m) []")
      (simp_all add: reconciled_def Let_def)
  obtain R where R: "removed_rows (mr_items m) g = Inr R"
    using assms s(1) ok g by (cases "removed_rows (mr_items m) g") (simp_all add: reconciled_def Let_def)
  have r: "r = (mr_receipt m)\<lparr>rc_line_items := map line_item.truncate (nths (mr_items m) (- R))\<rparr>"
    using assms s(1) ok g R by (simp add: reconciled_def Let_def)
  have "good_groups (map si_source (mr_items m)) (set (mr_candidates m)) g"
    using group_pairs_good [OF g, of "set (mr_candidates m)"] by (simp add: good_groups_def)
  then have rem: "removable (mr_items m) (set (mr_candidates m)) R" using removed_removable [OF R] by blast
  have "si_source (mr_items m ! b) \<noteq> 0" if "b \<in> R" for b
    using rem that unfolding removable_def by (metis nat.distinct(1))
  then show ?thesis using rem r s by blast
qed

text \<open>Two photos that share their last and first row, once with different totals.\<close>

definition photo_row :: "string \<Rightarrow> rat \<Rightarrow> nat \<Rightarrow> source_item" where
  "photo_row d t s = \<lparr>i_description = d, i_category = ''unknown'', i_quantity = 1, i_unit_price = t, i_total_price = t,
     i_tags = [], i_id = None, i_remember = False, i_category_set = True, si_source = s\<rparr>"

definition two_photos :: multi_receipt where
  "two_photos = \<lparr>mr_receipt = \<lparr>rc_confidence = 90, rc_merchant_name = ''Shop'', rc_merchant_address = None,
       rc_receipt_number = None, rc_date = Date 2026 9 5, rc_time = None, rc_currency = ''EUR'', rc_category = ''grocery'',
       rc_line_items = [], rc_taxes = [], rc_subtotal = 5, rc_discount_total = 0, rc_tax_total = 0, rc_tip = None,
       rc_total = 5, rc_payment_method = ''cash''\<rparr>,
     mr_items = [photo_row ''Milk'' 2 0, photo_row ''Tea'' 3 0, photo_row ''TEA'' 3 1, photo_row ''Tea'' 3 1],
     mr_candidates = [(1, 2)]\<rparr>"

lemma two_photos_run:
  "reconciled two_photos 2 = Inr ((mr_receipt two_photos)\<lparr>rc_line_items :=
     map line_item.truncate [photo_row ''Milk'' 2 0, photo_row ''Tea'' 3 0, photo_row ''Tea'' 3 1]\<rparr>)"
proof -
  have dup: "default_duplicate (photo_row ''Tea'' 3 0) (photo_row ''TEA'' 3 1)"
    unfolding default_duplicate_iff by code_simp
  have overlap: "expected_overlap [0, 0, 1, 1] 0 (Suc 0) = [(1, 2)]" by code_simp
  have src: "map si_source (mr_items two_photos) = [0, 0, 1, 1]" by (simp add: two_photos_def photo_row_def)
  have "removed_rows (mr_items two_photos) [(0, [(1, 2)])] = Inr {2}"
    using dup overlap src by (simp add: two_photos_def)
  moreover have "group_pairs [0, 0, 1, 1] (mr_candidates two_photos) [] = Inr [(0, [(1, 2)])]"
    by (simp add: two_photos_def)
  ultimately show ?thesis
    by (simp add: reconciled_def Let_def src) (simp add: two_photos_def nths_Cons)
qed

theorem reconciled_drops_only_overlap_witness:
  "\<exists>R. removable (mr_items two_photos) {(1, 2)} R
     \<and> map line_item.truncate (nths (mr_items two_photos) (- R))
       = map line_item.truncate [photo_row ''Milk'' 2 0, photo_row ''Tea'' 3 0, photo_row ''Tea'' 3 1]"
  using reconciled_drops_only_overlap [OF two_photos_run] by (auto simp: two_photos_def)

end
