(* ===== verification/LlmProvider.thy ===== *)
theory LlmProvider
  imports ImageFiles MultiImage
begin

text \<open>
  The language-model providers: provider/llm/base.py (prompt, answer parsing), ollama.py and
  openai.py (images to messages, the three-attempt repair loop, the vision filter) and factory.py.
  What is not program text is an argument: the server's reply to a conversation (\<open>send\<close>), JSON decoding
  and pydantic's validation (record \<open>codec\<close>), the schema texts, MIME guessing. A call to the outside
  takes time: it is a function of the world to a result and a duration in seconds.
\<close>

section \<open>Calls that take time\<close>

type_synonym 'a call = "world \<Rightarrow> (exn + 'a) \<times> nat"

definition call :: "'a call \<Rightarrow> (world, 'a) py" where
  "call f w = (case f w of (r, d) \<Rightarrow> (r, w\<lparr>w_clock := w_clock w + int d\<rparr>))"

text \<open>\<open>async with asyncio.timeout(limit)\<close>: past the deadline the call is cancelled.\<close>

definition call_within :: "int \<Rightarrow> 'a call \<Rightarrow> (world, 'a) py" where
  "call_within limit f w = (case f w of (r, d) \<Rightarrow>
     if int d < limit then (r, w\<lparr>w_clock := w_clock w + int d\<rparr>)
     else (Inl (TimeoutError []), w\<lparr>w_clock := w_clock w + limit\<rparr>))"

lemma call_ok [keeps_intro]: "keeps db_ok (call f)" "keeps db_ok (call_within t f)"
  by (auto simp: keeps_def call_def call_within_def split: prod.split)

lemma only_files_call [only_files_intro]: "only_files (call f)" "only_files (call_within t f)"
  by (auto simp: only_files_def call_def call_within_def same_tables_def split: prod.split)

section \<open>Models and results\<close>

record model_info =
  mi_id :: string
  mi_size :: "string option"
  mi_caps :: "json list option"
  mi_digest :: "string option"

record analysis =
  an_receipt :: receipt
  an_attempts :: nat
  an_elapsed_ms :: int
  an_digest :: "string option"

text \<open>The interface \<open>LLMProvider\<close>, as its users see it.\<close>

record provider =
  p_models :: "model_info list call"
  p_analyse :: "string \<Rightarrow> string list \<Rightarrow> string list \<Rightarrow> analysis call"
  p_alive :: "bool call"
  p_timeout :: int

section \<open>The prompt\<close>

definition CATEGORY_DEFINITIONS :: "(string \<times> string) list" where
  "CATEGORY_DEFINITIONS = [
     (''unknown'', ''Could not tell from the receipt''),
     (''other'', ''Known item outside the other categories''),
     (''milk'', ''Dairy milk and plant milk alternatives''),
     (''cheese'', ''Cheese''),
     (''yogurt'', ''Yogurt and quark''),
     (''eggs'', ''Eggs''),
     (''butter_spreads'', ''Butter, margarine, and spreads''),
     (''bread_bakery'', ''Bread and bakery items''),
     (''cereals'', ''Breakfast cereals and muesli''),
     (''pasta_rice_grains'', ''Pasta, rice, and grains''),
     (''vegetables'', ''Vegetables''),
     (''fruit'', ''Fruit''),
     (''meat'', ''Meat''),
     (''fish'', ''Fish and seafood''),
     (''ready_meals'', ''Prepared meals''),
     (''snacks_sweets'', ''Snacks and sweets''),
     (''coffee_tea'', ''Coffee and tea''),
     (''water'', ''Water''),
     (''soft_drinks'', ''Soft drinks and juice''),
     (''alcohol'', ''Alcoholic drinks''),
     (''sauces_spices'', ''Sauces, spices, and condiments''),
     (''cleaning'', ''Cleaning products''),
     (''household'', ''Household supplies''),
     (''personal_care'', ''Personal care and hygiene''),
     (''pet'', ''Pet products''),
     (''health'', ''Medicines and health products''),
     (''clothing'', ''Clothing''),
     (''electronics'', ''Electronics''),
     (''hardware'', ''Tools and hardware''),
     (''restaurant'', ''Restaurant food and drinks''),
     (''fuel'', ''Fuel''),
     (''services'', ''Services''),
     (''deposit'', ''Container deposit or refund'')
  ]"

definition category_definition :: "string \<Rightarrow> string" where
  "category_definition c = (case map_of CATEGORY_DEFINITIONS c of None \<Rightarrow> [] | Some d \<Rightarrow> d)"

definition category_list :: string where
  "category_list = py_join ''; '' (map (\<lambda>c. c @ '': '' @ category_definition c) CATEGORY_CODES)"

definition tag_instruction :: "string list \<Rightarrow> string" where
  "tag_instruction tags = (if tags \<noteq> [] then
     ''Add short tags to each line_item when useful. Prefer tags from this list: ''
     @ py_join '', '' tags
     @ ''. If no tag in the list fits, you may suggest a single new ''
     @ ''short tag (lowercase snake_case, at most three words); suggested tags are ''
     @ ''reviewed by a human before they become standard tags.''
   else ''Add short free-form tags to each line_item when useful.'')"

definition overlap_instruction :: "nat \<Rightarrow> string" where
  "overlap_instruction image_count = (if 1 < image_count then
     ''Extract EVERY purchased row separately from EACH photo, including overlap rows. ''
     @ ''Do NOT remove duplicates yourself. Set source_image to its zero-based photo index. ''
     @ ''Group line_items by photo, then top-to-bottom within each photo. ''
     @ ''In duplicate_candidates identify only the SAME printed rows visible at the end ''
     @ ''of one photo and the start of the next. Use zero-based line_items array indices. ''
     @ ''Include the entire ordered overlap, not isolated matching products. ''
     @ ''Use an empty candidate list when there is no clear visual overlap. ''
     @ ''Receipt-level totals must come from the printed receipt, not the duplicated rows.''
   else ''List line_items in the exact top-to-bottom order on the receipt.'')"

fun nat_str :: "nat \<Rightarrow> string" where
  "nat_str n = (if n < 10 then [digit_char n] else nat_str (n div 10) @ [digit_char (n mod 10)])"

declare nat_str.simps [simp del]

definition prompt_lines :: "string \<Rightarrow> string \<Rightarrow> string list \<Rightarrow> nat \<Rightarrow> string list" where
  \<open>prompt_lines receipt_schema multi_schema tags n = [
      ''You are a receipt analyser. You will be given one or more images of ONE receipt.'',
      ''    Images are ordered from top to bottom and may overlap. Return ONE complete receipt.'',
      ''    There are '' @ nat_str n @ '' input photos. '' @ overlap_instruction n,
      ''    Preserve genuinely repeated purchases, even when descriptions and prices are identical.'',
      ''    If the receipt is too blurry, cut off, or unreadable to extract reliably, return ONLY'',
      ''    {"error": {"code": "unreadable", "message": "Explain which part needs a clearer photo"}}.'',
      ''    This error response is an alternative to the receipt schema. Do not invent missing values.'',
      ''    You should analyze the receipt and provide a machine-readable JSON response based on the receipt.'',
      ''    Determine merchant_name from text that is actually printed on the receipt (store name in the'',
      ''    header or footer, the address line, a website, or any other written hint).'',
      ''    Do not guess or infer the company name from a logo, photo, or design; if no printed name exists,'',
      ''    use the best available written hint.'',
      ''    '' @ tag_instruction tags,
      ''    Set exactly one spending_category on each line_item using only these codes:'',
      ''    '' @ category_list @ ''.'',
      ''    Use unknown when the text does not support a category; use deposit for Pfand lines.'',
      ''    Set the top-level category to the single best category for the whole purchase.'',
      ''    Use positive unit_price and total_price for deposit/Pfand charges; use negative prices'',
      ''    for refunds, credits, or deposits returned to the customer.'',
      ''    Tag every deposit charge or return with `deposit`, and set spending_category to deposit.'',
      ''    Do not add any additional text or commentary. Only provide the JSON response matching this schema:'',
      [],
      ''    '' @ (if 1 < n then multi_schema else receipt_schema),
      ''    '']\<close>

definition build_prompt :: "string \<Rightarrow> string \<Rightarrow> string list \<Rightarrow> nat \<Rightarrow> string" where
  "build_prompt receipt_schema multi_schema tags n =
     py_join [CHR 0x0A] (prompt_lines receipt_schema multi_schema tags n)"

lemma sublist_mid: "sublist x l \<Longrightarrow> sublist x (p @ l @ s)"
  using sublist_appendI sublist_order.order_trans by blast

lemma sublist_right: "sublist x l \<Longrightarrow> sublist x (p @ l)"
  using sublist_mid [of x l p "[]"] by simp

lemma join_sublist: "w \<in> set ws \<Longrightarrow> sublist w (py_join sep ws)"
proof (induction sep ws rule: py_join.induct)
  case (3 sep w' v ws)
  then show ?case
    using sublist_mid [of w w' "[]" "sep @ py_join sep (v # ws)"]
      sublist_right [of w "py_join sep (v # ws)" "w' @ sep"] by auto
qed auto

lemma codes_defined: "list_all (\<lambda>c. category_definition c \<noteq> []) CATEGORY_CODES"
  by code_simp

text \<open>
  Fact: the prompt states the vocabulary. Whatever the tags and the number of photos, every
  spending category code the validator accepts occurs in the prompt with its definition, and so
  does every allowed tag.
\<close>

theorem prompt_states_vocabulary:
  "(\<forall>c \<in> set CATEGORY_CODES. sublist (c @ '': '' @ category_definition c) (build_prompt rs ms tags n)
      \<and> category_definition c \<noteq> [])
   \<and> (\<forall>t \<in> set tags. sublist t (build_prompt rs ms tags n))"
proof (intro conjI ballI)
  have line: "sublist x (build_prompt rs ms tags n)" if "sublist x l" "l \<in> set (prompt_lines rs ms tags n)" for x l
    unfolding build_prompt_def using that join_sublist sublist_order.order_trans by blast
  {
    fix c assume c: "c \<in> set CATEGORY_CODES"
    have "sublist (c @ '': '' @ category_definition c) category_list"
      unfolding category_list_def by (rule join_sublist) (use c in simp)
    then have "sublist (c @ '': '' @ category_definition c) (''    '' @ category_list @ ''.'')" by (rule sublist_mid)
    then show "sublist (c @ '': '' @ category_definition c) (build_prompt rs ms tags n)"
      by (rule line) (unfold prompt_lines_def list.set, (rule insertI1 | rule insertI2)+)
    show "category_definition c \<noteq> []"
      using c codes_defined by (auto simp: list_all_iff)
  next
    fix t assume t: "t \<in> set tags"
    then have ne: "tags \<noteq> []" by auto
    have "sublist t (py_join '', '' tags)" using t by (rule join_sublist)
    then have "sublist t (tag_instruction tags)" unfolding tag_instruction_def if_P [OF ne] by (rule sublist_mid)
    then have "sublist t (''    '' @ tag_instruction tags)" by (rule sublist_right)
    then show "sublist t (build_prompt rs ms tags n)"
      by (rule line) (unfold prompt_lines_def list.set, (rule insertI1 | rule insertI2)+)
  }
qed

lemma prompt_states_vocabulary_witness:
  "''deposit'' \<in> set CATEGORY_CODES
   \<and> sublist (''deposit'' @ '': '' @ category_definition ''deposit'') (build_prompt [] [] [''organic''] 2)
   \<and> sublist ''organic'' (build_prompt [] [] [''organic''] 2)"
proof -
  have c: "''deposit'' \<in> set CATEGORY_CODES" by code_simp
  have t: "''organic'' \<in> set [''organic'']" by (rule list.set_intros)
  note p = prompt_states_vocabulary [of "[]" "[]" "[''organic'']" 2]
  show ?thesis
    by (intro conjI c bspec [OF conjunct1 [OF p] c, THEN conjunct1] bspec [OF conjunct2 [OF p] t])
qed

section \<open>Reading an answer\<close>

text \<open>
  \<open>cd_loads\<close> is \<open>json.loads\<close> (None for a JSONDecodeError), the next two pydantic's
  \<open>model_validate_json\<close> (Inl is the text of the ValidationError), \<open>cd_str\<close> Python's \<open>str\<close> of a JSON value
  that is not a string.
\<close>

record codec =
  cd_loads :: "string \<Rightarrow> json option"
  cd_receipt :: "string \<Rightarrow> string + receipt"
  cd_multi :: "string \<Rightarrow> string + multi_receipt"
  cd_receipt_schema :: string
  cd_multi_schema :: string
  cd_str :: "json \<Rightarrow> string"

definition unfenced :: "string \<Rightarrow> string" where
  "unfenced response = py_strip (removesuffix (removeprefix (py_strip response) ''```json'') ''```'')"

text \<open>The message of the error answer the prompt allows.\<close>

definition unreadable_answer :: "json option \<Rightarrow> string option" where
  "unreadable_answer payload = (case Option.bind payload (jget ''error'') of
     Some (JObj kvs) \<Rightarrow>
       (if jget ''code'' (JObj kvs) = Some (JStr ''unreadable'')
        then (case jget ''message'' (JObj kvs) of Some (JStr m) \<Rightarrow> Some (take 1000 m) | _ \<Rightarrow> None) else None)
   | _ \<Rightarrow> None)"

definition failed_validation :: "string \<Rightarrow> exn" where
  "failed_validation e = ValueError (''LLM output failed validation: '' @ e)"

definition parse_llm_response :: "codec \<Rightarrow> string \<Rightarrow> nat \<Rightarrow> exn + receipt" where
  "parse_llm_response cd response image_count =
     (let raw = unfenced response in
      case unreadable_answer (cd_loads cd raw) of
        Some m \<Rightarrow> Inl (UnreadableReceiptError m)
      | None \<Rightarrow>
          if 1 < image_count then
            (case cd_multi cd raw of Inl e \<Rightarrow> Inl (failed_validation e) | Inr m \<Rightarrow> reconciled m image_count)
          else (case cd_receipt cd raw of Inl e \<Rightarrow> Inl (failed_validation e) | Inr r \<Rightarrow> Inr r))"

section \<open>Messages\<close>

text \<open>
  A conversation: the prompt with its images (paths for Ollama, data URLs for OpenAI), then for each
  refused answer the answer and the request to repair it.
\<close>

datatype message = Prompt string "string list" | Assistant string | UserText string

definition missing_image :: "string \<Rightarrow> exn" where
  "missing_image p = FileNotFoundError (''Image not found at: '' @ p)"

definition ollama_messages :: "codec \<Rightarrow> string list \<Rightarrow> string list \<Rightarrow> (world, message list) py" where
  "ollama_messages cd images tags =
     seq (for_each images (\<lambda>p. bind (gets (file_exists p)) (\<lambda>there. guard there (missing_image p))))
       (ret [Prompt (build_prompt (cd_receipt_schema cd) (cd_multi_schema cd) tags (length images)) images])"

definition b64_char :: "nat \<Rightarrow> char" where
  "b64_char n = char_of (if n < 26 then 65 + n else if n < 52 then 71 + n else if n < 62 then n - 4
     else if n = 62 then 43 else 47)"

fun b64encode :: "nat list \<Rightarrow> string" where
  "b64encode [] = []"
| "b64encode [a] = [b64_char (a div 4), b64_char (a mod 4 * 16), CHR ''='', CHR ''='']"
| "b64encode [a, b] =
     [b64_char (a div 4), b64_char (a mod 4 * 16 + b div 16), b64_char (b mod 16 * 4), CHR ''='']"
| "b64encode (a # b # c # rest) =
     [b64_char (a div 4), b64_char (a mod 4 * 16 + b div 16), b64_char (b mod 16 * 4 + c div 64), b64_char (c mod 64)]
     @ b64encode rest"

definition DEFAULT_IMAGE_MIME :: string where
  "DEFAULT_IMAGE_MIME = ''image/jpeg''"

definition data_url :: "(string \<Rightarrow> string option) \<Rightarrow> string \<Rightarrow> string \<Rightarrow> string" where
  "data_url guess_type p content =
     ''data:'' @ (case guess_type (path_name p) of None \<Rightarrow> DEFAULT_IMAGE_MIME | Some m \<Rightarrow> if m = [] then DEFAULT_IMAGE_MIME else m)
     @ '';base64,'' @ b64encode (map code_of content)"

definition openai_messages ::
  "codec \<Rightarrow> (string \<Rightarrow> string option) \<Rightarrow> string list \<Rightarrow> string list \<Rightarrow> (world, message list) py" where
  "openai_messages cd guess_type images tags =
     bind (collect images (\<lambda>p. bind (gets (\<lambda>w. w_files w p)) (\<lambda>f. case f of
         None \<Rightarrow> raise (missing_image p) | Some content \<Rightarrow> ret (data_url guess_type p content)))) (\<lambda>urls.
       ret [Prompt (build_prompt (cd_receipt_schema cd) (cd_multi_schema cd) tags (length images)) urls])"

definition repair_text :: "string \<Rightarrow> string" where
  "repair_text err = ''That response was not valid JSON matching the required schema. Error: '' @ err
     @ [CHR 0x0A, CHR 0x0A] @ ''Please respond again with ONLY corrected JSON.''"

definition append_repair_message :: "message list \<Rightarrow> string \<Rightarrow> string \<Rightarrow> message list" where
  "append_repair_message messages bad_output err = messages @ [Assistant bad_output, UserText (repair_text err)]"

section \<open>The repair loop\<close>

definition RETRY_LIMIT :: nat where
  "RETRY_LIMIT = 3"

fun find_sub :: "string \<Rightarrow> string \<Rightarrow> string option" where
  "find_sub p s = (if prefix p s then Some (drop (length p) s)
     else (case s of [] \<Rightarrow> None | _ # t \<Rightarrow> find_sub p t))"

declare find_sub.simps [simp del]

text \<open>\<open>re.search(r"provide.*image", content, IGNORECASE | DOTALL)\<close> on an answer that is no JSON.\<close>

definition declines_images :: "string \<Rightarrow> bool" where
  "declines_images content \<longleftrightarrow>
     \<not> (py_startswith (py_lstrip content) ''{'' \<or> py_startswith (py_lstrip content) ''```'')
     \<and> Option.bind (find_sub ''provide'' (py_lower content)) (find_sub ''image'') \<noteq> None"

definition no_vision :: "string \<Rightarrow> exn" where
  "no_vision model = ValueError (''Model '' @ [CHR 0x27] @ model @ [CHR 0x27]
     @ '' returned a message indicating it cannot process images. ''
     @ ''Please ensure the model supports vision capabilities.'')"

definition attempts_exhausted :: "string \<Rightarrow> exn" where
  "attempts_exhausted model = ValueError (''Failed to get a valid response from model '' @ [CHR 0x27] @ model
     @ [CHR 0x27] @ '' after '' @ nat_str RETRY_LIMIT @ '' attempts'')"

primrec attempt_loop ::
  "codec \<Rightarrow> (message list \<Rightarrow> string call) \<Rightarrow> string \<Rightarrow> nat \<Rightarrow> nat \<Rightarrow> message list \<Rightarrow> (world, receipt \<times> nat) py" where
  "attempt_loop cd send model image_count 0 messages = raise (attempts_exhausted model)"
| "attempt_loop cd send model image_count (Suc left) messages =
     bind (call (send messages)) (\<lambda>content.
       if content = [] then attempt_loop cd send model image_count left messages
       else if declines_images content then raise (no_vision model)
       else case parse_llm_response cd content image_count of
           Inr receipt \<Rightarrow> ret (receipt, RETRY_LIMIT - left)
         | Inl e \<Rightarrow> (case e of
               ValueError msg \<Rightarrow> attempt_loop cd send model image_count left (append_repair_message messages content msg)
             | _ \<Rightarrow> raise e))"

definition analyse_receipt_with_metadata ::
  "codec \<Rightarrow> (message list \<Rightarrow> string call) \<Rightarrow> string \<Rightarrow> nat \<Rightarrow> (world, message list) py \<Rightarrow> (world, analysis) py" where
  "analyse_receipt_with_metadata cd send model image_count build =
     bind (gets w_clock) (\<lambda>started.
     bind build (\<lambda>messages.
     bind (attempt_loop cd send model image_count RETRY_LIMIT messages) (\<lambda>(receipt, attempts).
     bind (gets w_clock) (\<lambda>now.
       ret \<lparr>an_receipt = receipt, an_attempts = attempts, an_elapsed_ms = (now - started) * 1000, an_digest = None\<rparr>))))"

definition ollama_analyse ::
  "codec \<Rightarrow> (message list \<Rightarrow> string call) \<Rightarrow> string \<Rightarrow> string list \<Rightarrow> string list \<Rightarrow> (world, analysis) py" where
  "ollama_analyse cd send model images tags =
     analyse_receipt_with_metadata cd send model (length images) (ollama_messages cd images tags)"

definition openai_analyse ::
  "codec \<Rightarrow> (string \<Rightarrow> string option) \<Rightarrow> (message list \<Rightarrow> string call) \<Rightarrow> string \<Rightarrow> string list \<Rightarrow> string list
   \<Rightarrow> (world, analysis) py" where
  "openai_analyse cd guess_type send model images tags =
     analyse_receipt_with_metadata cd send model (length images) (openai_messages cd guess_type images tags)"

text \<open>A provider's coroutine, seen as a call.\<close>

definition as_call :: "(world, 'a) py \<Rightarrow> 'a call" where
  "as_call m w = (fst (m w), nat (w_clock (snd (m w)) - w_clock w))"

section \<open>The model lists\<close>

record ollama_entry =
  oe_model :: "string option"
  oe_digest :: "string option"
  oe_size :: "string option"

definition VISION_CAPABILITY_FIELD :: string where
  "VISION_CAPABILITY_FIELD = ''vision''"

text \<open>\<open>show\<close> is the request for one model's capabilities.\<close>

fun ollama_models_from :: "(string \<Rightarrow> string list option call) \<Rightarrow> ollama_entry list \<Rightarrow> (world, model_info list) py" where
  "ollama_models_from show_model [] = ret []"
| "ollama_models_from show_model (e # es) =
     (case oe_model e of
        None \<Rightarrow> ollama_models_from show_model es
      | Some m \<Rightarrow>
          if m = [] then ollama_models_from show_model es
          else bind (call (show_model m)) (\<lambda>caps.
            if (case caps of None \<Rightarrow> True | Some cs \<Rightarrow> VISION_CAPABILITY_FIELD \<notin> set cs)
            then ollama_models_from show_model es
            else bind (ollama_models_from show_model es) (\<lambda>rest.
              ret (\<lparr>mi_id = m, mi_size = oe_size e, mi_caps = map_option (map JStr) caps, mi_digest = oe_digest e\<rparr> # rest))))"

definition ollama_models ::
  "ollama_entry list call \<Rightarrow> (string \<Rightarrow> string list option call) \<Rightarrow> (world, model_info list) py" where
  "ollama_models list_entries show_model = bind (call list_entries) (ollama_models_from show_model)"

definition truthy :: "json \<Rightarrow> bool" where
  "truthy j = (case j of JNull \<Rightarrow> False | JBool b \<Rightarrow> b | JInt n \<Rightarrow> n \<noteq> 0 | JNum r \<Rightarrow> r \<noteq> 0
     | JStr s \<Rightarrow> s \<noteq> [] | JArr xs \<Rightarrow> xs \<noteq> [] | JObj kvs \<Rightarrow> kvs \<noteq> [])"

text \<open>\<open>a or b\<close> on looked-up values, and \<open>str\<close> of one (a missing key reads None).\<close>

definition or_else :: "json option \<Rightarrow> json option \<Rightarrow> json option" where
  "or_else a b = (case a of Some j \<Rightarrow> if truthy j then a else b | None \<Rightarrow> b)"

definition str_of :: "codec \<Rightarrow> json option \<Rightarrow> string" where
  "str_of cd j = (case j of None \<Rightarrow> ''None'' | Some JNull \<Rightarrow> ''None'' | Some (JStr s) \<Rightarrow> s | Some v \<Rightarrow> cd_str cd v)"

definition VISION_CAPABILITY_FIELDS :: "string list" where
  "VISION_CAPABILITY_FIELDS = [''multimodal'', ''vision'']"

definition is_dict :: "json \<Rightarrow> bool" where
  "is_dict j = (case j of JObj _ \<Rightarrow> True | _ \<Rightarrow> False)"

definition lists_image :: "json option \<Rightarrow> bool" where
  "lists_image j = (case j of Some (JArr xs) \<Rightarrow> JStr ''image'' \<in> set xs | _ \<Rightarrow> False)"

definition is_vision_capable :: "json \<Rightarrow> json list option \<Rightarrow> bool" where
  "is_vision_capable entry capabilities \<longleftrightarrow>
     (case capabilities of None \<Rightarrow> False | Some cs \<Rightarrow> list_ex (\<lambda>f. JStr f \<in> set cs) VISION_CAPABILITY_FIELDS)
     \<or> (case jget ''architecture'' entry of Some a \<Rightarrow> lists_image (jget ''input_modalities'' a) | None \<Rightarrow> False)
     \<or> (case jget ''meta'' entry of Some (JObj kvs) \<Rightarrow> list_ex (\<lambda>(k, _). lists_image (jget k (JObj kvs))) kvs | _ \<Rightarrow> False)"

text \<open>\<open>f"{value:.1f}{suffix}".replace(".0", "")\<close>\<close>

definition one_decimal :: "rat \<Rightarrow> string \<Rightarrow> string" where
  "one_decimal v suf = (let t = nat (round_half_even (10 * v)) in
     nat_str (t div 10) @ (if t mod 10 = 0 then [] else ''.'' @ [digit_char (t mod 10)]) @ suf)"

definition format_parameter_size :: "nat \<Rightarrow> string" where
  "format_parameter_size n =
     (if 1000000000 \<le> n then one_decimal (to_double (of_nat n / 1000000000)) ''B''
      else if 1000000 \<le> n then one_decimal (to_double (of_nat n / 1000000)) ''M''
      else if 1000 \<le> n then one_decimal (to_double (of_nat n / 1000)) ''K''
      else nat_str n)"

definition as_int :: "json option \<Rightarrow> int option" where
  "as_int j = (case j of Some (JInt n) \<Rightarrow> Some n | Some (JBool b) \<Rightarrow> Some (if b then 1 else 0) | _ \<Rightarrow> None)"

definition entry_size :: "codec \<Rightarrow> json \<Rightarrow> json \<Rightarrow> string" where
  "entry_size cd entry data =
     (let size_text = (case jget ''details'' entry of
          Some (JObj kvs) \<Rightarrow> (let v = or_else (jget ''parameter_size'' (JObj kvs)) (Some (JStr [])) in str_of cd v)
        | _ \<Rightarrow> []) in
      if size_text \<noteq> [] then size_text
      else (case Option.bind (jget ''meta'' data) (\<lambda>m. as_int (jget ''n_params'' m)) of
          Some n \<Rightarrow> if 0 < n then format_parameter_size (nat n) else []
        | None \<Rightarrow> []))"

definition nonempty :: "string \<Rightarrow> string option" where
  "nonempty s = (if s = [] then None else Some s)"

definition caps_of :: "json \<Rightarrow> json list" where
  "caps_of entry = (case jget ''capabilities'' entry of Some (JArr cs) \<Rightarrow> cs | _ \<Rightarrow> [])"

text \<open>\<open>data_by_id.get(model_id, {})\<close>: of entries with one id the last.\<close>

definition data_entry :: "codec \<Rightarrow> json list \<Rightarrow> string \<Rightarrow> json" where
  "data_entry cd entries k = (case fetchrow (rev (filter (\<lambda>d. is_dict d \<and> str_of cd (jget ''id'' d) = k) entries)) of
     None \<Rightarrow> JObj [] | Some d \<Rightarrow> d)"

definition ollama_style :: "codec \<Rightarrow> json list \<Rightarrow> json \<Rightarrow> model_info option" where
  "ollama_style cd data entry =
     (let k = str_of cd (or_else (jget ''model'' entry) (or_else (jget ''name'' entry) (Some (JStr []))));
          d = data_entry cd data k in
      if \<not> is_dict entry \<or> k = [] \<or> \<not> is_vision_capable d (Some (caps_of entry)) then None
      else Some \<lparr>mi_id = k, mi_size = nonempty (entry_size cd entry d), mi_caps = Some (caps_of entry),
                 mi_digest = nonempty (str_of cd (or_else (jget ''digest'' entry) (Some (JStr []))))\<rparr>)"

definition openai_style :: "codec \<Rightarrow> json \<Rightarrow> model_info option" where
  "openai_style cd entry =
     (let k = str_of cd (or_else (jget ''id'' entry) (Some (JStr []))) in
      if \<not> is_dict entry \<or> k = [] \<or> \<not> is_vision_capable entry None then None
      else Some \<lparr>mi_id = k, mi_size = None, mi_caps = Some (caps_of entry),
                 mi_digest = nonempty (str_of cd (or_else (jget ''digest'' entry) (Some (JStr []))))\<rparr>)"

text \<open>\<open>list(body.get(key) or [])\<close>\<close>

definition entries_of :: "json \<Rightarrow> string \<Rightarrow> exn + json list" where
  "entries_of body key = (case body of
     JObj _ \<Rightarrow> (case or_else (jget key body) (Some (JArr [])) of
         Some (JArr xs) \<Rightarrow> Inr xs
       | Some (JObj kvs) \<Rightarrow> Inr (map JStr (remdups (map fst kvs)))
       | Some (JStr s) \<Rightarrow> Inr (map (\<lambda>c. JStr [c]) s)
       | _ \<Rightarrow> Inl (OtherError ''TypeError''))
   | _ \<Rightarrow> Inl (OtherError ''AttributeError''))"

definition openai_models :: "codec \<Rightarrow> string call \<Rightarrow> (world, model_info list) py" where
  "openai_models cd list_models =
     bind (call list_models) (\<lambda>content.
     bind (lift_result (case cd_loads cd content of None \<Rightarrow> Inl (ValueError ''Expecting value'') | Some j \<Rightarrow> Inr j)) (\<lambda>body.
     bind (lift_result (entries_of body ''data'')) (\<lambda>data.
     bind (lift_result (entries_of body ''models'')) (\<lambda>entries.
       ret (List.map_filter (ollama_style cd data) entries
            @ (if entries = [] then List.map_filter (openai_style cd) data else []))))))"

text \<open>\<open>check_connection\<close>: the errors the SDKs raise for an unreachable server read as "no".\<close>

definition check_connection :: "(exn \<Rightarrow> bool) \<Rightarrow> 'a call \<Rightarrow> (world, bool) py" where
  "check_connection unreachable list_models =
     catch (seq (call list_models) (ret True)) (\<lambda>e. if unreachable e then ret False else raise e)"

section \<open>Providers\<close>

definition ollama_provider ::
  "codec \<Rightarrow> ollama_entry list call \<Rightarrow> (string \<Rightarrow> string list option call) \<Rightarrow> (string \<Rightarrow> message list \<Rightarrow> string call)
   \<Rightarrow> (exn \<Rightarrow> bool) \<Rightarrow> int \<Rightarrow> provider" where
  "ollama_provider cd list_entries show_model send unreachable limit =
     \<lparr>p_models = as_call (ollama_models list_entries show_model),
      p_analyse = (\<lambda>model images tags. as_call (ollama_analyse cd (send model) model images tags)),
      p_alive = as_call (check_connection unreachable list_entries),
      p_timeout = limit\<rparr>"

definition openai_provider ::
  "codec \<Rightarrow> (string \<Rightarrow> string option) \<Rightarrow> string call \<Rightarrow> (string \<Rightarrow> message list \<Rightarrow> string call)
   \<Rightarrow> (exn \<Rightarrow> bool) \<Rightarrow> int \<Rightarrow> provider" where
  "openai_provider cd guess_type list_models send unreachable limit =
     \<lparr>p_models = as_call (openai_models cd list_models),
      p_analyse = (\<lambda>model images tags. as_call (openai_analyse cd guess_type (send model) model images tags)),
      p_alive = as_call (check_connection unreachable list_models),
      p_timeout = limit\<rparr>"

datatype provider_kind = OLLAMA | ANTHROPIC | OPENAI

definition get_llm_provider :: "provider_kind \<Rightarrow> provider \<Rightarrow> provider \<Rightarrow> exn + provider" where
  "get_llm_provider kind ollama openai = (case kind of OLLAMA \<Rightarrow> Inr ollama | OPENAI \<Rightarrow> Inr openai
     | ANTHROPIC \<Rightarrow> Inl (ValueError ''Unsupported LLM provider: LLMProviderEnum.ANTHROPIC''))"

section \<open>What a provider can answer\<close>

definition valid_multi :: "multi_receipt \<Rightarrow> bool" where
  "valid_multi m \<longleftrightarrow> valid_receipt ((mr_receipt m)\<lparr>rc_line_items := map line_item.truncate (mr_items m)\<rparr>)"

text \<open>pydantic returns models that satisfy their field constraints.\<close>

definition codec_sound :: "codec \<Rightarrow> bool" where
  "codec_sound cd \<longleftrightarrow> (\<forall>s r. cd_receipt cd s = Inr r \<longrightarrow> valid_receipt r) \<and> (\<forall>s m. cd_multi cd s = Inr m \<longrightarrow> valid_multi m)"

lemma reconciled_error: "reconciled m n = Inl e \<Longrightarrow> \<exists>msg. e = ValueError msg"
proof -
  have g: "group_pairs sources ps g = Inl e \<Longrightarrow> \<exists>msg. e = ValueError msg" for sources ps g
    by (induction sources ps g rule: group_pairs.induct) (auto split: if_splits)
  have r: "removed_rows items h = Inl e \<Longrightarrow> \<exists>msg. e = ValueError msg" for items h
    by (induction items h rule: removed_rows.induct) (auto split: if_splits sum.splits)
  show "reconciled m n = Inl e \<Longrightarrow> \<exists>msg. e = ValueError msg"
    using g r by (simp add: reconciled_def Let_def bad_sources_def split: if_splits sum.splits) metis+
qed

lemma reconciled_valid:
  assumes "reconciled m n = Inr r" and "valid_multi m"
  shows "valid_receipt r"
proof -
  obtain R where "r = (mr_receipt m)\<lparr>rc_line_items := map line_item.truncate (nths (mr_items m) (- R))\<rparr>"
    using reconciled_rest [OF assms(1)] by blast
  then show ?thesis using assms(2)
    by (auto simp: valid_multi_def valid_receipt_def list_all_iff dest: in_set_nthsD)
qed

lemma parse_valid: "codec_sound cd \<Longrightarrow> parse_llm_response cd s k = Inr r \<Longrightarrow> valid_receipt r"
  using reconciled_valid by (auto simp: parse_llm_response_def codec_sound_def Let_def split: option.splits sum.splits if_splits)

lemma parse_error:
  "parse_llm_response cd s k = Inl e \<Longrightarrow> (\<exists>msg. e = ValueError msg) \<or> (\<exists>msg. e = UnreadableReceiptError msg)"
  using reconciled_error
  by (auto simp: parse_llm_response_def Let_def failed_validation_def split: option.splits sum.splits if_splits)

definition answer_ok :: "codec \<Rightarrow> nat \<Rightarrow> exn + receipt \<times> nat \<Rightarrow> bool" where
  "answer_ok cd n r = (case r of Inl e \<Rightarrow> True
     | Inr (receipt, k) \<Rightarrow> (\<exists>s c. parse_llm_response cd s c = Inr receipt) \<and> RETRY_LIMIT - n < k \<and> k \<le> RETRY_LIMIT)"

definition failure_ok :: "(message list \<Rightarrow> string call) \<Rightarrow> string \<Rightarrow> exn \<Rightarrow> bool" where
  "failure_ok send model e \<longleftrightarrow> e = attempts_exhausted model \<or> e = no_vision model
     \<or> (\<exists>msg. e = UnreadableReceiptError msg) \<or> (\<exists>messages w d. send messages w = (Inl e, d))"

text \<open>One step of the loop: the request, then either an end or the loop on fewer attempts.\<close>

lemma attempt_step:
  obtains (ends) r d where "attempt_loop cd send model k (Suc n) msgs w = (r, w\<lparr>w_clock := w_clock w + int d\<rparr>)"
      "d = snd (send msgs w)" "case r of Inl e \<Rightarrow> failure_ok send model e
         | Inr (receipt, j) \<Rightarrow> j = RETRY_LIMIT - n \<and> (\<exists>s. parse_llm_response cd s k = Inr receipt)"
  | (again) msgs' d where "attempt_loop cd send model k (Suc n) msgs w
        = attempt_loop cd send model k n msgs' (w\<lparr>w_clock := w_clock w + int d\<rparr>)" "d = snd (send msgs w)"
proof -
  obtain r d where s: "send msgs w = (r, d)" by fastforce
  let ?w = "w\<lparr>w_clock := w_clock w + int d\<rparr>"
  have c: "call (send msgs) w = (r, ?w)" by (simp add: call_def s)
  show thesis
  proof (cases r)
    case (Inl e)
    show ?thesis by (rule ends [of "Inl e" d]) (use c Inl s in \<open>auto simp: failure_ok_def\<close>)
  next
    case (Inr content)
    consider "content = []" | "content \<noteq> []" "declines_images content"
      | receipt where "content \<noteq> []" "\<not> declines_images content" "parse_llm_response cd content k = Inr receipt"
      | e where "content \<noteq> []" "\<not> declines_images content" "parse_llm_response cd content k = Inl e"
      by (cases "parse_llm_response cd content k") auto
    then show ?thesis
    proof cases
      case 1
      then show ?thesis by (intro again [of msgs d]) (use c Inr s in auto)
    next
      case 2
      then show ?thesis by (intro ends [of "Inl (no_vision model)" d]) (use c Inr s in \<open>auto simp: failure_ok_def\<close>)
    next
      case (3 receipt)
      then show ?thesis by (intro ends [of "Inr (receipt, RETRY_LIMIT - n)" d]) (use c Inr s in auto)
    next
      case (4 e)
      from parse_error [OF 4(3)] show ?thesis
      proof
        assume "\<exists>msg. e = ValueError msg"
        then obtain msg where "e = ValueError msg" by blast
        then show ?thesis using 4 c Inr s by (intro again [of "append_repair_message msgs content msg" d]) auto
      next
        assume "\<exists>msg. e = UnreadableReceiptError msg"
        then obtain msg where "e = UnreadableReceiptError msg" by blast
        then show ?thesis using 4 c Inr s by (intro ends [of "Inl e" d]) (auto simp: failure_ok_def)
      qed
    qed
  qed
qed

lemma attempt_loop_spec:
  assumes "n \<le> RETRY_LIMIT" and "\<And>ms v. snd (send ms v) \<le> d"
  shows "\<exists>r t. attempt_loop cd send model k n msgs w = (r, w\<lparr>w_clock := w_clock w + int t\<rparr>) \<and> t \<le> n * d
    \<and> answer_ok cd n r \<and> (\<forall>e. r = Inl e \<longrightarrow> failure_ok send model e)"
  using assms(1)
proof (induction n arbitrary: msgs w)
  case 0
  show ?case by (auto simp: answer_ok_def failure_ok_def intro: exI [of _ 0])
next
  case (Suc n)
  show ?case
  proof (rule attempt_step [of cd send model k n msgs w])
    fix r t
    assume "attempt_loop cd send model k (Suc n) msgs w = (r, w\<lparr>w_clock := w_clock w + int t\<rparr>)" "t = snd (send msgs w)"
      and r: "case r of Inl e \<Rightarrow> failure_ok send model e
         | Inr (receipt, j) \<Rightarrow> j = RETRY_LIMIT - n \<and> (\<exists>s. parse_llm_response cd s k = Inr receipt)"
    moreover have "snd (send msgs w) \<le> Suc n * d" using assms(2) [of msgs w] by (metis le_add1 mult_Suc order.trans)
    moreover have "answer_ok cd (Suc n) r" using r Suc.prems by (auto simp: answer_ok_def split: sum.splits)
    ultimately show ?thesis by (auto split: sum.splits)
  next
    fix msgs' t
    assume step: "attempt_loop cd send model k (Suc n) msgs w
        = attempt_loop cd send model k n msgs' (w\<lparr>w_clock := w_clock w + int t\<rparr>)" "t = snd (send msgs w)"
    obtain r t' where IH: "attempt_loop cd send model k n msgs' (w\<lparr>w_clock := w_clock w + int t\<rparr>)
        = (r, w\<lparr>w_clock := w_clock w + int t + int t'\<rparr>)" "t' \<le> n * d" "answer_ok cd n r"
      "\<forall>e. r = Inl e \<longrightarrow> failure_ok send model e"
      using Suc.IH [of msgs' "w\<lparr>w_clock := w_clock w + int t\<rparr>"] Suc.prems by auto
    have "answer_ok cd (Suc n) r" using IH(3) by (auto simp: answer_ok_def split: sum.splits)
    moreover have "t + t' \<le> Suc n * d" using assms(2) [of msgs w] step(2) IH(2) by simp
    ultimately show ?thesis using step(1) IH(1,4) by (intro exI [of _ r] exI [of _ "t + t'"]) (simp add: add.assoc)
  qed
qed

lemma metadata_outcomes:
  assumes sound: "codec_sound cd" and fast: "\<And>ms v. snd (send ms v) \<le> d"
    and build: "build \<in> {ollama_messages cd images tags, openai_messages cd guess images tags}"
  shows "\<exists>r t. analyse_receipt_with_metadata cd send model (length images) build w = (r, w\<lparr>w_clock := w_clock w + int t\<rparr>)
    \<and> t \<le> 3 * d
    \<and> (case r of
         Inr a \<Rightarrow> valid_receipt (an_receipt a) \<and> 1 \<le> an_attempts a \<and> an_attempts a \<le> 3 \<and> an_elapsed_ms a = 1000 * int t
       | Inl e \<Rightarrow> (\<exists>p \<in> set images. e = missing_image p \<and> \<not> file_exists p w) \<or> failure_ok send model e)"
proof -
  have images_checked: "for_each ps (\<lambda>p. bind (gets (file_exists p)) (\<lambda>b. guard b (missing_image p))) w \<in>
      insert (Inr (), w) ((\<lambda>p. (Inl (missing_image p), w)) ` {p \<in> set ps. \<not> file_exists p w})" for ps
    by (induction ps) (auto simp: seq_def guard_def bind_def)
  have images_read: "(\<exists>us. collect ps (\<lambda>p. bind (gets (\<lambda>w. w_files w p)) (\<lambda>f. case f of
         None \<Rightarrow> raise (missing_image p) | Some content \<Rightarrow> ret (data_url guess p content))) w = (Inr us, w))
      \<or> (\<exists>p \<in> set ps. \<not> file_exists p w \<and> collect ps (\<lambda>p. bind (gets (\<lambda>w. w_files w p)) (\<lambda>f. case f of
         None \<Rightarrow> raise (missing_image p) | Some content \<Rightarrow> ret (data_url guess p content))) w = (Inl (missing_image p), w))" for ps
    by (induction ps) (auto simp: bind_def file_exists_def split: option.splits)
  have "(\<exists>ms. build w = (Inr ms, w)) \<or> (\<exists>p \<in> set images. \<not> file_exists p w \<and> build w = (Inl (missing_image p), w))"
    using build images_checked [of images] images_read [of images]
    by (auto simp: ollama_messages_def openai_messages_def seq_def)
  then show ?thesis
  proof
    assume "\<exists>ms. build w = (Inr ms, w)"
    then obtain ms where ms: "build w = (Inr ms, w)" by blast
    obtain r t where run: "attempt_loop cd send model (length images) RETRY_LIMIT ms w = (r, w\<lparr>w_clock := w_clock w + int t\<rparr>)"
      and t: "t \<le> RETRY_LIMIT * d" and r: "answer_ok cd RETRY_LIMIT r" "\<forall>e. r = Inl e \<longrightarrow> failure_ok send model e"
      using attempt_loop_spec [of RETRY_LIMIT send d cd model "length images" ms w] fast by blast
    have t3: "t \<le> 3 * d" using t by (simp add: RETRY_LIMIT_def)
    show ?thesis
    proof (cases r)
      case (Inl e)
      have "analyse_receipt_with_metadata cd send model (length images) build w = (Inl e, w\<lparr>w_clock := w_clock w + int t\<rparr>)"
        using ms run Inl by (simp add: analyse_receipt_with_metadata_def)
      then show ?thesis using t3 r(2) Inl by (intro exI [of _ "Inl e"] exI [of _ t]) simp
    next
      case (Inr p)
      obtain rc k where p: "p = (rc, k)" by fastforce
      let ?a = "\<lparr>an_receipt = rc, an_attempts = k, an_elapsed_ms = int t * 1000, an_digest = None\<rparr>"
      have "analyse_receipt_with_metadata cd send model (length images) build w = (Inr ?a, w\<lparr>w_clock := w_clock w + int t\<rparr>)"
        using ms run Inr p by (simp add: analyse_receipt_with_metadata_def)
      moreover have "valid_receipt rc" "1 \<le> k" "k \<le> 3"
        using r(1) Inr p parse_valid [OF sound] by (auto simp: answer_ok_def RETRY_LIMIT_def)
      ultimately show ?thesis using t3 by (intro exI [of _ "Inr ?a"] exI [of _ t]) simp
    qed
  next
    assume "\<exists>p \<in> set images. \<not> file_exists p w \<and> build w = (Inl (missing_image p), w)"
    then obtain p where p: "p \<in> set images" "\<not> file_exists p w" and "build w = (Inl (missing_image p), w)" by blast
    then have "analyse_receipt_with_metadata cd send model (length images) build w = (Inl (missing_image p), w)"
      by (simp add: analyse_receipt_with_metadata_def)
    then show ?thesis using p(1,2) by (intro exI [of _ "Inl (missing_image p)"] exI [of _ 0]) auto
  qed
qed

text \<open>
  Property C15: what an analysis can end in. If the server answers each request within d seconds, the
  whole extraction of either provider takes at most three times as long and changes no table and no
  file. If it returns, the receipt satisfies every constraint of the model, after one to three
  attempts, with the time it took; if it fails, then because an image is missing, three answers were
  unusable, the model declined images, it declared the receipt unreadable, or the server failed.
\<close>

theorem analysis_outcomes:
  assumes "codec_sound cd" and "\<And>ms v. snd (send ms v) \<le> d"
    and "run \<in> {ollama_analyse cd send model images tags, openai_analyse cd guess send model images tags}"
  shows "\<exists>r t. run w = (r, w\<lparr>w_clock := w_clock w + int t\<rparr>) \<and> t \<le> 3 * d
    \<and> (case r of
         Inr a \<Rightarrow> valid_receipt (an_receipt a) \<and> 1 \<le> an_attempts a \<and> an_attempts a \<le> 3 \<and> an_elapsed_ms a = 1000 * int t
       | Inl e \<Rightarrow> (\<exists>p \<in> set images. e = missing_image p \<and> \<not> file_exists p w) \<or> failure_ok send model e)"
proof -
  have o: "build \<in> {ollama_messages cd images tags, openai_messages cd guess images tags} \<Longrightarrow> ?thesis"
    if "run = analyse_receipt_with_metadata cd send model (length images) build" for build
    using metadata_outcomes [where build = build and images = images and tags = tags and guess = guess and model = model and w = w, OF assms(1,2)] that by simp
  show ?thesis
    using assms(3) o [of "ollama_messages cd images tags"] o [of "openai_messages cd guess images tags"]
    by (auto simp: ollama_analyse_def openai_analyse_def)
qed

definition sample_codec :: codec where
  "sample_codec = \<lparr>cd_loads = (\<lambda>_. None), cd_receipt = (\<lambda>s. if s = ''{}'' then Inr sample_receipt else Inl ''no JSON''),
     cd_multi = (\<lambda>_. Inl ''no JSON''), cd_receipt_schema = ''S'', cd_multi_schema = ''M'', cd_str = (\<lambda>_. [])\<rparr>"

text \<open>A server that answers nonsense first and the receipt once it has been asked to repair it.\<close>

definition sample_server :: "message list \<Rightarrow> string call" where
  "sample_server messages w = (Inr (if length messages \<le> 1 then ''Hello'' else ''{}''), 2)"

lemma sample_codec_sound: "codec_sound sample_codec"
proof -
  have "valid_receipt sample_receipt" by code_simp
  then show ?thesis by (simp add: codec_sound_def sample_codec_def)
qed

theorem analysis_outcomes_witness:
  "\<exists>a t. ollama_analyse sample_codec sample_server ''m'' [''/t/a.png''] [] disk_world
       = (Inr a, disk_world\<lparr>w_clock := w_clock disk_world + int t\<rparr>) \<and> t \<le> 6 \<and> an_attempts a \<le> 3 \<and> valid_receipt (an_receipt a)"
proof -
  let ?m = "ollama_analyse sample_codec sample_server ''m'' [''/t/a.png''] []"
  have fast: "snd (sample_server ms v) \<le> 2" for ms v by (simp add: sample_server_def)
  have "\<not> isl (fst (?m disk_world))" by code_simp
  then obtain a w' where a: "?m disk_world = (Inr a, w')" by (cases "?m disk_world", cases "fst (?m disk_world)") auto
  have b: "?m \<in> {ollama_analyse sample_codec sample_server ''m'' [''/t/a.png''] [],
      openai_analyse sample_codec (\<lambda>_. None) sample_server ''m'' [''/t/a.png''] []}" by blast
  from analysis_outcomes [where w = disk_world, OF sample_codec_sound fast b] a
  show ?thesis by (auto split: sum.splits)
qed

end
