(* ===== verification/ReceiptService.thy ===== *)
theory ReceiptService
  imports LlmProvider
begin

text \<open>
  service/receipt_service.py (ReceiptService): what it adds to the stores. Persisted receipts are put
  into the owner's active collection (fail-safe), a blocked deletion is reported, an extraction runs
  under the provider's deadline, temporary files are removed whatever happens.
\<close>

section \<open>Tags\<close>

definition create_tag :: "string \<Rightarrow> (world, string \<times> bool) py" where
  "create_tag raw_name = bind (lift_result (tag_name raw_name)) (\<lambda>name.
     bind (create_tag_row name) (\<lambda>created. ret (name, created)))"

section \<open>Persisting and deleting\<close>

text \<open>\<open>attached\<close>: whether a CollectionDB was set.\<close>

definition capture_to_active :: "bool \<Rightarrow> uuid \<Rightarrow> uuid option \<Rightarrow> (world, unit) py" where
  "capture_to_active attached receipt_id user_id =
     (if user_id = None \<or> \<not> attached then ret ()
      else catch
        (bind (active_collection user_id False) (\<lambda>active. case active of
           None \<Rightarrow> ret () | Some c \<Rightarrow> collection_assign (c_id c) receipt_id))
        (\<lambda>_. ret ()))"

definition service_persist_receipt ::
  "bool \<Rightarrow> receipt \<Rightarrow> uuid option \<Rightarrow> receipt_status \<Rightarrow> bool \<Rightarrow> uuid option \<Rightarrow> (world, receipt_row) py" where
  "service_persist_receipt attached receipt image_id status verified user_id =
     bind (persist_receipt receipt image_id status verified user_id) (\<lambda>row.
     seq (capture_to_active attached (r_id row) user_id) (ret row))"

definition service_delete_receipt :: "uuid \<Rightarrow> uuid option \<Rightarrow> bool \<Rightarrow> (world, receipt_row option) py" where
  "service_delete_receipt k user_id can_see_all =
     catch (delete_receipt k user_id can_see_all)
       (\<lambda>e. if e = ForeignKeyViolation then raise ReceiptReferencedError else raise e)"

text \<open>The parts are rewritten one by one, and the whole list is stored after each.\<close>

definition moved_part :: "image_part \<Rightarrow> string option \<times> string option \<Rightarrow> image_part" where
  "moved_part p m = (case m of (path, thumb) \<Rightarrow>
     p\<lparr>part_path := (case path of None \<Rightarrow> part_path p | Some q \<Rightarrow> q),
       part_thumb := (case thumb of None \<Rightarrow> part_thumb p | Some t \<Rightarrow> Some t)\<rparr>)"

fun move_parts :: "image_cfg \<Rightarrow> uuid \<Rightarrow> uuid \<Rightarrow> image_part list \<Rightarrow> image_part list \<Rightarrow> (world, unit) py" where
  "move_parts cfg image_id receipt_id done_parts [] = ret ()"
| "move_parts cfg image_id receipt_id done_parts (p # ps) =
     bind (store_perm_image cfg (part_path p) receipt_id) (\<lambda>m.
     seq (update_additional_images image_id (done_parts @ [moved_part p m] @ ps))
       (move_parts cfg image_id receipt_id (done_parts @ [moved_part p m]) ps))"

definition move_additional_images :: "image_cfg \<Rightarrow> image_row \<Rightarrow> uuid \<Rightarrow> (world, unit) py" where
  "move_additional_images cfg img receipt_id = move_parts cfg (im_id img) receipt_id [] (im_additional img)"

section \<open>Extraction\<close>

definition available_tags :: "(world, string list) py" where
  "available_tags = bind (gets w_db_ready) (\<lambda>ready. if ready then list_tags else ret [])"

definition timed_out :: exn where
  "timed_out = AnalysisTimeoutError ''The LLM request timed out. Please try again.''"

text \<open>AnalysisTimeoutError is a TimeoutError too.\<close>

definition is_timeout :: "exn \<Rightarrow> bool" where
  "is_timeout e = (case e of TimeoutError _ \<Rightarrow> True | AnalysisTimeoutError _ \<Rightarrow> True | _ \<Rightarrow> False)"

definition analyse_receipt_from_path :: "provider \<Rightarrow> string \<Rightarrow> string list \<Rightarrow> (world, receipt) py" where
  "analyse_receipt_from_path prov model images =
     bind available_tags (\<lambda>tags.
     catch (bind (call_within (p_timeout prov) (p_analyse prov model images tags)) (\<lambda>a. ret (an_receipt a)))
       (\<lambda>e. if is_timeout e then raise timed_out else raise e))"

text \<open>\<open>try: m finally: f\<close>\<close>

definition finally_do :: "(world, 'a) py \<Rightarrow> (world, unit) py \<Rightarrow> (world, 'a) py" where
  "finally_do m f w = (case m w of (r, v) \<Rightarrow>
     (case f v of (Inl e, u) \<Rightarrow> (Inl e, u) | (Inr _, u) \<Rightarrow> (r, u)))"

definition unlink_if_there :: "string \<Rightarrow> (world, unit) py" where
  "unlink_if_there p = bind (gets (file_exists p)) (\<lambda>there. if there then unlink p else ret ())"

definition analyse_receipt_from_model :: "image_cfg \<Rightarrow> provider \<Rightarrow> string \<Rightarrow> string \<Rightarrow> (world, receipt) py" where
  "analyse_receipt_from_model cfg prov model content =
     bind (store_tmp_image cfg content) (\<lambda>tmp.
       finally_do (analyse_receipt_from_path prov model [tmp]) (unlink_if_there tmp))"

record model_result =
  mr_model_id :: string
  mr_result :: "receipt option"
  mr_error :: "string option"

text \<open>\<open>str(e)\<close>: the message of the program's own errors; \<open>msg\<close> is the text of any other exception.\<close>

definition exn_text :: "(exn \<Rightarrow> string) \<Rightarrow> exn \<Rightarrow> string" where
  "exn_text msg e = (case e of ValueError s \<Rightarrow> s | FileNotFoundError s \<Rightarrow> s | AnalysisTimeoutError s \<Rightarrow> s
     | UnreadableReceiptError s \<Rightarrow> s | NameConflictError s \<Rightarrow> s | NotFoundError s \<Rightarrow> s
     | UnsupportedImageTypeError t \<Rightarrow> ''Unsupported image type: '' @ t | _ \<Rightarrow> msg e)"

definition run_one :: "(exn \<Rightarrow> string) \<Rightarrow> model_info \<Rightarrow> exn + analysis \<Rightarrow> model_result" where
  "run_one msg m r = (case r of
     Inr a \<Rightarrow> \<lparr>mr_model_id = mi_id m, mr_result = Some (an_receipt a), mr_error = None\<rparr>
   | Inl e \<Rightarrow> \<lparr>mr_model_id = mi_id m, mr_result = None, mr_error = Some (exn_text msg e)\<rparr>)"

text \<open>\<open>asyncio.gather\<close>: the calls start together; the slowest one decides how long it takes.\<close>

definition run_all :: "(exn \<Rightarrow> string) \<Rightarrow> provider \<Rightarrow> string \<Rightarrow> string list \<Rightarrow> model_info list \<Rightarrow> (world, model_result list) py" where
  "run_all msg prov tmp tags models w =
     (let replies = map (\<lambda>m. (m, p_analyse prov (mi_id m) [tmp] tags w)) models in
      (Inr (map (\<lambda>(m, r, _). run_one msg m r) replies),
       w\<lparr>w_clock := w_clock w + int (fold max (map (\<lambda>(_, _, d). d) replies) 0)\<rparr>))"

definition extract_receipt_all_models ::
  "(exn \<Rightarrow> string) \<Rightarrow> image_cfg \<Rightarrow> provider \<Rightarrow> string \<Rightarrow> (world, model_result list) py" where
  "extract_receipt_all_models msg cfg prov content =
     bind (call (p_models prov)) (\<lambda>models.
     bind available_tags (\<lambda>tags.
     bind (store_tmp_image cfg content) (\<lambda>tmp.
       finally_do (run_all msg prov tmp tags models) (unlink_if_there tmp))))"

section \<open>Integrity\<close>

lemma finally_ok [keeps_intro]: "keeps P m \<Longrightarrow> keeps P f \<Longrightarrow> keeps P (finally_do m f)"
  unfolding keeps_def finally_do_def by (auto split: prod.split sum.split)

lemma only_files_catch [only_files_intro]:
  "only_files m \<Longrightarrow> (\<And>e. only_files (h e)) \<Longrightarrow> only_files (catch m h)"
  unfolding only_files_def catch_def
  by (auto split: prod.split sum.split) (metis same_tables_trans snd_conv)+

lemma only_files_finally [only_files_intro]: "only_files m \<Longrightarrow> only_files f \<Longrightarrow> only_files (finally_do m f)"
  unfolding only_files_def finally_do_def
  by (auto split: prod.split sum.split) (metis same_tables_trans snd_conv)+

lemma extraction_files [only_files_intro]:
  "only_files available_tags" "only_files (analyse_receipt_from_path prov m ps)"
  "only_files (unlink_if_there p)" "only_files (analyse_receipt_from_model cfg prov m s)"
  "only_files (run_all msg prov p tags ms)"
proof -
  show t: "only_files available_tags"
    unfolding available_tags_def list_tags_def by (intro only_files_intro)
  show a: "only_files (analyse_receipt_from_path prov m ps)" for prov m ps
    unfolding analyse_receipt_from_path_def by (intro only_files_intro t)
  show u: "only_files (unlink_if_there p)" for p unfolding unlink_if_there_def by (intro only_files_intro)
  show "only_files (analyse_receipt_from_model cfg prov m s)"
    unfolding analyse_receipt_from_model_def by (intro only_files_intro a u)
  show "only_files (run_all msg prov p tags ms)"
    by (simp add: only_files_def run_all_def Let_def same_tables_def)
qed

lemma move_parts_ok: "keeps db_ok (move_parts cfg i r ds ps)"
  by (induction ps arbitrary: ds) (auto intro!: keeps_intro)

lemma receipt_service_ok [keeps_intro]:
  "keeps db_ok (create_tag n)" "keeps db_ok (capture_to_active a r u)"
  "keeps db_ok (service_persist_receipt a rc i st v u)" "keeps db_ok (service_delete_receipt k u y)"
  "keeps db_ok (move_additional_images cfg im r)" "keeps db_ok (analyse_receipt_from_path prov m ps)"
  "keeps db_ok (analyse_receipt_from_model cfg prov m s)"
proof -
  show c: "keeps db_ok (capture_to_active a r u)" for a r u
    unfolding capture_to_active_def by (intro keeps_intro)
  show "keeps db_ok (create_tag n)" unfolding create_tag_def by (intro keeps_intro)
  show "keeps db_ok (service_persist_receipt a rc i st v u)"
    unfolding service_persist_receipt_def by (intro keeps_intro c)
  show "keeps db_ok (service_delete_receipt k u y)" unfolding service_delete_receipt_def by (intro keeps_intro)
  show "keeps db_ok (move_additional_images cfg im r)" unfolding move_additional_images_def by (rule move_parts_ok)
  show "keeps db_ok (analyse_receipt_from_path prov m ps)" "keeps db_ok (analyse_receipt_from_model cfg prov m s)"
    by (rule only_files_keeps extraction_files)+
qed

section \<open>Capture never breaks persistence\<close>

lemma capture_run:
  "\<exists>l. capture_to_active a r u w = (Inr (), w\<lparr>links_t := l\<rparr>) \<and>
     (l = links_t w \<or> (\<exists>c \<in> set (collections_t w). c_active c \<and> Some (c_user_id c) = u
        \<and> l = links_t w @ [\<lparr>lk_receipt_id = r, lk_collection_id = c_id c\<rparr>]))"
proof (cases "u = None \<or> \<not> a")
  case True
  then show ?thesis by (intro exI [of _ "links_t w"]) (simp add: capture_to_active_def)
next
  case False
  show ?thesis
  proof (cases "fetchrow (filter (\<lambda>c. c_active c \<and> visible u False (Some (c_user_id c))) (collections_t w))")
    case None
    then show ?thesis using False
      by (intro exI [of _ "links_t w"]) (auto simp: capture_to_active_def catch_def active_collection_def)
  next
    case (Some c)
    then have c: "c \<in> set (collections_t w)" "c_active c" "Some (c_user_id c) = u"
      using False by (auto simp: visible_def dest: fetchrow_filter_Some)
    let ?l = "\<lparr>lk_receipt_id = r, lk_collection_id = c_id c\<rparr>"
    have run: "capture_to_active a r u w = (Inr (), snd (insert_link r (c_id c) w))"
      using False Some by (auto simp: capture_to_active_def catch_def active_collection_def collection_assign_def
          split: sum.split prod.split)
    have "snd (insert_link r (c_id c) w) = w\<lparr>links_t := links_t w\<rparr> \<or>
        snd (insert_link r (c_id c) w) = w\<lparr>links_t := links_t w @ [?l]\<rparr>"
      by (simp add: insert_link_def Let_def)
    then show ?thesis using run c by metis
  qed
qed

lemma capture_links:
  assumes "c \<in> set (collections_t w)" and "c_active c" and "c_user_id c = u" and ok: "db_ok w" and r: "has_receipt w r"
  shows "\<lparr>lk_receipt_id = r, lk_collection_id = c_id c\<rparr> \<in> set (links_t (snd (capture_to_active True r (Some u) w)))"
proof -
  have one: "d = c" if "d \<in> set (collections_t w)" "c_active d" "c_user_id d = u" for d
    using db_okD(8) [OF ok] that assms(1-3) by (auto simp: one_active_collection_def distinct_map inj_on_def)
  obtain d where d: "fetchrow (filter (\<lambda>c. c_active c \<and> visible (Some u) False (Some (c_user_id c))) (collections_t w)) = Some d"
    using assms(1-3) by (cases "fetchrow (filter (\<lambda>c. c_active c \<and> visible (Some u) False (Some (c_user_id c))) (collections_t w))")
      (auto simp: fetchrow_filter_None visible_def)
  then have "d \<in> set (collections_t w)" "c_active d" "c_user_id d = u" by (auto simp: visible_def dest: fetchrow_filter_Some)
  then have "d = c" by (rule one)
  moreover have "has_collection w (c_id c)" using assms(1) by (simp add: has_collection_def)
  ultimately show ?thesis using d r
    by (auto simp: capture_to_active_def catch_def active_collection_def collection_assign_def insert_link_def Let_def)
qed

text \<open>
  Property C16: auto-capture works and is fail-safe. Persisting through the service succeeds exactly when
  the store's own persist does, with the same row; the world then differs at most in one added
  membership, of the new receipt in an active collection of the caller. If the caller has an active
  collection, the receipt of a photo is in it afterwards.
\<close>

theorem capture_is_fail_safe:
  assumes ok: "db_ok w"
  shows "(case persist_receipt rc i st v u w of
      (Inl e, w1) \<Rightarrow> service_persist_receipt a rc i st v u w = (Inl e, w1)
    | (Inr row, w1) \<Rightarrow> \<exists>l. service_persist_receipt a rc i st v u w = (Inr row, w1\<lparr>links_t := l\<rparr>)
        \<and> (l = links_t w1 \<or> (\<exists>c. c \<in> set (collections_t w1) \<and> c_active c \<and> Some (c_user_id c) = u
             \<and> l = links_t w1 @ [\<lparr>lk_receipt_id = r_id row, lk_collection_id = c_id c\<rparr>]))
        \<and> (a \<and> i \<noteq> None \<longrightarrow> (\<forall>c \<in> set (collections_t w1). c_active c \<and> Some (c_user_id c) = u \<longrightarrow>
             \<lparr>lk_receipt_id = r_id row, lk_collection_id = c_id c\<rparr> \<in> set l)))"
proof -
  obtain r w1 where p: "persist_receipt rc i st v u w = (r, w1)" by fastforce
  show ?thesis
  proof (cases r)
    case (Inl e)
    then show ?thesis using p by (simp add: service_persist_receipt_def)
  next
    case (Inr row)
    obtain l where cap: "capture_to_active a (r_id row) u w1 = (Inr (), w1\<lparr>links_t := l\<rparr>)" and
      l: "l = links_t w1 \<or> (\<exists>c. c \<in> set (collections_t w1) \<and> c_active c \<and> Some (c_user_id c) = u
             \<and> l = links_t w1 @ [\<lparr>lk_receipt_id = r_id row, lk_collection_id = c_id c\<rparr>])"
      using capture_run [of a "r_id row" u w1] by blast
    have mem: "\<lparr>lk_receipt_id = r_id row, lk_collection_id = c_id c\<rparr> \<in> set l"
      if i: "a" "i \<noteq> None" and c: "c \<in> set (collections_t w1)" "c_active c" "Some (c_user_id c) = u" for c
    proof -
      obtain img where "i = Some img" using i(2) by blast
      then have "db_ok w1" "has_receipt w1 (r_id row)" using persist_row_stored [OF ok] p Inr by blast+
      then show ?thesis using capture_links [of c w1 "c_user_id c" "r_id row"] c cap i(1) by simp
    qed
    have run: "service_persist_receipt a rc i st v u w = (Inr row, w1\<lparr>links_t := l\<rparr>)"
      using p Inr cap by (simp add: service_persist_receipt_def seq_def)
    show ?thesis unfolding p Inr prod.case sum.case using run l mem by blast
  qed
qed

section \<open>Deleting a receipt\<close>

text \<open>What is left when a receipt goes with all that belongs to it.\<close>

definition without_receipt :: "uuid \<Rightarrow> world \<Rightarrow> world" where
  "without_receipt k w = w\<lparr>receipts_t := filter (\<lambda>r. r_id r \<noteq> k) (receipts_t w),
     items_t := filter (\<lambda>i. li_receipt_id i \<noteq> k) (items_t w), taxes_t := filter (\<lambda>t. tx_receipt_id t \<noteq> k) (taxes_t w),
     links_t := filter (\<lambda>l. lk_receipt_id l \<noteq> k) (links_t w),
     images_t := clear_receipt_links (\<lambda>i. i = k) (images_t w)\<rparr>"

lemma delete_receipt_run:
  assumes ok: "db_ok w" and x: "x \<in> set (receipts_t w)" and vis: "visible u see (r_user_id x)"
  shows "service_delete_receipt (r_id x) u see w =
    (if sql_exists (\<lambda>k. k_receipt_id k = r_id x) (tasks_t w) then (Inl ReceiptReferencedError, w)
     else (Inr (Some x), without_receipt (r_id x) w))"
proof -
  have dead: "filter (own_receipt (r_id x) u see) (receipts_t w) = [x]"
  proof -
    have "filter (own_receipt (r_id x) u see) (receipts_t w) = filter (\<lambda>r. r_id r = r_id x) (receipts_t w)"
      using receipt_unique [OF ok] x vis by (intro filter_cong refl) (auto simp: own_receipt_def)
    then show ?thesis using filter_by_key [OF receipt_ids_distinct [OF ok] x] by simp
  qed
  have rest: "sql_delete (own_receipt (r_id x) u see) (receipts_t w) = filter (\<lambda>r. r_id r \<noteq> r_id x) (receipts_t w)"
    unfolding sql_delete_def using receipt_unique [OF ok] x vis
    by (intro filter_cong refl) (auto simp: own_receipt_def)
  show ?thesis
    by (simp add: service_delete_receipt_def catch_def delete_receipt_def bind_def delete_receipts_def dead rest
        without_receipt_def)
      (simp add: sql_delete_def)
qed

lemma without_receipt_images:
  "map im_id (images_t (without_receipt k w)) = map im_id (images_t w)"
  "Some k \<notin> im_receipt_id ` set (images_t (without_receipt k w))"
  by (simp add: without_receipt_def clear_receipt_links_def map_sql_update)
    (auto simp: without_receipt_def clear_receipt_links_def set_sql_update ref_opt_def split: option.splits
      dest!: sym [of "Some k"])

text \<open>
  Fact: a receipt is deleted completely or not at all. For a visible receipt the service either
  reports that a benchmark still references it, and nothing changes, or it removes exactly that
  receipt with its items, taxes and memberships, and no image points to it any more.
\<close>

theorem delete_receipt_complete:
  assumes ok: "db_ok w" and x: "x \<in> set (receipts_t w)" and vis: "visible u see (r_user_id x)"
  shows "if sql_exists (\<lambda>k. k_receipt_id k = r_id x) (tasks_t w)
    then service_delete_receipt (r_id x) u see w = (Inl ReceiptReferencedError, w)
    else \<exists>w'. service_delete_receipt (r_id x) u see w = (Inr (Some x), w')
      \<and> receipts_t w' = filter (\<lambda>r. r_id r \<noteq> r_id x) (receipts_t w)
      \<and> items_t w' = filter (\<lambda>i. li_receipt_id i \<noteq> r_id x) (items_t w)
      \<and> taxes_t w' = filter (\<lambda>t. tx_receipt_id t \<noteq> r_id x) (taxes_t w)
      \<and> links_t w' = filter (\<lambda>l. lk_receipt_id l \<noteq> r_id x) (links_t w)
      \<and> map im_id (images_t w') = map im_id (images_t w)
      \<and> Some (r_id x) \<notin> im_receipt_id ` set (images_t w')"
  using delete_receipt_run [OF assms] without_receipt_images [of "r_id x" w]
  by (simp add: without_receipt_def)

section \<open>Deadlines and temporary files\<close>

lemma within_run:
  assumes "0 \<le> deadline"
  shows "\<exists>c t. call_within deadline f v = (c, v\<lparr>w_clock := t\<rparr>) \<and> t \<le> w_clock v + deadline"
proof -
  obtain r d where f: "f v = (r, d)" by fastforce
  show ?thesis
  proof (cases "int d < deadline")
    case True
    then show ?thesis using f by (intro exI [of _ r] exI [of _ "w_clock v + int d"]) (simp add: call_within_def)
  next
    case False
    then show ?thesis using f
      by (intro exI [of _ "Inl (TimeoutError [])"] exI [of _ "w_clock v + deadline"]) (simp add: call_within_def)
  qed
qed

text \<open>
  Property C29: an extraction keeps its deadline and leaves no file behind. Whatever the provider does, an
  analysis takes at most the provider's timeout, raises no timeout but the service's own, and
  changes neither table nor file; run on uploaded bytes, it removes its temporary file in every
  outcome, so that the disk is as before.
\<close>

theorem analysis_bounded_and_clean:
  assumes "0 \<le> p_timeout prov" and "\<not> file_exists (path_join (ic_tmp cfg)
      (''temp_'' @ uuid_str (w_supply w (w_tick w)) @ ''.png'')) w"
  shows "(case analyse_receipt_from_path prov model images w of (r, w') \<Rightarrow>
       w_clock w' \<le> w_clock w + p_timeout prov \<and> w' = w\<lparr>w_clock := w_clock w'\<rparr>
       \<and> (\<forall>e. r = Inl e \<and> is_timeout e \<longrightarrow> e = timed_out))
    \<and> (case analyse_receipt_from_model cfg prov model content w of (r, w') \<Rightarrow>
       w_files w' = w_files w \<and> same_tables w w' \<and> w_clock w' \<le> w_clock w + p_timeout prov)"
proof -
  have path: "\<exists>r t. analyse_receipt_from_path prov model ps v = (r, v\<lparr>w_clock := t\<rparr>) \<and> t \<le> w_clock v + p_timeout prov
      \<and> (\<forall>e. r = Inl e \<and> is_timeout e \<longrightarrow> e = timed_out)" for ps v
  proof -
    obtain tags where tags: "available_tags v = (Inr tags, v)" by (cases "w_db_ready v") (auto simp: available_tags_def list_tags_def)
    obtain c t where c: "call_within (p_timeout prov) (p_analyse prov model ps tags) v = (c, v\<lparr>w_clock := t\<rparr>)"
      and t: "t \<le> w_clock v + p_timeout prov"
      using within_run [OF assms(1)] by blast
    let ?r = "case c of Inl e \<Rightarrow> Inl (if is_timeout e then timed_out else e) | Inr a \<Rightarrow> Inr (an_receipt a)"
    have "analyse_receipt_from_path prov model ps v = (?r, v\<lparr>w_clock := t\<rparr>)"
      using tags c by (cases c) (simp_all add: analyse_receipt_from_path_def catch_def)
    then show ?thesis using t by (intro exI [of _ ?r] exI [of _ t]) (auto split: sum.splits if_splits)
  qed
  let ?p = "path_join (ic_tmp cfg) (''temp_'' @ uuid_str (w_supply w (w_tick w)) @ ''.png'')"
  let ?v = "w\<lparr>w_tick := Suc (w_tick w), w_files := (w_files w)(?p := Some content)\<rparr>"
  have tmp: "store_tmp_image cfg content w = (Inr ?p, ?v)"
    by (simp add: store_tmp_image_def gen_uuid_def bind_def seq_def write_file_def Let_def)
  obtain r t where run: "analyse_receipt_from_path prov model [?p] ?v = (r, ?v\<lparr>w_clock := t\<rparr>)"
    and t: "t \<le> w_clock w + p_timeout prov" using path [of "[?p]" ?v] by auto
  have gone: "(w_files w)(?p := None) = w_files w" using assms(2) by (auto simp: file_exists_def)
  have "analyse_receipt_from_model cfg prov model content w = (r, ?v\<lparr>w_clock := t, w_files := w_files w\<rparr>)"
    using tmp run gone
    by (simp add: analyse_receipt_from_model_def finally_do_def unlink_if_there_def unlink_def file_exists_def)
  then show ?thesis using path [of images w] t by (auto simp: same_tables_def)
qed

section \<open>Samples\<close>

theorem capture_is_fail_safe_witness:
  "\<exists>row w1 l. persist_receipt sample_receipt (Some 10) Unverified False (Some 1) album_world = (Inr row, w1)
     \<and> service_persist_receipt True sample_receipt (Some 10) Unverified False (Some 1) album_world = (Inr row, w1\<lparr>links_t := l\<rparr>)"
proof -
  have "\<not> isl (fst (persist_receipt sample_receipt (Some 10) Unverified False (Some 1) album_world))" by code_simp
  then obtain row w1 where p: "persist_receipt sample_receipt (Some 10) Unverified False (Some 1) album_world = (Inr row, w1)"
    by (metis isl_def old.prod.exhaust prod.sel(1) sum.exhaust_sel)
  then show ?thesis
    using capture_is_fail_safe [OF album_world_ok, where rc = sample_receipt and i = "Some 10" and st = Unverified
        and v = False and u = "Some 1" and a = True] by auto
qed

theorem delete_receipt_complete_witness:
  "\<exists>w'. service_delete_receipt 20 (Some 1) False album_world = (Inr (Some sample_row), w') \<and> receipts_t w' = [] \<and> links_t w' = []"
proof -
  have "sample_row \<in> set (receipts_t album_world)" "visible (Some 1) False (r_user_id sample_row)" "r_id sample_row = 20"
    "\<not> sql_exists (\<lambda>k. k_receipt_id k = 20) (tasks_t album_world)"
    "receipts_t album_world = [sample_row]" "links_t album_world = [\<lparr>lk_receipt_id = 20, lk_collection_id = 60\<rparr>]"
    by (simp_all add: album_world_def stored_world_def sample_row_def visible_def shop_world_def sample_world_def
        fresh_world_def sql_exists_def)
  then show ?thesis using delete_receipt_complete [OF album_world_ok, of sample_row "Some 1" False] by auto
qed

definition slow_provider :: provider where
  "slow_provider = \<lparr>p_models = (\<lambda>_. (Inr [], 0)), p_analyse = (\<lambda>_ _ _ _. (Inl (OtherError ''slow''), 700)),
     p_alive = (\<lambda>_. (Inr True, 0)), p_timeout = 600\<rparr>"

theorem analysis_bounded_and_clean_witness:
  "w_files (snd (analyse_receipt_from_model sample_cfg slow_provider ''m'' ''bytes'' disk_world)) = w_files disk_world
   \<and> fst (analyse_receipt_from_path slow_provider ''m'' [] disk_world) = Inl timed_out"
proof -
  have "\<not> file_exists (path_join (ic_tmp sample_cfg) (''temp_'' @ uuid_str (w_supply disk_world (w_tick disk_world)) @ ''.png'')) disk_world"
    by (simp add: file_exists_def disk_world_def sample_cfg_def path_join_def)
  moreover have "0 \<le> p_timeout slow_provider" by (simp add: slow_provider_def)
  ultimately have "w_files (snd (analyse_receipt_from_model sample_cfg slow_provider ''m'' ''bytes'' disk_world)) = w_files disk_world"
    using analysis_bounded_and_clean [of slow_provider sample_cfg disk_world "''m''" "[]" "''bytes''"]
    by (auto split: prod.splits)
  moreover have "fst (analyse_receipt_from_path slow_provider ''m'' [] disk_world) = Inl timed_out"
    by (simp add: analyse_receipt_from_path_def available_tags_def list_tags_def catch_def call_within_def
        slow_provider_def is_timeout_def disk_world_def sample_world_def fresh_world_def)
  ultimately show ?thesis by blast
qed

end
