(* ===== verification/Scheduler.thy ===== *)
theory Scheduler
  imports ReceiptService
begin

text \<open>
  The analysis worker, service/analysis_scheduler.py (AnalysisScheduler): one cycle lists the queue,
  claims the images one after the other and brings each to an end. The lock serialises cycles, so a
  cycle is one action; the lifecycle is a small state machine with the wake-up flag.
\<close>

section \<open>Results and settings\<close>

record pending_result =
  pr_image :: uuid
  pr_status :: string
  pr_receipt :: "uuid option"
  pr_error :: "string option"

text \<open>
  \<open>sc_images\<close> is the optional ImageService, \<open>sc_attached\<close> whether the receipt service knows the
  collections, \<open>sc_msg\<close> the text of exceptions that are not the program's own.
\<close>

record scheduler =
  sc_preferred :: string
  sc_provider :: provider
  sc_images :: "image_cfg option"
  sc_attached :: bool
  sc_msg :: "exn \<Rightarrow> string"

definition select_model :: "string \<Rightarrow> model_info list \<Rightarrow> string" where
  "select_model preferred models = (if preferred \<in> mi_id ` set models then preferred else mi_id (hd models))"

text \<open>\<open>try: ... except Exception as e\<close> where the handler goes on with the outcome.\<close>

definition attempt :: "('s, 'a) py \<Rightarrow> ('s, exn + 'a) py" where
  "attempt m s = (case m s of (r, t) \<Rightarrow> (Inr r, t))"

section \<open>One image\<close>

definition analyzed_result :: "uuid \<Rightarrow> uuid \<Rightarrow> pending_result" where
  "analyzed_result k r = \<lparr>pr_image = k, pr_status = ''analyzed'', pr_receipt = Some r, pr_error = None\<rparr>"

definition error_result :: "uuid \<Rightarrow> string \<Rightarrow> string \<Rightarrow> pending_result" where
  "error_result k status err = \<lparr>pr_image = k, pr_status = status, pr_receipt = None, pr_error = Some err\<rparr>"

definition fail_image :: "uuid \<Rightarrow> string \<Rightarrow> (world, pending_result) py" where
  "fail_image k err = seq (mark_failed k err) (ret (error_result k ''failed'' err))"

definition end_image :: "uuid \<Rightarrow> string \<Rightarrow> string \<Rightarrow> (world, pending_result) py" where
  "end_image k status err = seq (mark_terminal k status err) (ret (error_result k status err))"

definition done_image :: "uuid \<Rightarrow> uuid \<Rightarrow> (world, pending_result) py" where
  "done_image k r = seq (mark_analyzed k r) (ret (analyzed_result k r))"

text \<open>An empty path counts as no path.\<close>

definition photo_there :: "image_row \<Rightarrow> world \<Rightarrow> bool" where
  "photo_there img w = (case im_path img of None \<Rightarrow> False | Some p \<Rightarrow> p \<noteq> [] \<and> file_exists p w)"

definition missing_photo :: "image_row \<Rightarrow> string" where
  "missing_photo img = ''Image file missing: '' @ (case im_path img of None \<Rightarrow> ''None'' | Some p \<Rightarrow> p)"

definition photo_paths :: "image_row \<Rightarrow> string list" where
  "photo_paths img = (if im_additional img \<noteq> [] then map part_path (image_parts img)
     else [case im_path img of None \<Rightarrow> [] | Some p \<Rightarrow> p])"

text \<open>A bypassed review moves the photos to permanent storage; nothing that fails here is raised.\<close>

definition move_photos :: "image_cfg \<Rightarrow> image_row \<Rightarrow> uuid \<Rightarrow> (world, unit) py" where
  "move_photos cfg img receipt_id =
     bind (store_perm_image cfg (case im_path img of None \<Rightarrow> [] | Some p \<Rightarrow> p) receipt_id) (\<lambda>m.
     seq (case fst m of None \<Rightarrow> ret () | Some p \<Rightarrow> update_image_path (im_id img) p)
     (seq (case snd m of None \<Rightarrow> ret () | Some t \<Rightarrow> update_image_thumbnail_path (im_id img) t)
       (if im_additional img \<noteq> [] then move_additional_images cfg img receipt_id else ret ())))"

definition after_bypass :: "scheduler \<Rightarrow> image_row \<Rightarrow> uuid \<Rightarrow> (world, unit) py" where
  "after_bypass sc img receipt_id = (case sc_images sc of
     None \<Rightarrow> ret ()
   | Some cfg \<Rightarrow> if im_bypass img then catch (move_photos cfg img receipt_id) (\<lambda>_. ret ()) else ret ())"

definition persist_analysis :: "scheduler \<Rightarrow> image_row \<Rightarrow> receipt \<Rightarrow> (world, receipt_row) py" where
  "persist_analysis sc img receipt =
     bind (service_persist_receipt (sc_attached sc) receipt (Some (im_id img))
       (if im_bypass img then Verified else Unverified) (im_bypass img) (im_user_id img)) (\<lambda>row.
     seq (mark_analyzed (im_id img) (r_id row)) (ret row))"

definition extraction_failed :: "scheduler \<Rightarrow> uuid \<Rightarrow> exn \<Rightarrow> (world, pending_result) py" where
  "extraction_failed sc k e = (case e of
     AnalysisTimeoutError s \<Rightarrow> end_image k ''timed_out'' s
   | UnreadableReceiptError s \<Rightarrow> end_image k ''unreadable'' s
   | _ \<Rightarrow> fail_image k (exn_text (sc_msg sc) e))"

definition analyze_one :: "scheduler \<Rightarrow> image_row \<Rightarrow> string \<Rightarrow> (world, pending_result) py" where
  "analyze_one sc img model_id =
     (let k = im_id img in
      case im_receipt_id img of
        Some r \<Rightarrow> done_image k r
      | None \<Rightarrow>
         bind (get_receipt_by_image_id k) (\<lambda>existing. case existing of
           Some row \<Rightarrow> done_image k (r_id row)
         | None \<Rightarrow>
            bind (gets (photo_there img)) (\<lambda>there.
              if \<not> there then fail_image k (missing_photo img)
              else bind (attempt (analyse_receipt_from_path (sc_provider sc) model_id (photo_paths img))) (\<lambda>out.
                case out of
                  Inl e \<Rightarrow> extraction_failed sc k e
                | Inr receipt \<Rightarrow>
                   bind (attempt (persist_analysis sc img receipt)) (\<lambda>saved. case saved of
                     Inl e \<Rightarrow> fail_image k (''Failed to persist receipt: '' @ exn_text (sc_msg sc) e)
                   | Inr row \<Rightarrow> seq (after_bypass sc img (r_id row)) (ret (analyzed_result k (r_id row))))))))"

section \<open>A cycle\<close>

definition chosen_model :: "model_info list \<Rightarrow> string \<Rightarrow> image_row \<Rightarrow> string" where
  "chosen_model models fallback img = (case im_model_id img of
     Some m \<Rightarrow> if m \<in> mi_id ` set models then m else fallback | None \<Rightarrow> fallback)"

fun drain :: "scheduler \<Rightarrow> model_info list \<Rightarrow> string \<Rightarrow> image_row list \<Rightarrow> (world, pending_result list) py" where
  "drain sc models fallback [] = ret []"
| "drain sc models fallback (img # imgs) =
     bind (claim_for_analysis (im_id img)) (\<lambda>claimed. case claimed of
       None \<Rightarrow> drain sc models fallback imgs
     | Some c \<Rightarrow> bind (analyze_one sc c (chosen_model models fallback c)) (\<lambda>r.
         bind (drain sc models fallback imgs) (\<lambda>rs. ret (r # rs))))"

definition process_pending :: "scheduler \<Rightarrow> (world, pending_result list) py" where
  "process_pending sc = bind (gets w_db_ready) (\<lambda>ready.
     if \<not> ready then ret []
     else bind (attempt (call_within 5 (p_models (sc_provider sc)))) (\<lambda>out. case out of
       Inl e \<Rightarrow> ret []
     | Inr models \<Rightarrow> if models = [] then ret []
         else bind list_pending_images (\<lambda>pending.
           drain sc models (select_model (sc_preferred sc) models) pending)))"

section \<open>The worker's lifecycle\<close>

record worker =
  wk_running :: bool
  wk_wake :: bool

definition start_worker :: "worker \<Rightarrow> worker" where
  "start_worker k = (if wk_running k then k else k\<lparr>wk_wake := True, wk_running := True\<rparr>)"

definition stop_worker :: "worker \<Rightarrow> worker" where
  "stop_worker k = (if wk_running k then k\<lparr>wk_running := False\<rparr> else k)"

definition trigger_worker :: "worker \<Rightarrow> worker" where
  "trigger_worker k = k\<lparr>wk_wake := True\<rparr>"

text \<open>
  One round of \<open>_run_forever\<close>: it starts when the flag is set or the interval is over, clears the flag
  and runs a cycle, of which no exception gets out.
\<close>

definition worker_round :: "scheduler \<Rightarrow> bool \<Rightarrow> worker \<Rightarrow> world \<Rightarrow> worker \<times> world" where
  "worker_round sc interval_over k w =
     (if wk_running k \<and> (wk_wake k \<or> interval_over)
      then (k\<lparr>wk_wake := False\<rparr>, snd (catch (bind (process_pending sc) (\<lambda>_. ret ())) (\<lambda>_. ret ()) w))
      else (k, w))"

section \<open>Frame\<close>

lemma same_tables_reads:
  "w\<lparr>w_files := f, w_tick := n, w_clock := c\<rparr> = v \<Longrightarrow> images_t w = images_t v \<and> receipts_t w = receipts_t v"
  by auto

lemma only_files_tables:
  assumes "only_files m" and "\<And>v w. images_t v = images_t w \<Longrightarrow> receipts_t v = receipts_t w \<Longrightarrow> P v = P w"
  shows "keeps P m"
proof (rule keepsI)
  fix w assume "P w"
  have "same_tables w (snd (m w))" using assms(1) by (simp add: only_files_def)
  then have "images_t (snd (m w)) = images_t w \<and> receipts_t (snd (m w)) = receipts_t w"
    unfolding same_tables_def by (metis same_tables_reads)
  then show "P (snd (m w))" using assms(2) \<open>P w\<close> by blast
qed

text \<open>Predicates on the images and on how late it is survive everything that writes other tables.\<close>

definition image_stable :: "(world \<Rightarrow> bool) \<Rightarrow> bool" where
  "image_stable P \<longleftrightarrow> (\<forall>w v. images_t v = images_t w \<and> w_clock w \<le> w_clock v \<and> P w \<longrightarrow> P v)"

lemma image_stable_basic [simp]: "image_stable (\<lambda>w. R (images_t w))" "image_stable (\<lambda>w. c \<le> w_clock w)"
  by (auto simp: image_stable_def)

lemma stableI: "image_stable P \<Longrightarrow> (\<And>w. images_t (snd (m w)) = images_t w \<and> w_clock w \<le> w_clock (snd (m w))) \<Longrightarrow> keeps P m"
  by (auto simp: image_stable_def keeps_def)

lemma inserts_stable:
  assumes "image_stable P"
  shows "keeps P gen_uuid" "keeps P (insert_receipt r)" "keeps P (update_receipts p f)" "keeps P (insert_item i)"
  "keeps P (insert_tax t)" "keeps P (insert_link a b)" "keeps P (delete_line_items k)" "keeps P (delete_taxes k)"
  by (rule stableI [OF assms]; simp add: gen_uuid_def insert_receipt_def update_receipts_def insert_item_def insert_tax_def
      insert_link_def delete_line_items_def delete_taxes_def Let_def)+

lemma transaction_stable:
  assumes P: "image_stable P" and m: "\<And>Q. image_stable Q \<Longrightarrow> keeps Q m"
  shows "keeps P (transaction m)"
proof (rule keepsI)
  fix w assume w: "P w"
  obtain r v where r: "m w = (r, v)" by fastforce
  have "w_clock w \<le> w_clock v" using keeps_run [OF m [OF image_stable_basic(2)] order_refl r] .
  moreover have "P v" using keeps_run [OF m [OF P] w r] .
  ultimately show "P (snd (transaction m w))"
    using P w r by (cases r) (auto simp: transaction_def image_stable_def)
qed

lemma persist_stable:
  assumes P: "image_stable P"
  shows "keeps P (service_persist_receipt a rc i st v u)"
proof -
  have items: "keeps P (insert_items_from k n xs ds)" if "image_stable P" for P k n xs ds
    using that
    by (induction k n xs ds rule: insert_items_from.induct)
      (auto simp: insert_line_item_def intro!: keeps_intro inserts_stable)
  have kids: "keeps P (replace_children k rc ds)" if "image_stable P" for P k ds
    unfolding replace_children_def insert_children_def insert_tax_line_def Let_def
    by (intro keeps_intro items inserts_stable that)
  have row: "keeps P (persist_receipt_row rc t i st v u)" if "image_stable P" for P t
    unfolding persist_receipt_row_def update_receipt_by_image_def insert_new_receipt_def get_receipt_by_image_id_def Let_def
    by (intro keeps_intro inserts_stable that reads_keeps [OF receipt_amounts_reads])
  have persist: "keeps P (persist_receipt rc i st v u)"
    unfolding persist_receipt_def history_for_items_def
    by (intro keeps_intro row kids transaction_stable P)
  show ?thesis
    unfolding service_persist_receipt_def capture_to_active_def active_collection_def collection_assign_def
    by (intro keeps_intro persist inserts_stable P)
qed

lemma persist_images: "keeps (\<lambda>w. R (images_t w)) (service_persist_receipt a rc i st v u)"
  by (rule persist_stable) simp

lemma keeps_attempt [keeps_intro]: "keeps P m \<Longrightarrow> keeps P (attempt m)"
  by (fastforce simp: keeps_def attempt_def split: prod.split)

lemma attempt_run [simp]: "attempt m w = (Inr (fst (m w)), snd (m w))"
  by (simp add: attempt_def split: prod.split)

section \<open>What ending an image writes\<close>

definition row_of :: "uuid \<Rightarrow> (image_row \<Rightarrow> bool) \<Rightarrow> world \<Rightarrow> bool" where
  "row_of k P w \<longleftrightarrow> (\<exists>j \<in> set (images_t w). im_id j = k \<and> P j)"

definition settled :: "pending_result \<Rightarrow> image_row \<Rightarrow> bool" where
  "settled res j \<longleftrightarrow> image_status_name (im_status j) = pr_status res \<and> im_processing_at j = None
     \<and> im_error j = pr_error res \<and> (pr_receipt res \<noteq> None \<longrightarrow> im_receipt_id j = pr_receipt res)"

definition result_ok :: "uuid \<Rightarrow> pending_result \<Rightarrow> world \<Rightarrow> bool" where
  "result_ok k res w \<longleftrightarrow> pr_image res = k \<and> pr_status res \<in> {''analyzed'', ''failed'', ''timed_out'', ''unreadable''}
     \<and> (pr_status res = ''analyzed'' \<longleftrightarrow> pr_receipt res \<noteq> None) \<and> row_of k (settled res) w
     \<and> ref_opt (has_receipt w) (pr_receipt res)"

lemma on_image_run:
  assumes "db_ok w" and "i \<in> set (images_t w)" and "im_id i = k"
    and "\<And>j. im_id (f j) = im_id j" and "\<And>j. im_user_id (f j) = im_user_id j"
    and "\<And>j. im_receipt_id (f j) = im_receipt_id j \<or> ref_opt (has_receipt w) (im_receipt_id (f j))"
  obtains w' where "on_image k f w = (Inr (), w')" "f i \<in> set (images_t w')" "receipts_t w' = receipts_t w"
proof
  have "\<not> list_ex (\<lambda>i. \<not> ref_opt (has_receipt w) (im_receipt_id i) \<or> \<not> ref_opt (has_user w) (im_user_id i))
          (map f (filter (\<lambda>j. im_id j = k) (images_t w)))"
    using assms(5,6) db_okD(4) [OF assms(1)] by (auto simp: image_refs_def list_ex_iff) metis
  then show "on_image k f w = (Inr (), w\<lparr>images_t := sql_update (\<lambda>j. im_id j = k) f (images_t w)\<rparr>)"
    by (simp add: on_image_def update_images_def bind_def Let_def)
qed (use assms(2,3) in \<open>auto simp: set_sql_update\<close>)

lemma row_ofI: "j \<in> set (images_t w) \<Longrightarrow> im_id j = k \<Longrightarrow> P j \<Longrightarrow> row_of k P w"
  by (auto simp: row_of_def)

lemma failed_ok:
  assumes "db_ok w" and "i \<in> set (images_t w)" and "im_id i = k"
  shows "\<exists>w'. fail_image k err w = (Inr (error_result k ''failed'' err), w') \<and> result_ok k (error_result k ''failed'' err) w'"
proof -
  let ?f = "\<lambda>i. i\<lparr>im_status := Failed, im_error := Some err, im_processing_at := None\<rparr>"
  obtain w' where run: "on_image k ?f w = (Inr (), w')" "?f i \<in> set (images_t w')"
    using on_image_run [OF assms, of ?f] by auto
  then have "row_of k (settled (error_result k ''failed'' err)) w'"
    using assms(3) by (intro row_ofI [of "?f i"]) (simp_all add: settled_def error_result_def)
  then show ?thesis
    using run(1) by (simp add: fail_image_def mark_failed_def seq_def result_ok_def error_result_def ref_opt_def)
qed

lemma terminal_ok:
  assumes "db_ok w" and "i \<in> set (images_t w)" and "im_id i = k" and "terminal_status st = Some t"
  shows "\<exists>w'. end_image k st err w = (Inr (error_result k st err), w') \<and> result_ok k (error_result k st err) w'"
proof -
  have st: "image_status_name t = st" "st = ''timed_out'' \<or> st = ''unreadable''"
    using assms(4) by (auto simp: terminal_status_def split: if_splits)
  let ?f = "\<lambda>i. i\<lparr>im_status := t, im_error := Some err, im_processing_at := None\<rparr>"
  obtain w' where run: "on_image k ?f w = (Inr (), w')" "?f i \<in> set (images_t w')"
    using on_image_run [OF assms(1-3), of ?f] by auto
  then have "row_of k (settled (error_result k st err)) w'"
    using assms(3) st(1) by (intro row_ofI [of "?f i"]) (simp_all add: settled_def error_result_def)
  then show ?thesis
    using run(1) assms(4) st(2) by (auto simp: end_image_def mark_terminal_def seq_def result_ok_def error_result_def ref_opt_def)
qed

lemma analyzed_run:
  assumes "db_ok w" and "i \<in> set (images_t w)" and "im_id i = k" and "has_receipt w r"
  shows "\<exists>w'. mark_analyzed k r w = (Inr (), w') \<and> result_ok k (analyzed_result k r) w'"
proof -
  let ?f = "\<lambda>i. i\<lparr>im_status := Analyzed, im_receipt_id := Some r, im_error := None,
       im_analyzed_at := Some (w_clock w), im_processing_at := None\<rparr>"
  obtain w' where run: "on_image k ?f w = (Inr (), w')" "?f i \<in> set (images_t w')" "receipts_t w' = receipts_t w"
    using on_image_run [OF assms(1-3), of ?f] assms(4) by (auto simp: ref_opt_def)
  then have "row_of k (settled (analyzed_result k r)) w'"
    using assms(3) by (intro row_ofI [of "?f i"]) (simp_all add: settled_def analyzed_result_def)
  then show ?thesis
    using run(1,3) assms(4) by (simp add: mark_analyzed_def result_ok_def analyzed_result_def ref_opt_def has_receipt_def)
qed

lemma done_ok:
  assumes "db_ok w" and "i \<in> set (images_t w)" and "im_id i = k" and "has_receipt w r"
  shows "\<exists>w'. done_image k r w = (Inr (analyzed_result k r), w') \<and> result_ok k (analyzed_result k r) w'"
  using analyzed_run [OF assms] by (auto simp: done_image_def seq_def)

section \<open>One image is brought to an end\<close>

lemma moves_keep:
  assumes "\<And>f w. (\<And>j. im_id (f j) = im_id j) \<Longrightarrow> (\<And>j. settled res (f j) = settled res j) \<Longrightarrow> P w \<Longrightarrow>
      P (snd (on_image k f w))"
    and "\<And>m :: (world, string option \<times> string option) py. only_files m \<Longrightarrow> keeps P m"
    and "im_id img = k"
  shows "keeps P (after_bypass sc img r)"
proof -
  have on: "keeps P (on_image k f)" if "\<And>j. im_id (f j) = im_id j" "\<And>j. settled res (f j) = settled res j" for f
    using assms(1) [of f] that by (simp add: keeps_def)
  have path: "keeps P (update_image_path k p)" "keeps P (update_image_thumbnail_path k p)"
    "keeps P (update_additional_images k ps)" for p ps
    unfolding update_image_path_def update_image_thumbnail_path_def update_additional_images_def
    by (rule on; simp add: settled_def)+
  have store: "keeps P (store_perm_image cfg p r)" for cfg p by (rule assms(2)) (rule only_files_ops)
  have parts: "keeps P (move_parts cfg k r ds ps)" for cfg ds ps
    by (induction ps arbitrary: ds) (auto intro!: keeps_intro store path)
  show ?thesis
    unfolding after_bypass_def move_photos_def move_additional_images_def assms(3)
    by (intro keeps_intro store path parts)
qed

lemma row_of_update:
  assumes "row_of k P w" and "images_t v = sql_update (\<lambda>j. im_id j = k) f (images_t w)"
    and "\<And>j. im_id (f j) = im_id j" and "\<And>j. P (f j) = P j"
  shows "row_of k P v"
proof -
  obtain j where "j \<in> set (images_t w)" "im_id j = k" "P j" using assms(1) by (auto simp: row_of_def)
  then have "f j \<in> set (images_t v)" by (auto simp: assms(2) set_sql_update)
  then show ?thesis using \<open>im_id j = k\<close> \<open>P j\<close> assms(3,4) by (intro row_ofI [of "f j"]) simp_all
qed

lemma after_bypass_result: "im_id img = k \<Longrightarrow> keeps (result_ok k res) (after_bypass sc img r)"
proof (rule moves_keep [where res = res and k = k])
  fix f w assume id: "\<And>j. im_id (f j) = im_id j" and st: "\<And>j. settled res (f j) = settled res j" and P: "result_ok k res w"
  have im: "images_t (snd (on_image k f w)) = images_t w \<or> images_t (snd (on_image k f w)) = sql_update (\<lambda>j. im_id j = k) f (images_t w)"
    and re: "receipts_t (snd (on_image k f w)) = receipts_t w"
    by (auto simp: on_image_def update_images_def bind_def Let_def)
  have "row_of k (settled res) (snd (on_image k f w))"
    using im
  proof
    assume "images_t (snd (on_image k f w)) = images_t w"
    then show ?thesis using P by (simp add: result_ok_def row_of_def)
  next
    assume new: "images_t (snd (on_image k f w)) = sql_update (\<lambda>j. im_id j = k) f (images_t w)"
    have "row_of k (settled res) w" using P unfolding result_ok_def by (elim conjE)
    then show ?thesis using new id st by (rule row_of_update)
  qed
  moreover have "has_receipt (snd (on_image k f w)) = has_receipt w" using re by (simp add: has_receipt_def [abs_def])
  ultimately show "result_ok k res (snd (on_image k f w))" using P unfolding result_ok_def by auto
next
  fix m :: "(world, string option \<times> string option) py" assume "only_files m"
  then show "keeps (result_ok k res) m"
    by (rule only_files_tables) (simp add: result_ok_def row_of_def has_receipt_def [abs_def])
qed

lemma on_image_other: "im_id x \<noteq> k \<Longrightarrow> keeps (\<lambda>w. x \<in> set (images_t w)) (on_image k f)"
  by (simp add: keeps_def on_image_frame)

lemma marks_other:
  "im_id x \<noteq> k \<Longrightarrow> keeps (\<lambda>w. x \<in> set (images_t w)) (mark_analyzed k r)"
  "im_id x \<noteq> k \<Longrightarrow> keeps (\<lambda>w. x \<in> set (images_t w)) (mark_failed k e)"
  "im_id x \<noteq> k \<Longrightarrow> keeps (\<lambda>w. x \<in> set (images_t w)) (mark_terminal k st e)"
  by (simp_all add: keeps_def marks_frame)

lemma after_bypass_other: "im_id x \<noteq> im_id img \<Longrightarrow> keeps (\<lambda>w. x \<in> set (images_t w)) (after_bypass sc img r)"
  by (rule moves_keep [where k = "im_id img"]) (auto simp: on_image_frame intro: only_files_tables)

lemma extraction_failed_cases:
  obtains err where "extraction_failed sc k e = fail_image k err"
  | st err t where "terminal_status st = Some t" "extraction_failed sc k e = end_image k st err"
proof -
  have "terminal_status ''timed_out'' = Some TimedOut" "terminal_status ''unreadable'' = Some Unreadable"
    by (simp_all add: terminal_status_def)
  then show ?thesis by (cases e) (use that in \<open>auto simp: extraction_failed_def\<close>)
qed

lemma extraction_failed_other: "im_id x \<noteq> k \<Longrightarrow> keeps (\<lambda>w. x \<in> set (images_t w)) (extraction_failed sc k e)"
  by (cases rule: extraction_failed_cases [of sc k e])
     (auto simp: fail_image_def end_image_def intro!: keeps_intro marks_other)

lemma extraction_failed_db_ok [keeps_intro]: "keeps db_ok (extraction_failed sc k e)"
  by (cases rule: extraction_failed_cases [of sc k e]) (auto simp: fail_image_def end_image_def intro!: keeps_intro)

lemma analyze_one_other:
  assumes "im_id x \<noteq> im_id img"
  shows "keeps (\<lambda>w. x \<in> set (images_t w)) (analyze_one sc img m)"
proof -
  have "keeps (\<lambda>w. x \<in> set (images_t w)) (analyse_receipt_from_path prov m ps)" for prov ps
    by (rule only_files_tables [OF extraction_files(2)]) simp
  then show ?thesis
    unfolding analyze_one_def done_image_def fail_image_def persist_analysis_def get_receipt_by_image_id_def Let_def
    by (intro keeps_intro marks_other after_bypass_other extraction_failed_other assms
        persist_images [where R = "\<lambda>xs. x \<in> set xs"])
qed

lemma analyze_one_db_ok [keeps_intro]: "keeps db_ok (analyze_one sc img m)"
  unfolding analyze_one_def done_image_def fail_image_def persist_analysis_def get_receipt_by_image_id_def Let_def
    after_bypass_def move_photos_def
  by (intro keeps_intro)

lemma after_bypass_run: "\<exists>v. after_bypass sc img r w = (Inr (), v)"
  by (auto simp: after_bypass_def catch_def split: option.split prod.split sum.split)

lemma service_persist_stored:
  assumes "db_ok w" and "service_persist_receipt a rc (Some k) st ver u w = (Inr row, v)"
  shows "has_receipt v (r_id row)"
proof -
  obtain w1 where p: "persist_receipt rc (Some k) st ver u w = (Inr row, w1)"
    and c: "seq (capture_to_active a (r_id row) u) (ret row) w1 = (Inr row, v)"
    using assms(2) by (auto simp: service_persist_receipt_def bind_eq_Inr seq_eq_Inr)
  have "has_receipt w1 (r_id row)" using persist_row_stored [OF assms(1) p] by blast
  moreover obtain l where "capture_to_active a (r_id row) u w1 = (Inr (), w1\<lparr>links_t := l\<rparr>)"
    using capture_run [of a "r_id row" u w1] by blast
  then have "v = w1\<lparr>links_t := l\<rparr>" using c by (simp add: seq_def)
  ultimately show ?thesis by (simp add: has_receipt_def)
qed

lemma persist_ends:
  assumes ok: "db_ok v" and img: "img \<in> set (images_t v)"
  shows "\<exists>res w'. bind (attempt (persist_analysis sc img rc)) (\<lambda>saved. case saved of
       Inl e \<Rightarrow> fail_image (im_id img) (''Failed to persist receipt: '' @ exn_text (sc_msg sc) e)
     | Inr row \<Rightarrow> seq (after_bypass sc img (r_id row)) (ret (analyzed_result (im_id img) (r_id row)))) v = (Inr res, w')
     \<and> result_ok (im_id img) res w'"
proof -
  let ?st = "if im_bypass img then Verified else Unverified"
  obtain p v2 where p: "service_persist_receipt (sc_attached sc) rc (Some (im_id img)) ?st (im_bypass img) (im_user_id img) v = (p, v2)"
    by fastforce
  have ok2: "db_ok v2" using keeps_run [OF receipt_service_ok(3) ok p] .
  have img2: "img \<in> set (images_t v2)" using keeps_run [OF persist_images [where R = "\<lambda>xs. img \<in> set xs"] img p] .
  show ?thesis
  proof (cases p)
    case (Inl e)
    then show ?thesis using p failed_ok [OF ok2 img2 refl] by (simp add: persist_analysis_def) blast
  next
    case (Inr row)
    then obtain v3 where m: "mark_analyzed (im_id img) (r_id row) v2 = (Inr (), v3)"
      and res: "result_ok (im_id img) (analyzed_result (im_id img) (r_id row)) v3"
      using analyzed_run [OF ok2 img2 refl service_persist_stored [OF ok]] p by blast
    obtain v4 where b: "after_bypass sc img (r_id row) v3 = (Inr (), v4)" using after_bypass_run by blast
    have "result_ok (im_id img) (analyzed_result (im_id img) (r_id row)) v4"
      using keeps_run [OF after_bypass_result [OF refl] res b] .
    then show ?thesis using p Inr m b by (simp add: persist_analysis_def seq_def)
  qed
qed

lemma extraction_failed_ok:
  assumes "db_ok v" and "img \<in> set (images_t v)"
  shows "\<exists>res w'. extraction_failed sc (im_id img) e v = (Inr res, w') \<and> result_ok (im_id img) res w'"
  using failed_ok [OF assms refl] terminal_ok [OF assms refl]
  by (cases rule: extraction_failed_cases [of sc "im_id img" e]) metis+

lemma analyze_one_run:
  assumes "db_ok w" and "img \<in> set (images_t w)" and "0 \<le> p_timeout (sc_provider sc)"
  shows "\<exists>res w'. analyze_one sc img m w = (Inr res, w') \<and> result_ok (im_id img) res w' \<and> db_ok w'
    \<and> (\<forall>x \<in> set (images_t w). im_id x \<noteq> im_id img \<longrightarrow> x \<in> set (images_t w'))"
proof -
  let ?k = "im_id img"
  have "\<exists>res w'. analyze_one sc img m w = (Inr res, w') \<and> result_ok ?k res w'"
  proof (cases "im_receipt_id img")
    case (Some r)
    then have "has_receipt w r" using assms(1,2) db_okD(4) by (force simp: image_refs_def ref_opt_def)
    then show ?thesis using Some done_ok [OF assms(1,2) refl] by (simp add: analyze_one_def Let_def) blast
  next
    case fresh: None
    show ?thesis
    proof (cases "receipt_of_image ?k w")
      case (Some row)
      then have "has_receipt w (r_id row)" using receipt_of_image_cases(2) by (auto simp: has_receipt_def)
      then show ?thesis
        using Some fresh done_ok [OF assms(1,2) refl] by (simp add: analyze_one_def get_receipt_by_image_id_def Let_def) blast
    next
      case none: None
      show ?thesis
      proof (cases "photo_there img w")
        case False
        then show ?thesis
          using none fresh failed_ok [OF assms(1,2) refl] by (simp add: analyze_one_def get_receipt_by_image_id_def Let_def) blast
      next
        case True
        obtain r v where r: "analyse_receipt_from_path (sc_provider sc) m (photo_paths img) w = (r, v)" by fastforce
        have ok: "db_ok v" using keeps_run [OF receipt_service_ok(6) assms(1) r] .
        have img: "img \<in> set (images_t v)"
          using keeps_run [OF only_files_tables [OF extraction_files(2), where P = "\<lambda>w. img \<in> set (images_t w)"] _ r] assms(2) by simp
        have run: "analyze_one sc img m w = (case r of Inl e \<Rightarrow> extraction_failed sc ?k e
            | Inr receipt \<Rightarrow> bind (attempt (persist_analysis sc img receipt)) (\<lambda>saved. case saved of
               Inl e \<Rightarrow> fail_image ?k (''Failed to persist receipt: '' @ exn_text (sc_msg sc) e)
             | Inr row \<Rightarrow> seq (after_bypass sc img (r_id row)) (ret (analyzed_result ?k (r_id row))))) v"
          using True none fresh r by (cases r) (simp_all add: analyze_one_def get_receipt_by_image_id_def Let_def)
        show ?thesis
        proof (cases r)
          case (Inl e)
          show ?thesis unfolding run Inl sum.case by (rule extraction_failed_ok [OF ok img])
        next
          case (Inr receipt)
          show ?thesis unfolding run Inr sum.case by (rule persist_ends [OF ok img])
        qed
      qed
    qed
  qed
  then obtain res w' where run: "analyze_one sc img m w = (Inr res, w')" and ok: "result_ok ?k res w'" by blast
  have "db_ok w'" using keeps_run [OF analyze_one_db_ok assms(1) run] .
  moreover have "x \<in> set (images_t w')" if "x \<in> set (images_t w)" "im_id x \<noteq> ?k" for x
    using keeps_run [OF analyze_one_other [OF that(2)] that(1) run] .
  ultimately show ?thesis using run ok by blast
qed


section \<open>A cycle drains the queue\<close>

lemma on_image_clock: "keeps (\<lambda>w. c \<le> w_clock w) (on_image k f)"
  by (simp add: keeps_def on_image_frame)

lemma file_clock: "keeps (\<lambda>w. c \<le> w_clock w) (store_perm_image cfg p r)"
  unfolding store_perm_image_def perm_path_def move_file_def Let_def
  by (intro keeps_intro inserts_stable) simp_all

lemma analyze_one_clock:
  assumes "0 \<le> p_timeout (sc_provider sc)"
  shows "keeps (\<lambda>w. c \<le> w_clock w) (analyze_one sc img m)"
proof -
  have mark: "keeps (\<lambda>w. c \<le> w_clock w) (mark_analyzed k r)" "keeps (\<lambda>w. c \<le> w_clock w) (mark_failed k e)"
    "keeps (\<lambda>w. c \<le> w_clock w) (mark_terminal k st e)" for k r e st
    by (simp_all add: keeps_def marks_frame)
  have analyse: "keeps (\<lambda>w. c \<le> w_clock w) (analyse_receipt_from_path (sc_provider sc) m ps)" for ps
    unfolding analyse_receipt_from_path_def available_tags_def list_tags_def
    by (intro keeps_intro) (use assms in \<open>auto simp: keeps_def call_within_def split: prod.split\<close>)
  have failed: "keeps (\<lambda>w. c \<le> w_clock w) (extraction_failed sc k e)" for k e
    by (cases rule: extraction_failed_cases [of sc k e]) (auto simp: fail_image_def end_image_def intro!: keeps_intro mark)
  have bypass: "keeps (\<lambda>w. c \<le> w_clock w) (after_bypass sc img r)" for r
  proof -
    have parts: "keeps (\<lambda>w. c \<le> w_clock w) (move_parts cfg k r ds ps)" for cfg k ds ps
      by (induction ps arbitrary: ds) (auto simp: update_additional_images_def intro!: keeps_intro file_clock on_image_clock)
    show ?thesis
      unfolding after_bypass_def move_photos_def move_additional_images_def update_image_path_def update_image_thumbnail_path_def
      by (intro keeps_intro file_clock on_image_clock parts)
  qed
  show ?thesis
    unfolding analyze_one_def done_image_def fail_image_def persist_analysis_def get_receipt_by_image_id_def Let_def
    by (intro keeps_intro mark analyse failed bypass persist_stable) simp_all
qed

lemma claimable_later: "claimable t i \<Longrightarrow> t \<le> t' \<Longrightarrow> claimable t' i"
  by (auto simp: claimable_def lease_expired_def split: option.splits)

lemma drain_run:
  assumes "db_ok w" and "0 \<le> p_timeout (sc_provider sc)" and "distinct (map im_id ps)"
    and "\<forall>p \<in> set ps. p \<in> set (images_t w) \<and> claimable (w_clock w) p"
  shows "\<exists>rs w'. drain sc ms m ps w = (Inr rs, w') \<and> db_ok w' \<and> map pr_image rs = map im_id ps
    \<and> (\<forall>r \<in> set rs. row_of (pr_image r) (settled r) w')
    \<and> (\<forall>x \<in> set (images_t w). im_id x \<notin> im_id ` set ps \<longrightarrow> x \<in> set (images_t w'))"
  using assms
proof (induction ps arbitrary: w)
  case (Cons p ps)
  let ?c = "take_image (w_clock w) p" and ?k = "im_id p"
  let ?v = "w\<lparr>images_t := sql_update (\<lambda>j. im_id j = ?k) (take_image (w_clock w)) (images_t w)\<rparr>"
  have p: "p \<in> set (images_t w)" "claimable (w_clock w) p" using Cons.prems(4) by simp_all
  have claim: "claim_for_analysis ?k w = (Inr (Some ?c), ?v)"
  proof (rule claim_cases [OF Cons.prems(1), of ?k])
    assume "\<forall>i \<in> set (images_t w). im_id i = ?k \<longrightarrow> \<not> claimable (w_clock w) i"
    with p show ?thesis by blast
  next
    fix i assume "i \<in> set (images_t w)" "im_id i = ?k"
      and run: "claim_for_analysis ?k w = (Inr (Some (take_image (w_clock w) i)), ?v)"
    then have "i = p" using image_unique [OF Cons.prems(1) _ p(1)] by blast
    with run show ?thesis by simp
  qed
  have okv: "db_ok ?v" using keeps_run [OF image_ops_ok(4) Cons.prems(1) claim] .
  have cv: "?c \<in> set (images_t ?v)" and ck: "im_id ?c = ?k" using p(1) by (auto simp: set_sql_update take_image_def)
  define model where "model = chosen_model ms m ?c"
  obtain res w1 where one: "analyze_one sc ?c model ?v = (Inr res, w1)" and res: "result_ok ?k res w1" and ok1: "db_ok w1"
    and others: "\<forall>x \<in> set (images_t ?v). im_id x \<noteq> ?k \<longrightarrow> x \<in> set (images_t w1)"
    using analyze_one_run [OF okv cv Cons.prems(2), of model] unfolding ck by blast
  have clock: "w_clock w \<le> w_clock w1"
    using keeps_run [OF analyze_one_clock [OF Cons.prems(2)] _ one, of "w_clock w"] by simp
  have stay: "x \<in> set (images_t w1)" if "x \<in> set (images_t w)" "im_id x \<noteq> ?k" for x
    using that others by (simp add: set_sql_update)
  have rest: "\<forall>q \<in> set ps. q \<in> set (images_t w1) \<and> claimable (w_clock w1) q"
  proof
    fix q assume q: "q \<in> set ps"
    then have "im_id q \<in> set (map im_id ps)" by simp
    then have "im_id q \<noteq> ?k" using Cons.prems(3) by auto
    moreover have "q \<in> set (images_t w)" "claimable (w_clock w) q" using q Cons.prems(4) by simp_all
    ultimately show "q \<in> set (images_t w1) \<and> claimable (w_clock w1) q" using stay clock claimable_later by blast
  qed
  obtain rs w2 where run: "drain sc ms m ps w1 = (Inr rs, w2)" and ok2: "db_ok w2" and ids: "map pr_image rs = map im_id ps"
    and settled: "\<forall>r \<in> set rs. row_of (pr_image r) (settled r) w2"
    and keep: "\<forall>x \<in> set (images_t w1). im_id x \<notin> im_id ` set ps \<longrightarrow> x \<in> set (images_t w2)"
    using Cons.IH [OF ok1 Cons.prems(2) _ rest] Cons.prems(3) by auto
  have "row_of ?k (settled res) w1" "pr_image res = ?k" using res by (simp_all add: result_ok_def)
  then have "row_of (pr_image res) (settled res) w2"
    using keep Cons.prems(3) by (force simp: row_of_def)
  moreover have "drain sc ms m (p # ps) w = (Inr (res # rs), w2)"
    using claim one run by (simp add: model_def)
  moreover have "\<forall>x \<in> set (images_t w). im_id x \<notin> im_id ` set (p # ps) \<longrightarrow> x \<in> set (images_t w2)"
    using stay keep by simp
  ultimately show ?case using ok2 ids settled \<open>pr_image res = ?k\<close>
    by (intro exI [of _ "res # rs"] exI [of _ w2]) simp
qed simp


section \<open>Samples\<close>

text \<open>One model, which answers within a second and then runs into the deadline.\<close>

definition stuck_provider :: provider where
  "stuck_provider = \<lparr>p_models = (\<lambda>w. (Inr [\<lparr>mi_id = ''m'', mi_size = None, mi_caps = None, mi_digest = None\<rparr>], 1)),
     p_analyse = (\<lambda>m ps tags w. (Inl (OSError ''down''), 700)), p_alive = (\<lambda>w. (Inr True, 1)), p_timeout = 600\<rparr>"

definition sample_scheduler :: scheduler where
  "sample_scheduler = \<lparr>sc_preferred = ''m'', sc_provider = stuck_provider, sc_images = None, sc_attached = True,
     sc_msg = (\<lambda>e. [])\<rparr>"



end
