(* ===== verification/Tokens.thy ===== *)
theory Tokens
  imports LlmProvider
begin

text \<open>
  security/session.py: the signed session tokens, with Python's \<open>int(text)\<close> and \<open>UUID(text)\<close>, which
  read more spellings than \<open>str\<close> writes. \<open>mac\<close> stands for the hex digest of HMAC-SHA256. Times are
  whole seconds.
\<close>

section \<open>int and UUID from text\<close>

text \<open>The value of a digit in base 10 or 16.\<close>

definition base_digit :: "nat \<Rightarrow> char \<Rightarrow> nat option" where
  "base_digit b c = (let n = code_of c in
     if 48 \<le> n \<and> n \<le> 57 then Some (n - 48)
     else if b = 16 \<and> 97 \<le> n \<and> n \<le> 102 then Some (n - 87)
     else if b = 16 \<and> 65 \<le> n \<and> n \<le> 70 then Some (n - 55) else None)"

text \<open>Digits with single underscores between them; \<open>need\<close> tells that a digit must follow.\<close>

fun base_num :: "nat \<Rightarrow> bool \<Rightarrow> nat \<Rightarrow> string \<Rightarrow> nat option" where
  "base_num b need acc [] = (if need then None else Some acc)"
| "base_num b need acc (c # cs) =
     (if c = CHR ''_'' then if need then None else base_num b True acc cs
      else case base_digit b c of None \<Rightarrow> None | Some d \<Rightarrow> base_num b False (acc * b + d) cs)"

definition MAX_STR_DIGITS :: nat where
  "MAX_STR_DIGITS = 4300"

definition int_sign :: "string \<Rightarrow> bool \<times> string" where
  "int_sign s = (case s of [] \<Rightarrow> (False, []) | c # cs \<Rightarrow> if c = CHR ''-'' then (True, cs) else if c = CHR ''+'' then (False, cs) else (False, s))"

definition skip_0x :: "string \<Rightarrow> string" where
  "skip_0x s = (if prefix ''0x'' s \<or> prefix ''0X'' s then removeprefix (drop 2 s) ''_'' else s)"

definition py_int :: "nat \<Rightarrow> string \<Rightarrow> int option" where
  "py_int b text = (case int_sign (py_strip text) of (neg, s) \<Rightarrow>
     (let digits = (if b = 16 then skip_0x s else s) in
      if b = 10 \<and> MAX_STR_DIGITS < length (filter (\<lambda>c. c \<noteq> CHR ''_'') digits) then None
      else map_option (\<lambda>n. if neg then - int n else int n) (base_num b True 0 digits)))"

fun remove_sub :: "string \<Rightarrow> string \<Rightarrow> string" where
  "remove_sub p [] = []"
| "remove_sub p (c # cs) = (if p \<noteq> [] \<and> prefix p (c # cs) then remove_sub p (drop (length p) (c # cs)) else c # remove_sub p cs)"

declare remove_sub.simps [simp del]

definition strip_braces :: "string \<Rightarrow> string" where
  "strip_braces s = (let brace = (\<lambda>c. c = CHR ''{'' \<or> c = CHR ''}'') in rev (dropWhile brace (rev (dropWhile brace s))))"

definition uuid_of_text :: "string \<Rightarrow> uuid option" where
  "uuid_of_text s = (let h = remove_sub ''-'' (strip_braces (remove_sub ''uuid:'' (remove_sub ''urn:'' s))) in
     if length h \<noteq> 32 then None else map_option word_of_int (py_int 16 h))"

definition int_str :: "int \<Rightarrow> string" where
  "int_str i = (if i < 0 then CHR ''-'' # nat_str (nat (- i)) else nat_str (nat i))"

section \<open>Tokens\<close>

definition token_message :: "uuid \<Rightarrow> int \<Rightarrow> string" where
  "token_message u expiry = uuid_str u @ ''.'' @ int_str expiry"

definition create_token :: "(string \<Rightarrow> string \<Rightarrow> string) \<Rightarrow> uuid \<Rightarrow> int \<Rightarrow> string \<Rightarrow> timestamp \<Rightarrow> string" where
  "create_token mac u max_age secret now =
     (let m = token_message u (now + max_age) in m @ ''.'' @ mac secret m)"

text \<open>\<open>hmac.compare_digest\<close> on strings insists on ASCII.\<close>

definition ascii :: "string \<Rightarrow> bool" where
  "ascii s \<longleftrightarrow> list_all (\<lambda>c. code_of c < 128) s"

definition non_ascii :: exn where
  "non_ascii = OtherError ''TypeError: comparing strings with non-ASCII characters is not supported''"

definition compare_digest :: "string \<Rightarrow> string \<Rightarrow> exn + bool" where
  "compare_digest a b = (if ascii a \<and> ascii b then Inr (a = b) else Inl non_ascii)"

definition decode_token :: "(string \<Rightarrow> string \<Rightarrow> string) \<Rightarrow> string \<Rightarrow> string \<Rightarrow> timestamp \<Rightarrow> exn + uuid option" where
  "decode_token mac token secret now = (case split_on (CHR ''.'') token of
     [user_id_s, exp_s, sig] \<Rightarrow>
       (case (uuid_of_text user_id_s, py_int 10 exp_s) of
          (Some u, Some expiry) \<Rightarrow>
            (case compare_digest sig (mac secret (token_message u expiry)) of
               Inl e \<Rightarrow> Inl e
             | Inr same \<Rightarrow> Inr (if \<not> same \<or> expiry < now then None else Some u))
        | _ \<Rightarrow> Inr None)
   | _ \<Rightarrow> Inr None)"

section \<open>Reading back what was written\<close>

lemma split_on_part: "d \<notin> set w \<Longrightarrow> split_on d w = [w]"
  by (induction w) auto

lemma split_on_append: "d \<notin> set w \<Longrightarrow> split_on d (w @ d # s) = w # split_on d s"
  by (induction w) auto

lemma nat_str_digits: "c \<in> set (nat_str n) \<Longrightarrow> is_digit c"
proof (induction n arbitrary: c rule: nat_str.induct)
  case (1 n)
  then show ?case by (subst (asm) nat_str.simps) (auto split: if_splits)
qed

lemma base_digit_char: "d < 10 \<Longrightarrow> base_digit b (digit_char d) = Some d"
  by (simp add: base_digit_def code_of_digit_char)

lemma base_digit_hex: "d < 16 \<Longrightarrow> base_digit 16 (hex_digit d) = Some d"
  by (simp add: base_digit_def code_of_hex_digit)

lemma not_underscore: "base_digit b c = Some d \<Longrightarrow> c \<noteq> CHR ''_''"
  by (auto simp: base_digit_def code_of_def)

lemma base_num_snoc:
  "base_num b need acc s = Some n \<Longrightarrow> base_digit b c = Some d \<Longrightarrow> base_num b need acc (s @ [c]) = Some (n * b + d)"
  by (induction b need acc s rule: base_num.induct) (auto simp: not_underscore split: if_splits option.splits)

lemma base_num_nat_str: "base_num 10 True 0 (nat_str n) = Some n"
proof (induction n rule: nat_str.induct)
  case (1 n)
  have one: "base_num 10 True 0 [digit_char d] = Some d" if "d < 10" for d
    using that not_underscore [OF base_digit_char] by (simp add: base_digit_char)
  show ?case
  proof (cases "n < 10")
    case True
    then show ?thesis using one by (subst nat_str.simps) simp
  next
    case False
    then have "base_num 10 True 0 (nat_str (n div 10)) = Some (n div 10)" using 1 by simp
    then have "base_num 10 True 0 (nat_str (n div 10) @ [digit_char (n mod 10)]) = Some (n div 10 * 10 + n mod 10)"
      by (rule base_num_snoc) (simp add: base_digit_char)
    then show ?thesis using False by (subst nat_str.simps) simp
  qed
qed

lemma base_num_hex: "n < 16 ^ Suc w \<Longrightarrow> base_num 16 True 0 (hex_digits (Suc w) n) = Some n"
proof (induction w arbitrary: n)
  case 0
  then show ?case using not_underscore [OF base_digit_hex] by (simp add: base_digit_hex)
next
  case (Suc w)
  have "n div 16 < 16 ^ Suc w" using Suc.prems by (intro less_mult_imp_div_less) (simp add: mult.commute)
  then have "base_num 16 True 0 (hex_digits (Suc w) (n div 16)) = Some (n div 16)" by (rule Suc.IH)
  then have "base_num 16 True 0 (hex_digits (Suc w) (n div 16) @ [hex_digit (n mod 16)]) = Some (n div 16 * 16 + n mod 16)"
    by (rule base_num_snoc) (simp add: base_digit_hex)
  then show ?case by simp
qed

lemma strip_plain: "\<forall>c \<in> set s. \<not> py_space c \<Longrightarrow> py_strip s = s"
proof -
  assume a: "\<forall>c \<in> set s. \<not> py_space c"
  have id: "dropWhile py_space t = t" if "\<forall>c \<in> set t. \<not> py_space c" for t using that by (cases t) auto
  have "dropWhile py_space s = s" "dropWhile py_space (rev s) = rev s" by (rule id; use a in simp)+
  then show ?thesis by (simp add: py_strip_def)
qed

lemma digit_plain: "is_digit c \<Longrightarrow> \<not> py_space c \<and> c \<noteq> CHR ''-'' \<and> c \<noteq> CHR ''+'' \<and> c \<noteq> CHR ''.'' \<and> c \<noteq> CHR ''_'' \<and> code_of c < 128"
  by (auto simp: is_digit_def py_space_def Let_def code_of_def)

lemma nat_str_nonempty: "nat_str n \<noteq> []"
  by (subst nat_str.simps) simp

lemma int_roundtrip:
  assumes "0 \<le> i" and "length (int_str i) \<le> MAX_STR_DIGITS"
  shows "py_int 10 (int_str i) = Some i"
proof -
  let ?s = "nat_str (nat i)"
  have plain: "\<forall>c \<in> set ?s. \<not> py_space c \<and> c \<noteq> CHR ''-'' \<and> c \<noteq> CHR ''+'' \<and> c \<noteq> CHR ''_''"
    using nat_str_digits digit_plain by blast
  then have "py_strip ?s = ?s" by (simp add: strip_plain)
  moreover have "int_sign ?s = (False, ?s)"
    using plain nat_str_nonempty [of "nat i"] by (auto simp: int_sign_def split: list.splits)
  moreover have "length (filter (\<lambda>c. c \<noteq> CHR ''_'') ?s) \<le> MAX_STR_DIGITS"
    using assms by (auto simp: int_str_def intro: order_trans [OF length_filter_le])
  ultimately show ?thesis using assms(1) by (simp add: py_int_def int_str_def base_num_nat_str)
qed

lemma hex_code: "c \<in> set (hex_digits w n) \<Longrightarrow> 48 \<le> code_of c \<and> code_of c \<le> 57 \<or> 97 \<le> code_of c \<and> code_of c \<le> 102"
proof (induction w arbitrary: n)
  case (Suc w)
  have d: "48 \<le> code_of (hex_digit d) \<and> code_of (hex_digit d) \<le> 57 \<or> 97 \<le> code_of (hex_digit d) \<and> code_of (hex_digit d) \<le> 102"
    if "d < 16" for d using code_of_hex_digit [OF that] that by auto
  have "c \<in> set (hex_digits w (n div 16)) \<or> c = hex_digit (n mod 16)" using Suc.prems by auto
  then show ?case using Suc.IH d [of "n mod 16"] by auto
qed simp

lemma hex_plain:
  assumes "c \<in> set (uuid_hex u)"
  shows "\<not> py_space c \<and> code_of c < 128 \<and> c \<notin> set ''-+_.{}:xX''"
  using hex_code [of c 32 "unat u"] assms by (auto simp: uuid_hex_def py_space_def Let_def code_of_def)

lemma remove_sub_absent: "x \<in> set p \<Longrightarrow> x \<notin> set s \<Longrightarrow> remove_sub p s = s"
proof (induction s)
  case (Cons c cs)
  then have "\<not> prefix p (c # cs)" by (meson prefix_order.order_trans set_mono_prefix subsetD)
  with Cons show ?case by (simp add: remove_sub.simps)
qed (simp add: remove_sub.simps)

lemma remove_sub_char: "remove_sub [d] s = filter (\<lambda>c. c \<noteq> d) s"
  by (induction s) (auto simp: remove_sub.simps)

lemma set_uuid_str: "set (uuid_str u) \<subseteq> insert (CHR ''-'') (set (uuid_hex u))"
  by (auto simp: uuid_str_def Let_def dest: in_set_takeD in_set_dropD)

lemma uuid_dashes: "filter (\<lambda>c. c \<noteq> CHR ''-'') (uuid_str u) = uuid_hex u"
proof -
  have keep: "filter (\<lambda>c. c \<noteq> CHR ''-'') s = s" if "set s \<subseteq> set (uuid_hex u)" for s
    using that hex_plain [of _ u] by (auto simp: filter_id_conv)
  have parts: "set (take m (drop n (uuid_hex u))) \<subseteq> set (uuid_hex u)" "set (take m (uuid_hex u)) \<subseteq> set (uuid_hex u)"
    "set (drop n (uuid_hex u)) \<subseteq> set (uuid_hex u)" for m n
    by (auto dest: in_set_takeD in_set_dropD)
  have "filter (\<lambda>c. c \<noteq> CHR ''-'') (uuid_str u) = take 8 (uuid_hex u) @ take 4 (drop 8 (uuid_hex u)) @ take 4 (drop 12 (uuid_hex u))
     @ take 4 (drop 16 (uuid_hex u)) @ drop 20 (uuid_hex u)"
    by (simp add: uuid_str_def Let_def keep parts)
  then show ?thesis using uuid_hex_parts [of u] by simp
qed

lemma braces_plain: "CHR ''{'' \<notin> set s \<Longrightarrow> CHR ''}'' \<notin> set s \<Longrightarrow> strip_braces s = s"
proof -
  let ?b = "\<lambda>c. c = CHR ''{'' \<or> c = CHR ''}''"
  assume a: "CHR ''{'' \<notin> set s" "CHR ''}'' \<notin> set s"
  have id: "dropWhile ?b t = t" if "CHR ''{'' \<notin> set t" "CHR ''}'' \<notin> set t" for t using that by (cases t) auto
  have "dropWhile ?b s = s" "dropWhile ?b (rev s) = rev s" by (rule id; use a in simp)+
  then show ?thesis by (simp add: strip_braces_def)
qed

lemma uuid_str_plain:
  assumes "c \<in> set (uuid_str u)"
  shows "code_of c < 128 \<and> c \<notin> set ''+_.{}:xX''"
proof (cases "c = CHR ''-''")
  case True
  then show ?thesis by (simp add: code_of_def)
next
  case False
  then have "c \<in> set (uuid_hex u)" using assms set_uuid_str by blast
  then show ?thesis using hex_plain [of c u] by simp
qed

lemma hex_int: "py_int 16 (uuid_hex u) = Some (uint u)"
proof -
  let ?s = "uuid_hex u"
  have "\<forall>c \<in> set ?s. \<not> py_space c" using hex_plain by blast
  then have "py_strip ?s = ?s" by (rule strip_plain)
  moreover have "int_sign ?s = (False, ?s)"
  proof (cases ?s)
    case Nil
    then show ?thesis by (simp add: int_sign_def)
  next
    case (Cons c cs)
    then have "c \<noteq> CHR ''-''" "c \<noteq> CHR ''+''" using hex_plain [of c u] by auto
    then show ?thesis unfolding Cons by (simp add: int_sign_def)
  qed
  moreover have "\<not> prefix ''0x'' ?s" "\<not> prefix ''0X'' ?s"
    using hex_plain [of "CHR ''x''" u] hex_plain [of "CHR ''X''" u] by (auto dest!: set_mono_prefix)
  then have "skip_0x ?s = ?s" by (simp add: skip_0x_def)
  moreover have "base_num 16 True 0 ?s = Some (unat u)"
  proof -
    have "unat u < 16 ^ Suc 31" using unsigned_less [of u] by simp
    from base_num_hex [OF this] show ?thesis by (simp only: uuid_hex_def numeral_eq_Suc pred_numeral_simps Suc_eq_plus1 [symmetric]) simp
  qed
  ultimately show ?thesis by (simp add: py_int_def)
qed

lemma uuid_roundtrip: "uuid_of_text (uuid_str u) = Some u"
proof -
  have c: "CHR '':'' \<notin> set (uuid_str u)" "CHR ''{'' \<notin> set (uuid_str u)" "CHR ''}'' \<notin> set (uuid_str u)"
    using uuid_str_plain [of "CHR '':''"] uuid_str_plain [of "CHR ''{''"] uuid_str_plain [of "CHR ''}''"] by auto
  have "remove_sub ''urn:'' (uuid_str u) = uuid_str u" "remove_sub ''uuid:'' (uuid_str u) = uuid_str u"
    by (rule remove_sub_absent [of "CHR '':''"]; use c in simp)+
  then show ?thesis
    using c by (simp add: uuid_of_text_def braces_plain remove_sub_char uuid_dashes hex_int)
qed

section \<open>What a token proves\<close>

text \<open>A hex digest consists of hex digits.\<close>

definition hex_digest :: "(string \<Rightarrow> string \<Rightarrow> string) \<Rightarrow> bool" where
  "hex_digest mac \<longleftrightarrow> (\<forall>k m. list_all is_hex (mac k m))"

lemma hex_digest_plain: "hex_digest mac \<Longrightarrow> ascii (mac k m) \<and> CHR ''.'' \<notin> set (mac k m)"
proof -
  assume "hex_digest mac"
  then have h: "is_hex c" if "c \<in> set (mac k m)" for c using that by (simp add: hex_digest_def list_all_iff)
  have "code_of c < 128" if "is_hex c" for c using that by (auto simp: is_hex_def Let_def)
  moreover have "\<not> is_hex (CHR ''.'')" by (simp add: is_hex_def code_of_def)
  ultimately show ?thesis using h by (auto simp: ascii_def list_all_iff)
qed

lemma int_str_plain: "c \<in> set (int_str i) \<Longrightarrow> c \<noteq> CHR ''.''"
  using nat_str_digits digit_plain by (fastforce simp: int_str_def split: if_splits)

lemma uuid_no_dot: "CHR ''.'' \<notin> set (uuid_str u)"
  using uuid_str_plain [of "CHR ''.''"] by auto

lemma token_parts:
  assumes "hex_digest mac"
  shows "split_on (CHR ''.'') (token_message u e @ ''.'' @ mac k m) = [uuid_str u, int_str e, mac k m]"
proof -
  have i: "CHR ''.'' \<notin> set (int_str e)" using int_str_plain by blast
  have "CHR ''.'' \<notin> set (mac k m)" using hex_digest_plain [OF assms] by blast
  then show ?thesis
    using split_on_append [OF uuid_no_dot] split_on_append [OF i] split_on_part
    by (simp add: token_message_def)
qed

lemma session_read:
  assumes "hex_digest mac" and "0 \<le> now + max_age" and "length (int_str (now + max_age)) \<le> MAX_STR_DIGITS"
  shows "decode_token mac (create_token mac u max_age secret now) secret later
    = Inr (if later \<le> now + max_age then Some u else None)"
  using hex_digest_plain [OF assms(1)] token_parts [OF assms(1)]
  by (simp add: decode_token_def create_token_def Let_def uuid_roundtrip int_roundtrip [OF assms(2,3)] compare_digest_def)

text \<open>
  Property C19: a session lasts as long as it says. The token issued for a user is read back as that user up
  to and including the second of its expiry, and as nobody afterwards.
\<close>

theorem session_roundtrip:
  assumes "hex_digest mac" and "0 \<le> now + max_age" and "length (int_str (now + max_age)) \<le> MAX_STR_DIGITS"
  shows "decode_token mac (create_token mac u max_age secret now) secret later
    = Inr (if later \<le> now + max_age then Some u else None)"
  using assms by (rule session_read)

lemma nat_str_inj: "nat_str m = nat_str n \<Longrightarrow> m = n"
  by (metis base_num_nat_str option.inject)

lemma int_str_inj:
  assumes "int_str i = int_str j"
  shows "i = j"
proof -
  have "CHR ''-'' # s \<noteq> nat_str n" for s n
  proof
    assume "CHR ''-'' # s = nat_str n"
    then have "CHR ''-'' \<in> set (nat_str n)" by (metis list.set_intros(1))
    then show False using nat_str_digits [of "CHR ''-''" n] by (simp add: is_digit_def code_of_def)
  qed
  then show ?thesis using assms nat_str_inj by (auto simp: int_str_def split: if_splits dest!: nat_str_inj) metis+
qed

lemma token_message_inj: "token_message u e = token_message v f \<Longrightarrow> u = v \<and> e = f"
proof -
  assume "token_message u e = token_message v f"
  moreover have "length (uuid_str u) = length (uuid_str v)" by (simp add: uuid_str_def Let_def)
  ultimately show ?thesis using uuid_str_inj int_str_inj by (auto simp: token_message_def)
qed

lemma split_on_nonempty: "split_on d s \<noteq> []"
  by (induction s) (auto split: list.split)

lemma split_on_last: "\<exists>ws. split_on d (p @ d # x) = ws @ split_on d x"
proof (induction p)
  case Nil
  show ?case by (rule exI [of _ "[[]]"]) simp
next
  case (Cons a p)
  then obtain ws where ws: "split_on d (p @ d # x) = ws @ split_on d x" by blast
  obtain v vs where v: "split_on d x = v # vs" using split_on_nonempty [of d x] by (cases "split_on d x") auto
  have ne: "ws \<noteq> []"
  proof
    assume "ws = []"
    have "length (split_on d x) < length (split_on d (q @ d # x))" for q by (induction q) (auto split: list.split)
    from this [of p] ws \<open>ws = []\<close> show False by simp
  qed
  show ?case
  proof (cases "a = d")
    case True
    then show ?thesis using ws by (intro exI [of _ "[] # ws"]) simp
  next
    case False
    obtain w ws' where "ws = w # ws'" using ne by (cases ws) auto
    then show ?thesis using ws False by (intro exI [of _ "(a # w) # ws'"]) simp
  qed
qed

lemma split_on_join: "py_join [d] (split_on d s) = s"
proof (induction s)
  case (Cons c s)
  obtain w ws where "split_on d s = w # ws" using split_on_nonempty [of d s] by (cases "split_on d s") auto
  with Cons show ?case by (cases ws) auto
qed simp

lemma decode_cases:
  obtains (refused) "decode_token mac t secret now = Inr None"
  | (raised) a b sig u e where "t = a @ ''.'' @ b @ ''.'' @ sig" "decode_token mac t secret now = Inl non_ascii"
      "\<not> (ascii sig \<and> ascii (mac secret (token_message u e)))"
  | (accepted) a b u e where "t = a @ ''.'' @ b @ ''.'' @ mac secret (token_message u e)"
      "decode_token mac t secret now = Inr (Some u)" "now \<le> e"
proof (cases "\<exists>a b sig u e. split_on (CHR ''.'') t = [a, b, sig] \<and> uuid_of_text a = Some u \<and> py_int 10 b = Some e")
  case True
  then obtain a b sig u e where sp: "split_on (CHR ''.'') t = [a, b, sig]" and r: "uuid_of_text a = Some u" "py_int 10 b = Some e"
    by blast
  have t: "t = a @ ''.'' @ b @ ''.'' @ sig" using split_on_join [of "CHR ''.''" t] by (simp add: sp)
  have d: "decode_token mac t secret now = (case compare_digest sig (mac secret (token_message u e)) of
       Inl e \<Rightarrow> Inl e | Inr same \<Rightarrow> Inr (if \<not> same \<or> e < now then None else Some u))"
    by (simp add: decode_token_def sp r)
  show thesis
  proof (cases "ascii sig \<and> ascii (mac secret (token_message u e))")
    case False
    then show thesis using raised [OF t] d by (simp add: compare_digest_def)
  next
    case True
    then show thesis
      using refused accepted t d by (cases "sig = mac secret (token_message u e) \<and> now \<le> e") (auto simp: compare_digest_def)
  qed
next
  case False
  then have "decode_token mac t secret now = Inr None"
    by (auto simp: decode_token_def split: list.splits option.splits)
  then show thesis by (rule refused)
qed


text \<open>Samples: a digest for the witnesses, and a cookie that makes the comparison raise.\<close>

definition sample_mac :: "string \<Rightarrow> string \<Rightarrow> string" where
  "sample_mac k m = concat (map (\<lambda>c. hex_digits 2 (code_of c)) m)"

lemma sample_mac_hex: "hex_digest sample_mac"
  using hex_code by (fastforce simp: hex_digest_def sample_mac_def list_all_iff is_hex_def Let_def)

lemma sample_mac_simps:
  "sample_mac k [] = []" "sample_mac k (c # m) = hex_digits 2 (code_of c) @ sample_mac k m"
  by (simp_all add: sample_mac_def)

lemma sample_mac_inj: "sample_mac k m = sample_mac k n \<Longrightarrow> m = n"
proof (induction m arbitrary: n)
  case Nil
  then show ?case by (cases n) (auto simp: sample_mac_simps numeral_2_eq_2)
next
  case (Cons c m)
  show ?case
  proof (cases n)
    case Nil
    with Cons.prems show ?thesis by (simp add: sample_mac_simps numeral_2_eq_2)
  next
    case n: (Cons d n')
    have eq: "hex_digits 2 (code_of c) = hex_digits 2 (code_of d)" and rest: "sample_mac k m = sample_mac k n'"
      using Cons.prems unfolding n sample_mac_simps
      by (metis append_eq_append_conv length_hex_digits)+
    have lt: "code_of x < 16 ^ 2" for x by (simp add: code_of_def)
    have "code_of c = code_of d" by (rule hex_digits_inj [OF lt lt eq])
    then show ?thesis using Cons.IH [OF rest] by (simp add: n code_of_def)
  qed
qed

lemma sample_expiry: "length (int_str (1000 + 60)) \<le> MAX_STR_DIGITS"
  by (simp add: int_str_def nat_str.simps MAX_STR_DIGITS_def)

lemma session_roundtrip_witness:
  "decode_token sample_mac (create_token sample_mac 7 60 ''s'' 1000) ''s'' 1060 = Inr (Some 7)"
  using session_roundtrip [OF sample_mac_hex _ sample_expiry, where u = 7 and secret = "''s''" and later = 1060] by simp

lemma non_ascii_signature_raises:
  "decode_token sample_mac (uuid_str 7 @ ''.9.'' @ [CHR 0xE9]) ''s'' 0 = Inl non_ascii"
proof -
  have "split_on (CHR ''.'') (uuid_str 7 @ ''.9.'' @ [CHR 0xE9]) = [uuid_str 7, ''9'', [CHR 0xE9]]"
    using split_on_append [OF uuid_no_dot, of 7 "''9.'' @ [CHR 0xE9]"] by simp
  moreover have "py_int 10 ''9'' = Some 9" by code_simp
  ultimately show ?thesis by (simp add: decode_token_def uuid_roundtrip compare_digest_def ascii_def code_of_def)
qed


end
