(* ===== verification/Auth.thy ===== *)
theory Auth
  imports Tokens
begin

text \<open>
  Accounts and sessions: security/password.py, security/models.py, security/dependencies.py,
  provider/db/user_db.py (UserDB), api/auth.py and the admin bootstrap of main.py. The digest and
  argon2 are parameters, in the record \<open>crypto\<close>; \<open>cy_hash\<close> takes the salt it drew.
\<close>

section \<open>Settings and principals\<close>

record auth_cfg =
  ac_secret :: string
  ac_cookie :: string
  ac_max_age :: int
  ac_secure :: bool
  ac_boot_username :: "string option"
  ac_boot_password :: "string option"
  ac_allow_registration :: bool
  ac_admin_sees_all :: bool
  ac_pepper :: "string option"

record crypto =
  cy_mac :: "string \<Rightarrow> string \<Rightarrow> string"
  cy_hash :: "nat \<Rightarrow> string \<Rightarrow> string"
  cy_verify :: "string \<Rightarrow> string \<Rightarrow> bool"

record user =
  us_id :: uuid
  us_username :: string
  us_admin :: bool
  us_see_all :: bool

section \<open>Passwords\<close>

definition effective_pepper :: "auth_cfg \<Rightarrow> string" where
  "effective_pepper a = (case ac_pepper a of None \<Rightarrow> ac_secret a | Some p \<Rightarrow> if p = [] then ac_secret a else p)"

definition peppered :: "crypto \<Rightarrow> auth_cfg \<Rightarrow> string \<Rightarrow> string" where
  "peppered cy a password = (let pepper = effective_pepper a in
     if pepper = [] then password else cy_mac cy pepper password)"

definition hash_password :: "crypto \<Rightarrow> string \<Rightarrow> auth_cfg \<Rightarrow> (world, string) py" where
  "hash_password cy password a w =
     (Inr (cy_hash cy (w_tick w) (peppered cy a password)), w\<lparr>w_tick := Suc (w_tick w)\<rparr>)"

text \<open>Every error of argon2 counts as a wrong password.\<close>

definition verify_password :: "crypto \<Rightarrow> string \<Rightarrow> string \<Rightarrow> auth_cfg \<Rightarrow> bool" where
  "verify_password cy hashed password a = cy_verify cy hashed (peppered cy a password)"

section \<open>UserDB\<close>

definition user_from_record :: "user_row \<Rightarrow> user" where
  "user_from_record r = \<lparr>us_id = u_id r, us_username = u_username r, us_admin = u_admin r, us_see_all = False\<rparr>"

definition create_user :: "string \<Rightarrow> string \<Rightarrow> bool \<Rightarrow> (world, user) py" where
  "create_user username hashed is_admin = bind gen_uuid (\<lambda>k.
     bind (insert_user \<lparr>u_id = k, u_username = username, u_hash = hashed, u_admin = is_admin\<rparr>) (\<lambda>r.
       ret (user_from_record r)))"

definition user_by_username :: "string \<Rightarrow> (world, user_row option) py" where
  "user_by_username username = gets (\<lambda>w. fetchrow (filter (\<lambda>r. u_username r = username) (users_t w)))"

definition get_user_by_username :: "string \<Rightarrow> (world, user option) py" where
  "get_user_by_username username = bind (user_by_username username) (\<lambda>r. ret (map_option user_from_record r))"

definition get_user_by_id :: "uuid \<Rightarrow> (world, user option) py" where
  "get_user_by_id k = gets (\<lambda>w. map_option user_from_record (fetchrow (filter (\<lambda>r. u_id r = k) (users_t w))))"

definition verify_credentials :: "crypto \<Rightarrow> string \<Rightarrow> string \<Rightarrow> auth_cfg \<Rightarrow> (world, user option) py" where
  "verify_credentials cy username password a = bind (user_by_username username) (\<lambda>r.
     ret (case r of None \<Rightarrow> None
       | Some u \<Rightarrow> if verify_password cy (u_hash u) password a then Some (user_from_record u) else None))"

definition count_users :: "(world, nat) py" where
  "count_users = gets (\<lambda>w. length (users_t w))"

definition set_owner_of_orphan_rows :: "uuid \<Rightarrow> (world, unit) py" where
  "set_owner_of_orphan_rows k =
     seq (update_receipts (\<lambda>r. r_user_id r = None) (\<lambda>r. r\<lparr>r_user_id := Some k\<rparr>))
     (seq (update_images (\<lambda>i. im_user_id i = None) (\<lambda>i. i\<lparr>im_user_id := Some k\<rparr>))
       (ret ()))"

section \<open>Who is asking\<close>

definition not_authenticated :: exn where
  "not_authenticated = HTTPError 401 ''Not authenticated''"

text \<open>\<open>get_current_user\<close>: the session cookie of the request, if any.\<close>

definition get_current_user :: "crypto \<Rightarrow> auth_cfg \<Rightarrow> string option \<Rightarrow> (world, user) py" where
  "get_current_user cy a cookie =
     bind (gets w_db_ready) (\<lambda>ready.
     seq (guard ready (HTTPError 503 ''Authentication is unavailable''))
     (case cookie of
       None \<Rightarrow> raise not_authenticated
     | Some token \<Rightarrow>
        if token = [] then raise not_authenticated
        else bind (gets w_clock) (\<lambda>now.
          bind (lift_result (decode_token (cy_mac cy) token (ac_secret a) now)) (\<lambda>k. case k of
            None \<Rightarrow> raise not_authenticated
          | Some k \<Rightarrow> bind (get_user_by_id k) (\<lambda>u. case u of
              None \<Rightarrow> raise not_authenticated
            | Some u \<Rightarrow> ret (u\<lparr>us_see_all := us_admin u \<and> ac_admin_sees_all a\<rparr>))))))"

definition require_admin :: "crypto \<Rightarrow> auth_cfg \<Rightarrow> string option \<Rightarrow> (world, user) py" where
  "require_admin cy a cookie = bind (get_current_user cy a cookie) (\<lambda>u.
     if us_admin u then ret u else raise (HTTPError 403 ''Administrator privileges required''))"

section \<open>Routes\<close>

record cookie =
  ck_name :: string
  ck_value :: string
  ck_max_age :: int
  ck_secure :: bool

definition session_cookie :: "crypto \<Rightarrow> auth_cfg \<Rightarrow> uuid \<Rightarrow> (world, cookie) py" where
  "session_cookie cy a k = gets (\<lambda>w. \<lparr>ck_name = ac_cookie a,
     ck_value = create_token (cy_mac cy) k (ac_max_age a) (ac_secret a) (w_clock w),
     ck_max_age = ac_max_age a, ck_secure = ac_secure a\<rparr>)"

definition valid_credentials :: "string \<Rightarrow> string \<Rightarrow> bool" where
  "valid_credentials username password \<longleftrightarrow>
     1 \<le> length username \<and> length username \<le> 100 \<and> 1 \<le> length password \<and> length password \<le> 200"

definition with_cookie :: "crypto \<Rightarrow> auth_cfg \<Rightarrow> user \<Rightarrow> (world, user \<times> cookie) py" where
  "with_cookie cy a u = bind (session_cookie cy a (us_id u)) (\<lambda>c. ret (u, c))"

definition require_user_db :: "(world, unit) py" where
  "require_user_db = bind (gets w_db_ready) (\<lambda>ready. guard ready (HTTPError 503 ''Database is unavailable''))"

definition register :: "crypto \<Rightarrow> auth_cfg \<Rightarrow> string \<Rightarrow> string \<Rightarrow> (world, user \<times> cookie) py" where
  "register cy a username password =
     seq (guard (valid_credentials username password) (HTTPError 422 ''Unprocessable Entity''))
     (seq require_user_db
     (seq (guard (ac_allow_registration a) (HTTPError 403 ''Registration is disabled''))
     (bind (get_user_by_username username) (\<lambda>taken.
      seq (guard (taken = None) (HTTPError 409 ''Username is already taken''))
      (bind (hash_password cy password a) (\<lambda>hashed.
       bind (create_user username hashed False) (\<lambda>u. with_cookie cy a u)))))))"

definition login :: "crypto \<Rightarrow> auth_cfg \<Rightarrow> string \<Rightarrow> string \<Rightarrow> (world, user \<times> cookie) py" where
  "login cy a username password =
     seq (guard (valid_credentials username password) (HTTPError 422 ''Unprocessable Entity''))
     (seq require_user_db
     (bind (verify_credentials cy username password a) (\<lambda>u. case u of
       None \<Rightarrow> raise (HTTPError 401 ''Invalid username or password'')
     | Some u \<Rightarrow> with_cookie cy a u)))"

definition logout :: "auth_cfg \<Rightarrow> (world, string) py" where
  "logout a = ret (ac_cookie a)"

definition me :: "crypto \<Rightarrow> auth_cfg \<Rightarrow> string option \<Rightarrow> (world, user) py" where
  "me cy a cookie = get_current_user cy a cookie"

section \<open>The first administrator\<close>

text \<open>An empty name or password in the environment counts as none.\<close>

definition given :: "string option \<Rightarrow> bool" where
  "given s \<longleftrightarrow> (case s of None \<Rightarrow> False | Some t \<Rightarrow> t \<noteq> [])"

definition bootstrap_admin :: "crypto \<Rightarrow> auth_cfg \<Rightarrow> (world, unit) py" where
  "bootstrap_admin cy a =
     bind count_users (\<lambda>n.
       if 0 < n \<or> \<not> given (ac_boot_username a) \<or> \<not> given (ac_boot_password a) then ret ()
       else bind (catch (bind (hash_password cy (the (ac_boot_password a)) a) (\<lambda>hashed.
               bind (create_user (the (ac_boot_username a)) hashed True) (\<lambda>u. ret (Some u))))
             (\<lambda>e. if e = UniqueViolation then ret None else raise e)) (\<lambda>admin. case admin of
           None \<Rightarrow> ret ()
         | Some u \<Rightarrow> set_owner_of_orphan_rows (us_id u)))"

section \<open>Integrity\<close>

lemma hash_ok [keeps_intro]: "keeps db_ok (hash_password cy p a)"
  by (simp add: keeps_def hash_password_def)

lemma owner_updates_ok [keeps_intro]: "keeps db_ok (set_owner_of_orphan_rows k)"
  unfolding set_owner_of_orphan_rows_def
  by (intro keeps_intro update_receipts_ok update_images_ok) simp_all

lemma auth_ok [keeps_intro]:
  "keeps db_ok (create_user n h b)" "keeps db_ok (register cy a n p)" "keeps db_ok (login cy a n p)"
  "keeps db_ok (get_current_user cy a c)" "keeps db_ok (bootstrap_admin cy a)"
proof -
  show c: "keeps db_ok (create_user n h b)" for n h b unfolding create_user_def by (intro keeps_intro)
  show "keeps db_ok (register cy a n p)"
    unfolding register_def require_user_db_def get_user_by_username_def user_by_username_def with_cookie_def session_cookie_def
    by (intro keeps_intro c)
  show "keeps db_ok (login cy a n p)"
    unfolding login_def require_user_db_def verify_credentials_def user_by_username_def with_cookie_def session_cookie_def
    by (intro keeps_intro)
  show "keeps db_ok (get_current_user cy a c)"
    unfolding get_current_user_def get_user_by_id_def by (intro keeps_intro)
  show "keeps db_ok (bootstrap_admin cy a)"
    unfolding bootstrap_admin_def count_users_def by (intro keeps_intro c)
qed

section \<open>What the routes promise\<close>

text \<open>argon2 accepts the password it hashed, and the digest is a hex digest.\<close>

definition crypto_sound :: "crypto \<Rightarrow> bool" where
  "crypto_sound cy \<longleftrightarrow> (\<forall>n p. cy_verify cy (cy_hash cy n p) p) \<and> hex_digest (cy_mac cy)"

definition lasting :: "auth_cfg \<Rightarrow> timestamp \<Rightarrow> bool" where
  "lasting a now \<longleftrightarrow> 0 \<le> now + ac_max_age a \<and> length (int_str (now + ac_max_age a)) \<le> MAX_STR_DIGITS"

lemma user_lookup:
  assumes "db_ok w" and "r \<in> set (users_t w)"
  shows "fetchrow (filter (\<lambda>x. u_id x = u_id r) (users_t w)) = Some r"
    and "fetchrow (filter (\<lambda>x. u_username x = u_username r) (users_t w)) = Some r"
proof -
  have "distinct (map u_id (users_t w))" "distinct (map u_username (users_t w))"
    using assms(1) by (simp_all add: db_ok_def keys_ok_def)
  note keys = this
  show "fetchrow (filter (\<lambda>x. u_id x = u_id r) (users_t w)) = Some r"
    using keys(1) assms(2) by (rule fetchrow_unique) simp_all
  show "fetchrow (filter (\<lambda>x. u_username x = u_username r) (users_t w)) = Some r"
    using keys(2) assms(2) by (rule fetchrow_unique) simp_all
qed

lemma login_run:
  assumes "db_ok w" and "w_db_ready w" and "valid_credentials n p" and "r \<in> set (users_t w)" and "u_username r = n"
    and "verify_password cy (u_hash r) p a"
  shows "\<exists>c. login cy a n p w = (Inr (user_from_record r, c), w)"
  using user_lookup(2) [OF assms(1,4)] assms(2-6)
  by (simp add: login_def require_user_db_def seq_def bind_assoc verify_credentials_def user_by_username_def
      with_cookie_def session_cookie_def)

lemma register_run:
  assumes "register cy a n p w = (Inr (u, c), w')"
  shows "w_db_ready w \<and> valid_credentials n p \<and> ac_allow_registration a
    \<and> (\<forall>r \<in> set (users_t w). u_username r \<noteq> n)
    \<and> (\<exists>k. u = \<lparr>us_id = k, us_username = n, us_admin = False, us_see_all = False\<rparr>
       \<and> w' = w\<lparr>w_tick := Suc (Suc (w_tick w)), users_t := users_t w @ [\<lparr>u_id = k, u_username = n,
            u_hash = cy_hash cy (w_tick w) (peppered cy a p), u_admin = False\<rparr>]\<rparr>
       \<and> ck_value c = create_token (cy_mac cy) k (ac_max_age a) (ac_secret a) (w_clock w))"
  using assms
  by (auto simp: register_def require_user_db_def seq_eq_Inr bind_eq_Inr guard_eq_Inr get_user_by_username_def user_by_username_def
      hash_password_def create_user_def gen_uuid_def insert_user_def with_cookie_def session_cookie_def user_from_record_def
      fetchrow_filter_None split: if_splits)

text \<open>Reading a cookie the service set.\<close>

lemma own_cookie:
  assumes "hex_digest (cy_mac cy)" and "lasting a now" and "db_ok w" and "w_db_ready w" and "r \<in> set (users_t w)"
  shows "get_current_user cy a (Some (create_token (cy_mac cy) (u_id r) (ac_max_age a) (ac_secret a) now)) w =
    (if w_clock w \<le> now + ac_max_age a
     then Inr ((user_from_record r)\<lparr>us_see_all := u_admin r \<and> ac_admin_sees_all a\<rparr>) else Inl not_authenticated, w)"
proof -
  let ?t = "create_token (cy_mac cy) (u_id r) (ac_max_age a) (ac_secret a) now"
  have "?t \<noteq> []" by (simp add: create_token_def token_message_def Let_def)
  moreover have "decode_token (cy_mac cy) ?t (ac_secret a) (w_clock w) =
      Inr (if w_clock w \<le> now + ac_max_age a then Some (u_id r) else None)"
    using assms(1,2) by (intro session_read) (simp_all add: lasting_def)
  ultimately show ?thesis
    using assms(4) user_lookup(1) [OF assms(3,5)]
    by (simp add: get_current_user_def get_user_by_id_def lift_result_def user_from_record_def)
qed


lemma decode_never_other: "decode_token mac t secret now = Inl e \<Longrightarrow> e = non_ascii"
  by (cases rule: decode_cases [of mac t secret now]) auto


section \<open>The first administrator\<close>

definition with_owner :: "uuid \<Rightarrow> uuid option \<Rightarrow> uuid option" where
  "with_owner k owner = (case owner of None \<Rightarrow> Some k | Some j \<Rightarrow> Some j)"

lemma update_none_owner:
  "sql_update (\<lambda>r. r_user_id r = None) (\<lambda>r. r\<lparr>r_user_id := Some k\<rparr>) rs = map (\<lambda>r. r\<lparr>r_user_id := with_owner k (r_user_id r)\<rparr>) rs"
  "sql_update (\<lambda>i. im_user_id i = None) (\<lambda>i. i\<lparr>im_user_id := Some k\<rparr>) is = map (\<lambda>i. i\<lparr>im_user_id := with_owner k (im_user_id i)\<rparr>) is"
  by (auto simp: sql_update_def with_owner_def split: option.split)

lemma set_owner_run:
  assumes "db_ok w" and "has_user w k"
  shows "set_owner_of_orphan_rows k w = (Inr (),
    w\<lparr>receipts_t := map (\<lambda>r. r\<lparr>r_user_id := with_owner k (r_user_id r)\<rparr>) (receipts_t w),
      images_t := map (\<lambda>i. i\<lparr>im_user_id := with_owner k (im_user_id i)\<rparr>) (images_t w)\<rparr>)"
proof -
  let ?v = "w\<lparr>receipts_t := map (\<lambda>r. r\<lparr>r_user_id := with_owner k (r_user_id r)\<rparr>) (receipts_t w)\<rparr>"
  have fits: "receipt_fits (r\<lparr>r_user_id := u\<rparr>) = receipt_fits r" for r u by (simp add: receipt_fits_def)
  have "list_all receipt_fits (receipts_t w)" using db_okD(9) [OF assms(1)] by (simp add: widths_ok_def)
  then have one: "update_receipts (\<lambda>r. r_user_id r = None) (\<lambda>r. r\<lparr>r_user_id := Some k\<rparr>) w = (Inr (map (\<lambda>r. r\<lparr>r_user_id := Some k\<rparr>)
      (filter (\<lambda>r. r_user_id r = None) (receipts_t w))), ?v)"
    using assms(2) by (auto simp: update_receipts_def Let_def list_ex_iff list_all_iff fits update_none_owner)
  have "has_receipt ?v = has_receipt w" "has_user ?v = has_user w" by (simp_all add: has_defs image_image)
  then have two: "update_images (\<lambda>i. im_user_id i = None) (\<lambda>i. i\<lparr>im_user_id := Some k\<rparr>) ?v = (Inr (map (\<lambda>i. i\<lparr>im_user_id := Some k\<rparr>)
      (filter (\<lambda>i. im_user_id i = None) (images_t w))),
      ?v\<lparr>images_t := map (\<lambda>i. i\<lparr>im_user_id := with_owner k (im_user_id i)\<rparr>) (images_t w)\<rparr>)"
    using assms(2) db_okD(4) [OF assms(1)]
    by (auto simp: update_images_def Let_def list_ex_iff image_refs_def update_none_owner)
  show ?thesis by (simp add: set_owner_of_orphan_rows_def seq_def bind_def one two)
qed

text \<open>
  Property C22: the first start opens one administrator and leaves no orphan. On a database without accounts
  and with a usable name and password in the environment, the bootstrap opens that one administrator,
  who can log in, and hands every receipt and image without owner to it; owned rows keep their
  owner. With an account in the database, or without a name or a password, it does nothing.
\<close>

theorem bootstrap_opens_one_admin:
  assumes "db_ok w" and "crypto_sound cy"
  shows "if users_t w \<noteq> [] \<or> \<not> given (ac_boot_username a) \<or> \<not> given (ac_boot_password a)
    then bootstrap_admin cy a w = (Inr (), w)
    else varchar 100 (the (ac_boot_username a)) \<longrightarrow> (\<exists>r w'. bootstrap_admin cy a w = (Inr (), w') \<and> db_ok w'
      \<and> users_t w' = [r] \<and> u_admin r \<and> u_username r = the (ac_boot_username a)
      \<and> verify_password cy (u_hash r) (the (ac_boot_password a)) a
      \<and> receipts_t w' = map (\<lambda>x. x\<lparr>r_user_id := with_owner (u_id r) (r_user_id x)\<rparr>) (receipts_t w)
      \<and> images_t w' = map (\<lambda>i. i\<lparr>im_user_id := with_owner (u_id r) (im_user_id i)\<rparr>) (images_t w))"
proof (cases "users_t w \<noteq> [] \<or> \<not> given (ac_boot_username a) \<or> \<not> given (ac_boot_password a)")
  case True
  then have "bootstrap_admin cy a w = (Inr (), w)" by (auto simp: bootstrap_admin_def count_users_def)
  with True show ?thesis by simp
next
  case False
  let ?r = "\<lparr>u_id = w_supply w (Suc (w_tick w)), u_username = the (ac_boot_username a),
    u_hash = cy_hash cy (w_tick w) (peppered cy a (the (ac_boot_password a))), u_admin = True\<rparr>"
  let ?v = "w\<lparr>w_tick := Suc (Suc (w_tick w)), users_t := [?r]\<rparr>"
  show ?thesis
  proof (cases "varchar 100 (the (ac_boot_username a))")
    case True
    have made: "bind (hash_password cy (the (ac_boot_password a)) a) (\<lambda>hashed.
        bind (create_user (the (ac_boot_username a)) hashed True) (\<lambda>u. ret (Some u))) w = (Inr (Some (user_from_record ?r)), ?v)"
      using True False
      by (simp add: hash_password_def create_user_def gen_uuid_def bind_def insert_user_def has_user_def)
    have "keeps db_ok (bind (hash_password cy (the (ac_boot_password a)) a) (\<lambda>hashed.
        bind (create_user (the (ac_boot_username a)) hashed True) (\<lambda>u. ret (Some u))))"
      by (intro keeps_intro)
    from keeps_run [OF this assms(1) made] have ok: "db_ok ?v" .
    have "has_user ?v (u_id ?r)" by (simp add: has_user_def)
    note owner = set_owner_run [OF ok this]
    have run: "bootstrap_admin cy a w = set_owner_of_orphan_rows (u_id ?r) ?v"
    proof -
      have "bootstrap_admin cy a w = bind (catch (bind (hash_password cy (the (ac_boot_password a)) a) (\<lambda>hashed.
               bind (create_user (the (ac_boot_username a)) hashed True) (\<lambda>u. ret (Some u))))
             (\<lambda>e. if e = UniqueViolation then ret None else raise e)) (\<lambda>admin. case admin of
           None \<Rightarrow> ret ()
         | Some u \<Rightarrow> set_owner_of_orphan_rows (us_id u)) w"
        using False by (simp add: bootstrap_admin_def count_users_def)
      also have "\<dots> = set_owner_of_orphan_rows (u_id ?r) ?v"
        unfolding bind_def [of "catch _ _"] catch_def made by (simp add: user_from_record_def)
      finally show ?thesis .
    qed
    have "bootstrap_admin cy a w = (Inr (), snd (bootstrap_admin cy a w))" using run owner by simp
    moreover have "db_ok (snd (bootstrap_admin cy a w))" using auth_ok(5) assms(1) by (rule keepsD)
    moreover have "verify_password cy (u_hash ?r) (the (ac_boot_password a)) a"
      using assms(2) by (simp add: verify_password_def crypto_sound_def)
    ultimately show ?thesis
      using False run owner by (intro if_not_P [THEN iffD2] impI exI [of _ ?r] exI [of _ "snd (bootstrap_admin cy a w)"]) simp_all
  next
    case False
    with \<open>\<not> (users_t w \<noteq> [] \<or> \<not> given (ac_boot_username a) \<or> \<not> given (ac_boot_password a))\<close> show ?thesis by simp
  qed
qed

section \<open>Samples\<close>

definition sample_crypto :: crypto where
  "sample_crypto = \<lparr>cy_mac = sample_mac, cy_hash = (\<lambda>n p. p), cy_verify = (\<lambda>h p. h = p)\<rparr>"

definition sample_auth :: auth_cfg where
  "sample_auth = \<lparr>ac_secret = ''s'', ac_cookie = ''vb_session'', ac_max_age = 60, ac_secure = False,
     ac_boot_username = Some ''root'', ac_boot_password = Some ''pw'', ac_allow_registration = True,
     ac_admin_sees_all = False, ac_pepper = None\<rparr>"

lemma sample_crypto_sound: "crypto_sound sample_crypto"
  using sample_mac_hex by (simp add: crypto_sound_def sample_crypto_def)


lemma bootstrap_opens_one_admin_witness:
  "\<exists>r w'. bootstrap_admin sample_crypto sample_auth fresh_world = (Inr (), w') \<and> users_t w' = [r] \<and> u_admin r
     \<and> u_username r = ''root''"
  using bootstrap_opens_one_admin [OF fresh_world_ok sample_crypto_sound, of sample_auth]
  by (auto simp: fresh_world_def sample_auth_def given_def varchar_def)

end
