(* ===== verification/ImageApi.thy ===== *)
theory ImageApi
  imports Scheduler Auth
begin

text \<open>
  api/images.py: uploading photos, with the synchronous analysis of a single one, the queue's routes,
  and serving and deleting the files. The router lets only authenticated users in; a handler
  here takes the user that \<open>get_current_user\<close> found (\<open>authed\<close> puts the two together).
\<close>

section \<open>The application's services\<close>

record app =
  ap_images :: image_cfg
  ap_provider :: provider
  ap_preferred :: string
  ap_bypass_default :: bool
  ap_attached :: bool
  ap_msg :: "exn \<Rightarrow> string"

definition app_scheduler :: "app \<Rightarrow> scheduler" where
  "app_scheduler ap = \<lparr>sc_preferred = ap_preferred ap, sc_provider = ap_provider ap, sc_images = Some (ap_images ap),
     sc_attached = ap_attached ap, sc_msg = ap_msg ap\<rparr>"

definition authed :: "crypto \<Rightarrow> auth_cfg \<Rightarrow> string option \<Rightarrow> (user \<Rightarrow> (world, 'a) py) \<Rightarrow> (world, 'a) py" where
  "authed cy a cookie route = bind (get_current_user cy a cookie) route"

definition require_db :: "(world, unit) py" where
  "require_db = bind (gets w_db_ready) (\<lambda>ready. guard ready (HTTPError 503 ''Database not available''))"

definition unprocessable :: exn where
  "unprocessable = HTTPError 422 ''Unprocessable Entity''"

section \<open>Uploading\<close>

record upload =
  up_content :: string
  up_filename :: "string option"

text \<open>
  The response; \<open>rp_detail\<close> is the warning of a queued upload or the detail of a failed analysis, and
  \<open>rp_wakes\<close> tells that the scheduler was triggered. The Location header is \<open>image_location\<close>.
\<close>

record upload_response =
  rp_code :: nat
  rp_image :: uuid
  rp_status :: string
  rp_receipt :: "uuid option"
  rp_detail :: "string option"
  rp_file :: "(string option \<times> string option \<times> int option \<times> string option) option"
  rp_wakes :: bool

definition image_location :: "uuid \<Rightarrow> string" where
  "image_location k = ''/api/v1/images/'' @ uuid_str k"

text \<open>The dash of the message is an en dash in the source; characters of HOL end at 255.\<close>

definition PENDING_QUEUE_WARNING :: string where
  "PENDING_QUEUE_WARNING = ''LLM provider not available - image queued for background analysis''"

definition MAX_PHOTO :: int where
  "MAX_PHOTO = 20 * 1024 * 1024"

definition store_part :: "image_cfg \<Rightarrow> upload \<Rightarrow> (world, image_part) py" where
  "store_part cfg up =
     seq (guard (int (length (up_content up)) \<le> MAX_PHOTO) (HTTPError 413 ''Each photo must be at most 20 MB''))
     (bind (catch (validate_and_inspect cfg (up_content up)) (\<lambda>e. case e of
         UnsupportedImageTypeError _ \<Rightarrow> raise (HTTPError 415 ''Unsupported image type'') | _ \<Rightarrow> raise e)) (\<lambda>info.
      bind (store_tmp_image cfg (up_content up)) (\<lambda>path.
      bind (generate_thumbnail cfg path) (\<lambda>thumb.
        ret \<lparr>part_path = path, part_thumb = thumb, part_filename = up_filename up, part_media = Some (fst info),
          part_size = Some (snd info)\<rparr>))))"

text \<open>The photos stored so far, together with the exception that ended the loop, if one did.\<close>

fun store_parts :: "image_cfg \<Rightarrow> upload list \<Rightarrow> image_part list \<Rightarrow> (world, image_part list \<times> exn option) py" where
  "store_parts cfg [] parts = ret (parts, None)"
| "store_parts cfg (up # ups) parts =
     bind (attempt (store_part cfg up)) (\<lambda>r. case r of
       Inl e \<Rightarrow> ret (parts, Some e)
     | Inr p \<Rightarrow> store_parts cfg ups (parts @ [p]))"

definition delete_parts :: "image_part list \<Rightarrow> (world, unit) py" where
  "delete_parts parts = for_each parts (\<lambda>p. bind (delete_image (Some (part_path p))) (\<lambda>_. ret ()))"

definition store_photos :: "image_cfg \<Rightarrow> upload list \<Rightarrow> (world, image_part list) py" where
  "store_photos cfg ups = bind (store_parts cfg ups []) (\<lambda>(parts, err). case err of
     None \<Rightarrow> ret parts
   | Some e \<Rightarrow> seq (delete_parts parts) (raise e))"

text \<open>\<open>asyncio.timeout(5)\<close> covers both questions to the provider; whatever goes wrong, there is no model.\<close>

definition discover_models :: "provider \<Rightarrow> (world, model_info list) py" where
  "discover_models prov w =
     (let late = (Inr [], w\<lparr>w_clock := w_clock w + 5\<rparr>) in
      case p_alive prov w of (alive, d) \<Rightarrow>
        if 5 \<le> d then late
        else (let v = w\<lparr>w_clock := w_clock w + int d\<rparr> in
          case alive of
            Inl e \<Rightarrow> (Inr [], v)
          | Inr False \<Rightarrow> (Inr [], v)
          | Inr True \<Rightarrow> (case p_models prov v of (models, d') \<Rightarrow>
              if 5 \<le> d + d' then late
              else (case models of Inl e \<Rightarrow> Inr [] | Inr ms \<Rightarrow> Inr ms, v\<lparr>w_clock := w_clock v + int d'\<rparr>))))"

definition upload_model :: "string \<Rightarrow> string option \<Rightarrow> model_info list \<Rightarrow> string" where
  "upload_model preferred wish models = (case wish of
     Some m \<Rightarrow> if m \<noteq> [] \<and> m \<in> mi_id ` set models then m else select_model preferred models
   | None \<Rightarrow> select_model preferred models)"

definition queued :: "uuid \<Rightarrow> string option \<Rightarrow> bool \<Rightarrow> upload_response" where
  "queued k warning wakes = \<lparr>rp_code = 202, rp_image = k, rp_status = ''pending'', rp_receipt = None, rp_detail = warning,
     rp_file = None, rp_wakes = wakes\<rparr>"

definition ended :: "nat \<Rightarrow> uuid \<Rightarrow> string \<Rightarrow> string \<Rightarrow> upload_response" where
  "ended code k status err = \<lparr>rp_code = code, rp_image = k, rp_status = status, rp_receipt = None, rp_detail = Some err,
     rp_file = None, rp_wakes = False\<rparr>"

definition analysed :: "image_row \<Rightarrow> image_part \<Rightarrow> uuid \<Rightarrow> upload_response" where
  "analysed img first receipt_id = \<lparr>rp_code = 201, rp_image = im_id img, rp_status = ''analyzed'', rp_receipt = Some receipt_id,
     rp_detail = None, rp_file = Some (im_filename img, part_media first, part_size first, im_path img), rp_wakes = False\<rparr>"

definition move_upload :: "app \<Rightarrow> uuid \<Rightarrow> string \<Rightarrow> uuid \<Rightarrow> (world, unit) py" where
  "move_upload ap k tmp receipt_id =
     bind (store_perm_image (ap_images ap) tmp receipt_id) (\<lambda>m.
     seq (case fst m of None \<Rightarrow> ret () | Some p \<Rightarrow> update_image_path k p)
       (case snd m of None \<Rightarrow> ret () | Some t \<Rightarrow> update_image_thumbnail_path k t))"

definition persist_upload :: "app \<Rightarrow> user \<Rightarrow> bool \<Rightarrow> image_row \<Rightarrow> string \<Rightarrow> receipt \<Rightarrow> (world, uuid) py" where
  "persist_upload ap u bypass img tmp receipt =
     (if bypass
      then bind (service_persist_receipt (ap_attached ap) receipt (Some (im_id img)) Verified True (Some (us_id u))) (\<lambda>row.
        seq (mark_analyzed (im_id img) (r_id row))
        (seq (catch (move_upload ap (im_id img) tmp (r_id row)) (\<lambda>_. ret ()))
          (ret (r_id row))))
      else bind (service_persist_receipt (ap_attached ap) receipt (Some (im_id img)) Unverified False (Some (us_id u))) (\<lambda>row.
        seq (mark_analyzed (im_id img) (r_id row)) (ret (r_id row))))"

definition upload_failed :: "app \<Rightarrow> uuid \<Rightarrow> exn \<Rightarrow> (world, upload_response) py" where
  "upload_failed ap k e = (case e of
     AnalysisTimeoutError s \<Rightarrow> seq (mark_terminal k ''timed_out'' s) (ret (ended 504 k ''timed_out'' s))
   | UnreadableReceiptError s \<Rightarrow> seq (mark_terminal k ''unreadable'' s) (ret (ended 422 k ''unreadable'' s))
   | _ \<Rightarrow> seq (mark_failed k (exn_text (ap_msg ap) e)) (raise e))"

definition analyse_upload ::
  "app \<Rightarrow> user \<Rightarrow> bool \<Rightarrow> string \<Rightarrow> image_part \<Rightarrow> image_row \<Rightarrow> (world, upload_response) py" where
  "analyse_upload ap u bypass model first img =
     bind (attempt (analyse_receipt_from_path (ap_provider ap) model [part_path first])) (\<lambda>answer. case answer of
       Inl e \<Rightarrow> upload_failed ap (im_id img) e
     | Inr receipt \<Rightarrow> bind (persist_upload ap u bypass img (part_path first) receipt) (\<lambda>k.
         ret (analysed img first k)))"

definition store_upload :: "user \<Rightarrow> bool \<Rightarrow> string option \<Rightarrow> image_part list \<Rightarrow> (world, image_row) py" where
  "store_upload u bypass model_id parts =
     (let first = hd parts in
      catch (store_image (part_path first) (part_filename first) (part_media first) (part_size first) Pending
          (Some (us_id u)) bypass (part_thumb first) (tl parts) model_id)
        (\<lambda>e. seq (delete_parts parts) (raise e)))"

definition upload_image ::
  "app \<Rightarrow> user \<Rightarrow> upload list \<Rightarrow> string option \<Rightarrow> bool option \<Rightarrow> (world, upload_response) py" where
  "upload_image ap u ups model_id bypass_review =
     seq require_db
     (let bypass = (case bypass_review of None \<Rightarrow> ap_bypass_default ap | Some b \<Rightarrow> b) in
      seq (guard (1 \<le> length ups \<and> length ups \<le> 10) (HTTPError 422 ''Upload between 1 and 10 photos of one receipt''))
      (bind (store_photos (ap_images ap) ups) (\<lambda>parts.
       bind (if length parts = 1 then discover_models (ap_provider ap) else ret []) (\<lambda>models.
       bind (store_upload u bypass model_id parts) (\<lambda>img.
        if 1 < length parts then ret (queued (im_id img) None True)
        else if models = [] then ret (queued (im_id img) (Some PENDING_QUEUE_WARNING) False)
        else bind (claim_for_analysis (im_id img)) (\<lambda>claimed. case claimed of
          None \<Rightarrow> ret (queued (im_id img) (Some PENDING_QUEUE_WARNING) False)
        | Some img \<Rightarrow> analyse_upload ap u bypass (upload_model (ap_preferred ap) model_id models) (hd parts) img))))))"

section \<open>The other routes\<close>

text \<open>A comma-separated filter: the nonblank parts, stripped; an empty text is no filter.\<close>

definition status_filter :: "string option \<Rightarrow> string list option" where
  "status_filter status = (case status of
     None \<Rightarrow> None
   | Some s \<Rightarrow> if s = [] then None else Some (filter (\<lambda>t. t \<noteq> []) (map py_strip (split_on (CHR '','') s))))"

definition list_images_route :: "user \<Rightarrow> string option \<Rightarrow> nat \<Rightarrow> nat \<Rightarrow> (world, image_row list) py" where
  "list_images_route u status page start =
     seq (guard (1 \<le> page \<and> page \<le> 500) unprocessable)
     (seq require_db (list_images (status_filter status) page start (Some (us_id u)) (us_see_all u)))"

definition analyze_pending :: "app \<Rightarrow> (world, pending_result list) py" where
  "analyze_pending ap = seq require_db (process_pending (app_scheduler ap))"

definition not_found :: "string \<Rightarrow> exn" where
  "not_found what = HTTPError 404 (what @ '' not found'')"

definition get_image :: "user \<Rightarrow> uuid \<Rightarrow> (world, image_row) py" where
  "get_image u k = seq require_db (bind (get_image_by_id k (Some (us_id u)) (us_see_all u)) (\<lambda>img. case img of
     None \<Rightarrow> raise (not_found ''Image'') | Some i \<Rightarrow> ret i))"

text \<open>A file response: the path and the media type.\<close>

definition get_image_file :: "user \<Rightarrow> uuid \<Rightarrow> nat \<Rightarrow> (world, string \<times> string) py" where
  "get_image_file u k part =
     seq require_db (bind (get_image_by_id k (Some (us_id u)) (us_see_all u)) (\<lambda>img. case img of
       None \<Rightarrow> raise (not_found ''Image file'')
     | Some i \<Rightarrow>
        if im_path i = None \<or> im_path i = Some [] then raise (not_found ''Image file'')
        else if length (image_parts i) \<le> part then raise (not_found ''Image part'')
        else (let source = image_parts i ! part in
          bind (gets (file_exists (part_path source))) (\<lambda>there.
            if \<not> there then raise (not_found ''Image file'')
            else ret (part_path source, case part_media source of None \<Rightarrow> ''application/octet-stream''
              | Some m \<Rightarrow> if m = [] then ''application/octet-stream'' else m)))))"

definition get_image_thumb :: "user \<Rightarrow> uuid \<Rightarrow> (world, string \<times> string) py" where
  "get_image_thumb u k =
     seq require_db (bind (get_image_by_id k (Some (us_id u)) (us_see_all u)) (\<lambda>img.
       case Option.bind img im_thumb of
         None \<Rightarrow> raise (not_found ''Image thumbnail'')
       | Some p \<Rightarrow> if p = [] then raise (not_found ''Image thumbnail'')
           else bind (gets (file_exists p)) (\<lambda>there.
             if there then ret (p, ''image/webp'') else raise (not_found ''Image thumbnail''))))"

definition delete_files :: "image_part list \<Rightarrow> (world, unit) py" where
  "delete_files parts = for_each parts (\<lambda>p. if part_path p = [] then ret ()
     else bind (delete_image (Some (part_path p))) (\<lambda>_. ret ()))"

definition deletable :: "image_status \<Rightarrow> bool" where
  "deletable st \<longleftrightarrow> image_status_name st \<in> {''pending'', ''failed'', ''timed_out'', ''unreadable''}"

definition delete_image_route :: "user \<Rightarrow> uuid \<Rightarrow> (world, uuid) py" where
  "delete_image_route u k =
     seq require_db (bind (get_image_by_id k (Some (us_id u)) (us_see_all u)) (\<lambda>img. case img of
       None \<Rightarrow> raise (not_found ''Image'')
     | Some i \<Rightarrow>
        if \<not> deletable (im_status i) then raise (HTTPError 409 ''Cannot delete an active or analyzed submission'')
        else seq (delete_image_row k) (seq (delete_files (image_parts i)) (ret k))))"

section \<open>A sample application and caller\<close>

definition sample_app :: app where
  "sample_app = \<lparr>ap_images = sample_cfg\<lparr>ic_tmp := ''/tmp''\<rparr>, ap_provider = stuck_provider, ap_preferred = ''m'',
     ap_bypass_default = False, ap_attached = True, ap_msg = (\<lambda>_. [])\<rparr>"

definition ann :: user where
  "ann = \<lparr>us_id = 1, us_username = ''ann'', us_admin = False, us_see_all = False\<rparr>"

end
