(* ===== verification/ReceiptApi.thy ===== *)
theory ReceiptApi
  imports ImageApi Search
begin

text \<open>
  api/receipts.py: listing, reading, editing, verifying and deleting receipts. As in ImageApi a
  handler takes the user its router's dependency found; what it adds to the service is the order of
  its checks, the moving and deleting of the photo files and the status codes.
\<close>

section \<open>Handlers\<close>

text \<open>The collection service exists exactly when the database was there at the start.\<close>

definition get_collection_service :: "app \<Rightarrow> (world, unit) py" where
  "get_collection_service ap = guard (ap_attached ap) (HTTPError 503 ''Database is unavailable'')"

text \<open>PUT body: the receipt, with the parts of LineItemUpdate in its items, and the memberships to set.\<close>

record receipt_update =
  ru_receipt :: receipt
  ru_collection_ids :: "uuid list option"

definition list_receipts_route ::
  "user \<Rightarrow> nat \<Rightarrow> nat \<Rightarrow> string option \<Rightarrow> date option \<Rightarrow> date option \<Rightarrow> string option \<Rightarrow> uuid option
   \<Rightarrow> (world, (receipt_row \<times> string option) list) py" where
  "list_receipts_route u page start status date_from date_to search collection_id =
     seq (guard (1 \<le> page \<and> page \<le> 500) unprocessable)
     (seq require_db
       (list_receipts page start \<lparr>lf_status = status_filter status, lf_from = date_from, lf_to = date_to,
          lf_search = search, lf_collection = collection_id\<rparr> (Some (us_id u)) (us_see_all u)))"

definition get_receipt_route :: "user \<Rightarrow> uuid \<Rightarrow> (world, receipt_details) py" where
  "get_receipt_route u k =
     seq require_db (bind (get_receipt_with_details k (Some (us_id u)) (us_see_all u)) (\<lambda>d. case d of
       None \<Rightarrow> raise (not_found ''Receipt'') | Some d \<Rightarrow> ret d))"

definition update_receipt_route :: "app \<Rightarrow> user \<Rightarrow> uuid \<Rightarrow> receipt_update \<Rightarrow> (world, receipt_row) py" where
  "update_receipt_route ap u k body =
     seq (get_collection_service ap)
     (seq require_db
     (bind (catch (update_receipt k (ru_receipt body) (Some (us_id u)) (us_see_all u))
        (\<lambda>e. case e of ValueError s \<Rightarrow> raise (HTTPError 422 s) | _ \<Rightarrow> raise e)) (\<lambda>row. case row of
       None \<Rightarrow> raise (not_found ''Receipt'')
     | Some row \<Rightarrow>
        seq (case ru_collection_ids body of
            None \<Rightarrow> ret ()
          | Some ids \<Rightarrow> catch (set_receipt_collections k ids (Some (us_id u)) (us_see_all u))
              (\<lambda>e. case e of NotFoundError _ \<Rightarrow> raise (not_found ''Collection'') | _ \<Rightarrow> raise e))
          (ret row))))"

text \<open>The photo of a receipt that is verified goes to its permanent place, the further photos after it.\<close>

definition move_receipt_photos :: "app \<Rightarrow> user \<Rightarrow> receipt_row \<Rightarrow> (world, unit) py" where
  "move_receipt_photos ap u row = (case r_image_id row of
     None \<Rightarrow> ret ()
   | Some i \<Rightarrow> bind (get_image_by_id i (Some (us_id u)) (us_see_all u)) (\<lambda>img. case img of
       None \<Rightarrow> ret ()
     | Some im \<Rightarrow> (case im_path im of
         None \<Rightarrow> ret ()
       | Some p \<Rightarrow> if p = [] then ret ()
           else seq (move_upload ap i p (r_id row))
             (if im_additional im = [] then ret ()
              else move_additional_images (ap_images ap) im (r_id row)))))"

definition verify_receipt_route :: "app \<Rightarrow> user \<Rightarrow> uuid \<Rightarrow> (world, receipt_row) py" where
  "verify_receipt_route ap u k =
     seq require_db (bind (get_receipt_by_id k (Some (us_id u)) (us_see_all u)) (\<lambda>row. case row of
       None \<Rightarrow> raise (not_found ''Receipt'')
     | Some row \<Rightarrow>
        seq (guard (r_status row \<noteq> Verified) (HTTPError 409 ''Receipt already verified''))
        (seq (move_receipt_photos ap u row)
        (bind (verify_receipt k (Some (us_id u)) (us_see_all u)) (\<lambda>verified. case verified of
           None \<Rightarrow> raise (not_found ''Receipt'') | Some v \<Rightarrow> ret v)))))"

definition delete_photos :: "user \<Rightarrow> receipt_row \<Rightarrow> (world, unit) py" where
  "delete_photos u row = (case r_image_id row of
     None \<Rightarrow> ret ()
   | Some i \<Rightarrow> bind (get_image_by_id i (Some (us_id u)) (us_see_all u)) (\<lambda>img. case img of
       None \<Rightarrow> ret ()
     | Some im \<Rightarrow> seq (delete_image_row (im_id im)) (delete_files (image_parts im))))"

definition delete_receipt_route :: "user \<Rightarrow> uuid \<Rightarrow> (world, uuid) py" where
  "delete_receipt_route u k =
     seq require_db
     (bind (catch (service_delete_receipt k (Some (us_id u)) (us_see_all u)) (\<lambda>e. case e of
         ReceiptReferencedError \<Rightarrow> raise (HTTPError 409 ''Receipt is referenced by a benchmark run and cannot be deleted'')
       | _ \<Rightarrow> raise e)) (\<lambda>row. case row of
       None \<Rightarrow> raise (not_found ''Receipt'')
     | Some row \<Rightarrow> seq (delete_photos u row) (ret k)))"

section \<open>Integrity\<close>

lemma delete_files_files: "only_files (delete_files ps)"
  unfolding delete_files_def by (induction ps; simp only: for_each.simps; intro only_files_intro)

lemma delete_files_ok [keeps_intro]: "keeps db_ok (delete_files ps)"
  by (rule only_files_keeps delete_files_files)+

lemma move_upload_ok [keeps_intro]: "keeps db_ok (move_upload ap k p r)"
  unfolding move_upload_def by (intro keeps_intro)

lemma receipt_routes_ok [keeps_intro]:
  "keeps db_ok (list_receipts_route u a b c d e f g)" "keeps db_ok (get_receipt_route u k)"
  "keeps db_ok (update_receipt_route ap u k body)" "keeps db_ok (verify_receipt_route ap u k)"
  "keeps db_ok (delete_receipt_route u k)"
proof -
  have h: "keeps db_ok (case e of ValueError s \<Rightarrow> raise (HTTPError 422 s) | _ \<Rightarrow> raise e)"
    "keeps db_ok (case e of NotFoundError _ \<Rightarrow> raise (not_found n) | _ \<Rightarrow> raise e)"
    "keeps db_ok (case e of ReceiptReferencedError \<Rightarrow> raise (HTTPError 409 m) | _ \<Rightarrow> raise e)" for e n m
    by (cases e; simp add: keeps_intro)+
  have r: "keeps db_ok require_db" "keeps db_ok (get_collection_service ap)"
    unfolding require_db_def get_collection_service_def by (intro keeps_intro)+
  show "keeps db_ok (list_receipts_route u a b c d e f g)"
    unfolding list_receipts_route_def list_receipts_def by (intro keeps_intro r)
  show "keeps db_ok (get_receipt_route u k)" unfolding get_receipt_route_def by (intro keeps_intro r)
  show "keeps db_ok (update_receipt_route ap u k body)"
    unfolding update_receipt_route_def by (intro keeps_intro r h)
  show "keeps db_ok (verify_receipt_route ap u k)"
    unfolding verify_receipt_route_def move_receipt_photos_def by (intro keeps_intro r)
  show "keeps db_ok (delete_receipt_route u k)"
    unfolding delete_receipt_route_def delete_photos_def by (intro keeps_intro r h)
qed

section \<open>Other people's receipts\<close>

lemma require_db_run [simp]: "w_db_ready w \<Longrightarrow> require_db w = (Inr (), w)"
  by (simp add: require_db_def)

lemma update_absent:
  assumes "get_receipt_by_id k u see w = (Inr None, w)"
  shows "update_receipt k rc u see w \<in> {(Inr None, w)} \<union> range (\<lambda>e. (Inl e, w))"
proof (cases "receipt_time_value rc")
  case (Inl e)
  then show ?thesis by (simp add: update_receipt_def lift_result_def)
next
  case (Inr t)
  have "\<not> sql_exists (own_receipt k u see) (receipts_t w)"
    using assms unfolding get_receipt_cases(1) by (simp add: sql_exists_iff)
  then have "update_receipt_row k rc t u see w = (Inr None, w)" by (simp add: update_receipt_row_def)
  then show ?thesis using Inr by (simp add: update_receipt_def lift_result_def transaction_def)
qed

text \<open>
  Property C7: the id of somebody else's receipt is an id that does not exist. For an ordinary caller
  reading, verifying and deleting it answer 404, editing it answers an error, and neither a table
  nor a file changes.
\<close>

theorem foreign_receipt_untouchable:
  assumes "db_ok w" and "w_db_ready w" and "ap_attached ap" and "r \<in> set (receipts_t w)"
    and "r_user_id r \<noteq> Some (us_id u)" and "\<not> us_see_all u"
  shows "get_receipt_route u (r_id r) w = (Inl (not_found ''Receipt''), w)
    \<and> verify_receipt_route ap u (r_id r) w = (Inl (not_found ''Receipt''), w)
    \<and> delete_receipt_route u (r_id r) w = (Inl (not_found ''Receipt''), w)
    \<and> (\<exists>e. update_receipt_route ap u (r_id r) body w = (Inl e, w))"
proof -
  note scope = receipt_ids_distinct [OF assms(1)] assms(4) refl assms(5)
  have absent: "get_receipt_by_id (r_id r) (Some (us_id u)) False w = (Inr None, w)"
    by (rule receipt_scope.foreign_is_absent [OF scope])
  have del: "service_delete_receipt (r_id r) (Some (us_id u)) False w = (Inr None, w)"
    by (simp add: service_delete_receipt_def catch_def receipt_delete.foreign_write_is_noop [OF scope])
  have upd: "update_receipt (r_id r) rc (Some (us_id u)) False w \<in> {(Inr None, w)} \<union> range (\<lambda>e. (Inl e, w))" for rc
    using absent update_absent by blast
  show ?thesis
    using assms(2,3,6) absent del upd [of "ru_receipt body"]
    by (auto simp: get_receipt_route_def verify_receipt_route_def delete_receipt_route_def update_receipt_route_def
        get_receipt_with_details_def get_collection_service_def seq_def catch_def bind_def split: exn.splits)
qed

section \<open>Deleting takes the photos along\<close>

lemma delete_image_step:
  "\<exists>f. delete_image (Some p) w = (Inr (file_exists p w), w\<lparr>w_files := f\<rparr>) \<and> (\<forall>q. f q = None \<or> f q = w_files w q) \<and> f p = None"
proof (cases "file_exists p w")
  case False
  then show ?thesis by (intro exI [of _ "w_files w"]) (simp add: delete_image_def file_exists_def)
next
  case there: True
  show ?thesis
  proof (cases "file_exists (thumb_for p) (w\<lparr>w_files := (w_files w)(p := None)\<rparr>)")
    case True
    then show ?thesis using there
      by (intro exI [of _ "(w_files w)(p := None, thumb_for p := None)"])
        (simp add: delete_image_def unlink_def seq_def bind_def)
  next
    case False
    then show ?thesis using there
      by (intro exI [of _ "(w_files w)(p := None)"]) (simp add: delete_image_def unlink_def seq_def bind_def)
  qed
qed

lemma delete_files_run:
  "\<exists>f. delete_files ps w = (Inr (), w\<lparr>w_files := f\<rparr>) \<and> (\<forall>q. f q = None \<or> f q = w_files w q)
     \<and> (\<forall>p \<in> set ps. part_path p \<noteq> [] \<longrightarrow> f (part_path p) = None)"
proof (induction ps arbitrary: w)
  case Nil
  show ?case by (intro exI [of _ "w_files w"]) (simp add: delete_files_def)
next
  case (Cons p ps)
  show ?case
  proof (cases "part_path p = []")
    case True
    then show ?thesis using Cons.IH [of w] by (simp add: delete_files_def)
  next
    case False
    obtain f where f: "delete_image (Some (part_path p)) w = (Inr (file_exists (part_path p) w), w\<lparr>w_files := f\<rparr>)"
      "\<forall>q. f q = None \<or> f q = w_files w q" "f (part_path p) = None" using delete_image_step by blast
    obtain g where g: "delete_files ps (w\<lparr>w_files := f\<rparr>) = (Inr (), w\<lparr>w_files := f, w_files := g\<rparr>)"
      "\<forall>q. g q = None \<or> g q = f q" "\<forall>p \<in> set ps. part_path p \<noteq> [] \<longrightarrow> g (part_path p) = None"
      using Cons.IH [of "w\<lparr>w_files := f\<rparr>"] by auto
    have "delete_files (p # ps) w = (Inr (), w\<lparr>w_files := g\<rparr>)"
      using False f(1) g(1) by (simp add: delete_files_def seq_def bind_def)
    then show ?thesis using f(2,3) g(2,3) by (metis set_ConsD)
  qed
qed

lemma delete_photos_run:
  assumes "db_ok w" and "r_image_id x = Some i" and "im \<in> set (images_t w)" and "im_id im = i"
    and "visible (Some (us_id u)) (us_see_all u) (im_user_id im)"
  shows "\<exists>f. delete_photos u x w = (Inr (), w\<lparr>images_t := filter (\<lambda>j. im_id j \<noteq> i) (images_t w),
        receipts_t := clear_image_links (\<lambda>j. j = i) (receipts_t w), w_files := f\<rparr>)
     \<and> (\<forall>p \<in> set (image_parts im). part_path p \<noteq> [] \<longrightarrow> f (part_path p) = None)"
proof -
  have found: "get_image_by_id i (Some (us_id u)) (us_see_all u) w = (Inr (Some im), w)"
    using image_scope.own_is_found [OF image_ids_distinct [OF assms(1)] assms(3,5)] assms(4) by simp
  have dead: "filter (\<lambda>j. im_id j = i) (images_t w) = [im]"
    using filter_by_key [OF image_ids_distinct [OF assms(1)] assms(3)] assms(4) by simp
  let ?v = "w\<lparr>images_t := filter (\<lambda>j. im_id j \<noteq> i) (images_t w), receipts_t := clear_image_links (\<lambda>j. j = i) (receipts_t w)\<rparr>"
  have row: "delete_image_row (im_id im) w = (Inr (), ?v)"
    by (simp add: delete_image_row_def delete_images_def bind_def dead assms(4) sql_delete_def)
  obtain f where "delete_files (image_parts im) ?v = (Inr (), ?v\<lparr>w_files := f\<rparr>)"
    "\<forall>p \<in> set (image_parts im). part_path p \<noteq> [] \<longrightarrow> f (part_path p) = None"
    using delete_files_run [of "image_parts im" ?v] by auto
  then show ?thesis
    using found row by (intro exI [of _ f]) (simp add: delete_photos_def assms(2) bind_def seq_def)
qed

text \<open>The photos of a receipt that is already deleted: its row, and every file, goes.\<close>

lemma delete_photos_gone:
  assumes "db_ok w"
  obtains v where "delete_photos u x w = (Inr (), v)"
    "map r_id (receipts_t v) = map r_id (receipts_t w)" "items_t v = items_t w" "taxes_t v = taxes_t w" "links_t v = links_t w"
    "\<forall>im \<in> set (images_t w). r_image_id x = Some (im_id im)
       \<and> visible (Some (us_id u)) (us_see_all u) (im_user_id im) \<longrightarrow>
       im_id im \<notin> im_id ` set (images_t v) \<and> (\<forall>p \<in> set (image_parts im). part_path p \<noteq> [] \<longrightarrow> \<not> file_exists (part_path p) v)"
proof (cases "\<exists>im \<in> set (images_t w). r_image_id x = Some (im_id im) \<and> visible (Some (us_id u)) (us_see_all u) (im_user_id im)")
  case True
  then obtain im where im: "im \<in> set (images_t w)" "r_image_id x = Some (im_id im)"
    "visible (Some (us_id u)) (us_see_all u) (im_user_id im)" by blast
  obtain f where f: "delete_photos u x w = (Inr (), w\<lparr>images_t := filter (\<lambda>j. im_id j \<noteq> im_id im) (images_t w),
      receipts_t := clear_image_links (\<lambda>j. j = im_id im) (receipts_t w), w_files := f\<rparr>)"
    "\<forall>p \<in> set (image_parts im). part_path p \<noteq> [] \<longrightarrow> f (part_path p) = None"
    using delete_photos_run [OF assms im(2,1) refl im(3)] by blast
  show ?thesis
    by (rule that [OF f(1)])
      (use f(2) im(1,2) image_unique [OF assms im(1)] in
        \<open>auto simp: clear_image_links_def map_sql_update file_exists_def\<close>)
next
  case False
  then have "get_image_by_id i (Some (us_id u)) (us_see_all u) w = (Inr None, w)" if "r_image_id x = Some i" for i
    using that by (auto simp: get_image_by_id_def fetchrow_filter_None)
  then have "delete_photos u x w = (Inr (), w)" by (auto simp: delete_photos_def bind_def split: option.splits)
  then show ?thesis by (rule that) (use False in auto)
qed

lemma without_receipt_image:
  assumes "im \<in> set (images_t w)"
  obtains im' where "im' \<in> set (images_t (without_receipt k w))" "im_id im' = im_id im" "im_user_id im' = im_user_id im"
    "image_parts im' = image_parts im"
proof -
  let ?im = "if ref_opt (\<lambda>j. j \<noteq> k) (im_receipt_id im) then im else im\<lparr>im_receipt_id := None\<rparr>"
  have "?im \<in> set (images_t (without_receipt k w))"
    using assms by (auto simp: without_receipt_def clear_receipt_links_def sql_update_def)
  then show ?thesis by (rule that) (simp_all add: image_parts_def)
qed


section \<open>Verifying moves the photos\<close>

text \<open>\<open>moves m\<close>: on an intact database \<open>m\<close> succeeds and writes only images and files.\<close>

definition moves :: "(world, 'a) py \<Rightarrow> bool" where
  "moves m \<longleftrightarrow> (\<forall>w. db_ok w \<longrightarrow>
     (\<exists>x im f n. m w = (Inr x, w\<lparr>images_t := im, w_files := f, w_tick := n\<rparr>) \<and> db_ok (snd (m w))))"

lemma moves_bind: "moves m \<Longrightarrow> (\<And>x. moves (f x)) \<Longrightarrow> moves (bind m f)"
  unfolding moves_def
proof (intro allI impI)
  fix w
  assume m: "\<forall>w. db_ok w \<longrightarrow> (\<exists>x im f n. m w = (Inr x, w\<lparr>images_t := im, w_files := f, w_tick := n\<rparr>) \<and> db_ok (snd (m w)))"
    and f: "\<And>x. \<forall>w. db_ok w \<longrightarrow>
      (\<exists>y im g n. f x w = (Inr y, w\<lparr>images_t := im, w_files := g, w_tick := n\<rparr>) \<and> db_ok (snd (f x w)))"
    and w: "db_ok w"
  obtain x im g n where a: "m w = (Inr x, w\<lparr>images_t := im, w_files := g, w_tick := n\<rparr>)"
    "db_ok (w\<lparr>images_t := im, w_files := g, w_tick := n\<rparr>)" using m w by (metis snd_conv)
  obtain y jm h k where b: "f x (w\<lparr>images_t := im, w_files := g, w_tick := n\<rparr>) = (Inr y, w\<lparr>images_t := jm, w_files := h, w_tick := k\<rparr>)"
    "db_ok (w\<lparr>images_t := jm, w_files := h, w_tick := k\<rparr>)" using f [of x] a(2) by fastforce
  show "\<exists>y im g n. bind m f w = (Inr y, w\<lparr>images_t := im, w_files := g, w_tick := n\<rparr>) \<and> db_ok (snd (bind m f w))"
    using a b by auto
qed

lemma moves_seq: "moves m \<Longrightarrow> moves n \<Longrightarrow> moves (seq m n)"
  by (simp add: seq_def moves_bind)

lemma moves_ret: "moves (ret x)"
  unfolding moves_def
proof (intro allI impI)
  fix w :: world assume "db_ok w"
  then show "\<exists>y im f n. ret x w = (Inr y, w\<lparr>images_t := im, w_files := f, w_tick := n\<rparr>) \<and> db_ok (snd (ret x w))"
    by (intro exI [of _ x] exI [of _ "images_t w"] exI [of _ "w_files w"] exI [of _ "w_tick w"]) simp
qed

lemma on_image_total:
  assumes "db_ok w" and "\<And>j. im_user_id (f j) = im_user_id j" and "\<And>j. im_receipt_id (f j) = im_receipt_id j"
  shows "on_image k f w = (Inr (), w\<lparr>images_t := sql_update (\<lambda>j. im_id j = k) f (images_t w)\<rparr>)"
  using db_okD(4) [OF assms(1)]
  by (auto simp: on_image_def update_images_def bind_def Let_def list_ex_iff assms(2,3) image_refs_def)

lemma moves_paths:
  "moves (update_image_path k p)" "moves (update_image_thumbnail_path k p)" "moves (update_additional_images k ps)"
proof -
  have m: "moves (on_image k f)" if "\<And>j. im_user_id (f j) = im_user_id j" "\<And>j. im_receipt_id (f j) = im_receipt_id j"
    "\<And>j. im_id (f j) = im_id j" for f
    unfolding moves_def
  proof (intro allI impI)
    fix w assume w: "db_ok w"
    have "db_ok (snd (on_image k f w))" by (rule keepsD [OF on_image_ok w]) (rule that(3))
    then show "\<exists>x im g n. on_image k f w = (Inr x, w\<lparr>images_t := im, w_files := g, w_tick := n\<rparr>) \<and> db_ok (snd (on_image k f w))"
      using on_image_total [OF w that(1,2)]
      by (auto intro!: exI [of _ "sql_update _ _ _"] exI [of _ "w_files w"] exI [of _ "w_tick w"])
  qed
  show "moves (update_image_path k p)" "moves (update_image_thumbnail_path k p)" "moves (update_additional_images k ps)"
    unfolding update_image_path_def update_image_thumbnail_path_def update_additional_images_def by (simp_all add: m)
qed

lemma store_perm_total: "\<exists>x f n. store_perm_image cfg p r w = (Inr x, w\<lparr>w_files := f, w_tick := n\<rparr>)"
proof -
  obtain dest n where d: "perm_path cfg p r w = (Inr dest, w\<lparr>w_tick := n\<rparr>)"
    using perm_path_run [of cfg p r w] by metis
  let ?w1 = "w\<lparr>w_tick := n, w_files := (w_files w)(p := None, dest := w_files w p)\<rparr>"
  consider (gone) "\<not> file_exists p w" | (alone) "file_exists p w" "\<not> file_exists (thumb_for p) ?w1"
    | (both) "file_exists p w" "file_exists (thumb_for p) ?w1" by blast
  then show ?thesis
  proof cases
    case gone
    then show ?thesis by (intro exI [of _ "(None, None)"] exI [of _ "w_files w"] exI [of _ "w_tick w"])
        (simp add: store_perm_image_def)
  next
    case alone
    then show ?thesis using d
      by (intro exI [of _ "(Some dest, None)"] exI [of _ "w_files ?w1"] exI [of _ n]) (simp add: store_perm_image_def move_file_def)
  next
    case both
    then show ?thesis using d
      by (intro exI [of _ "(Some dest, Some (thumb_for dest))"] exI [of _ "(w_files ?w1)(thumb_for p := None, thumb_for dest := w_files ?w1 (thumb_for p))"]
          exI [of _ n]) (simp add: store_perm_image_def move_file_def)
  qed
qed


lemma moves_store: "moves (store_perm_image cfg p r)"
  unfolding moves_def
proof (intro allI impI)
  fix w assume w: "db_ok w"
  obtain x f n where r: "store_perm_image cfg p r w = (Inr x, w\<lparr>w_files := f, w_tick := n\<rparr>)" using store_perm_total by blast
  have "db_ok (snd (store_perm_image cfg p r w))" using keepsD [OF file_ops_ok(2) w] .
  with r show "\<exists>x im f n. store_perm_image cfg p r w = (Inr x, w\<lparr>images_t := im, w_files := f, w_tick := n\<rparr>)
      \<and> db_ok (snd (store_perm_image cfg p r w))"
    by (intro exI [of _ x] exI [of _ "images_t w"] exI [of _ f] exI [of _ n]) simp
qed

lemma moves_upload: "moves (move_upload ap k p r)"
  unfolding move_upload_def by (auto intro!: moves_bind moves_seq moves_store moves_ret moves_paths split: option.split)

lemma moves_parts: "moves (move_parts cfg k r ds ps)"
  by (induction ps arbitrary: ds) (auto intro!: moves_bind moves_seq moves_store moves_ret moves_paths)

lemma moves_gets: "moves (gets f)"
  unfolding moves_def
proof (intro allI impI)
  fix w :: world assume "db_ok w"
  then show "\<exists>y im g n. gets f w = (Inr y, w\<lparr>images_t := im, w_files := g, w_tick := n\<rparr>) \<and> db_ok (snd (gets f w))"
    by (intro exI [of _ "f w"] exI [of _ "images_t w"] exI [of _ "w_files w"] exI [of _ "w_tick w"]) simp
qed

lemma moves_photos: "moves (move_receipt_photos ap u x)"
proof -
  have a: "moves (move_additional_images cfg im r)" for cfg im r unfolding move_additional_images_def by (rule moves_parts)
  show ?thesis
    unfolding move_receipt_photos_def get_image_by_id_def
    by (auto intro!: moves_bind moves_seq moves_gets moves_ret moves_upload a split: option.split)
qed

lemma verified_row:
  assumes "db_ok w" and "x \<in> set (receipts_t w)" and "visible u see (r_user_id x)"
  shows "verify_receipt (r_id x) u see w = (Inr (Some (x\<lparr>r_status := Verified, r_verified := True\<rparr>)),
    w\<lparr>receipts_t := map (\<lambda>r. if r_id r = r_id x then r\<lparr>r_status := Verified, r_verified := True\<rparr> else r) (receipts_t w)\<rparr>)"
proof -
  have rows: "filter (own_receipt (r_id x) u see) (receipts_t w) = [x]"
  proof -
    have "filter (own_receipt (r_id x) u see) (receipts_t w) = filter (\<lambda>r. r_id r = r_id x) (receipts_t w)"
      using receipt_unique [OF assms(1)] assms(2,3) by (intro filter_cong refl) (auto simp: own_receipt_def)
    then show ?thesis using filter_by_key [OF receipt_ids_distinct [OF assms(1)] assms(2)] by simp
  qed
  have upd: "sql_update (own_receipt (r_id x) u see) f (receipts_t w) = map (\<lambda>r. if r_id r = r_id x then f r else r) (receipts_t w)" for f
    unfolding sql_update_def using receipt_unique [OF assms(1)] assms(2,3)
    by (intro map_cong refl) (auto simp: own_receipt_def)
  have "receipt_fits x" using assms(1,2) by (auto simp: db_ok_def widths_ok_def list_all_iff)
  moreover have "ref_opt (has_user w) (r_user_id x)" using db_okD(2) [OF assms(1)] assms(2) by (auto simp: receipt_refs_def)
  ultimately show ?thesis
    by (simp add: verify_receipt_def update_receipts_def bind_def Let_def rows upd receipt_fits_def)
qed


text \<open>The one photo of a submission goes to a free permanent path, and its row follows.\<close>

lemma move_photo_run:
  assumes "db_ok w" and "r_image_id x = Some i" and "im \<in> set (images_t w)" and "im_id im = i"
    and "visible (Some (us_id u)) (us_see_all u) (im_user_id im)" and "im_path im = Some p" and "im_additional im = []"
    and "dirs_apart (ap_images ap)" and "path_parent p = ic_tmp (ap_images ap)" and "p \<noteq> []" and "file_exists p w"
    and "\<not> file_exists (path_join (ic_save (ap_images ap)) (uuid_hex (w_supply w (w_tick w)) @ ''_'' @ perm_name (r_id x) p)) w"
  shows "\<exists>dest v. move_receipt_photos ap u x w = (Inr (), v) \<and> path_parent dest = ic_save (ap_images ap) \<and> \<not> file_exists dest w
    \<and> w_files v dest = w_files w p \<and> \<not> file_exists p v \<and> (\<exists>j \<in> set (images_t v). im_id j = i \<and> im_path j = Some dest)"
proof -
  have found: "get_image_by_id i (Some (us_id u)) (us_see_all u) w = (Inr (Some im), w)"
    using image_scope.own_is_found [OF image_ids_distinct [OF assms(1)] assms(3,5)] assms(4) by simp
  obtain dest w1 where st: "store_perm_image (ap_images ap) p (r_id x) w =
        (Inr (Some dest, if file_exists (thumb_for p) w then Some (thumb_for dest) else None), w1)"
    and d: "path_parent dest = ic_save (ap_images ap)" "\<not> file_exists dest w" "w_files w1 dest = w_files w p" "\<not> file_exists p w1"
    and same: "same_tables w w1"
    using perm_image_run [OF assms(8,9,12)] assms(11) by auto
  have ok1: "db_ok w1" using same_tables_ok [OF same] assms(1) by simp
  have "images_t w1 = images_t w" using same unfolding same_tables_def by (metis same_tables_reads)
  then have im: "im \<in> set (images_t w1)" using assms(3) by simp
  let ?f = "\<lambda>j. j\<lparr>im_path := Some dest\<rparr>"
  let ?w2 = "w1\<lparr>images_t := sql_update (\<lambda>j. im_id j = i) ?f (images_t w1)\<rparr>"
  have up: "update_image_path i dest w1 = (Inr (), ?w2)"
    unfolding update_image_path_def by (rule on_image_total [OF ok1]) simp_all
  have ok2: "db_ok ?w2" using keeps_run [OF image_ops_ok(9) ok1 up] .
  have row: "?f im \<in> set (images_t ?w2)" using im assms(4) by (auto simp: set_sql_update)
  let ?g = "\<lambda>j. j\<lparr>im_thumb := Some (thumb_for dest)\<rparr>"
  have th: "update_image_thumbnail_path i (thumb_for dest) ?w2 = (Inr (), ?w2\<lparr>images_t := sql_update (\<lambda>j. im_id j = i) ?g (images_t ?w2)\<rparr>)"
    unfolding update_image_thumbnail_path_def by (rule on_image_total [OF ok2]) simp_all
  have row': "?g (?f im) \<in> set (sql_update (\<lambda>j. im_id j = i) ?g (images_t ?w2))"
    using row assms(4) by (auto simp: set_sql_update)
  have run: "move_receipt_photos ap u x w = move_upload ap i p (r_id x) w"
    using found assms(2,6,7,10) by (simp add: move_receipt_photos_def bind_def seq_def ret_def split: prod.split sum.split)
  show ?thesis
  proof (cases "file_exists (thumb_for p) w")
    case True
    then have "move_receipt_photos ap u x w = (Inr (), ?w2\<lparr>images_t := sql_update (\<lambda>j. im_id j = i) ?g (images_t ?w2)\<rparr>)"
      using st up th by (simp add: run move_upload_def seq_def bind_def)
    moreover have "\<exists>j \<in> set (sql_update (\<lambda>j. im_id j = i) ?g (images_t ?w2)). im_id j = i \<and> im_path j = Some dest"
      by (rule bexI [OF _ row']) (simp add: assms(4))
    ultimately show ?thesis using d
      by (intro exI [of _ dest] exI [of _ "?w2\<lparr>images_t := sql_update (\<lambda>j. im_id j = i) ?g (images_t ?w2)\<rparr>"] conjI)
        (simp_all add: file_exists_def)
  next
    case False
    then have "move_receipt_photos ap u x w = (Inr (), ?w2)" using st up by (simp add: run move_upload_def seq_def bind_def)
    moreover have "\<exists>j \<in> set (images_t ?w2). im_id j = i \<and> im_path j = Some dest"
      by (rule bexI [OF _ row]) (simp add: assms(4))
    ultimately show ?thesis using d by (intro exI [of _ dest] exI [of _ ?w2] conjI) (simp_all add: file_exists_def)
  qed
qed

text \<open>
  Property C11: a receipt is verified once, with its photo. For a caller who sees the receipt, verifying
  succeeds if it is unverified: its row alone becomes verified, and asking again is refused with 409
  and changes nothing. The single photo of its submission, if it lies in the temporary directory, is
  moved to a free path of the permanent one (the random name being free), and its row names that path.
\<close>

theorem verified_once_with_photo:
  assumes "db_ok w" and "w_db_ready w" and "x \<in> set (receipts_t w)"
    and "visible (Some (us_id u)) (us_see_all u) (r_user_id x)" and "dirs_apart (ap_images ap)"
  shows "if r_status x = Verified
    then verify_receipt_route ap u (r_id x) w = (Inl (HTTPError 409 ''Receipt already verified''), w)
    else \<exists>v. verify_receipt_route ap u (r_id x) w = (Inr (x\<lparr>r_status := Verified, r_verified := True\<rparr>), v)
      \<and> verify_receipt_route ap u (r_id x) v = (Inl (HTTPError 409 ''Receipt already verified''), v) \<and> db_ok v
      \<and> receipts_t v = map (\<lambda>r. if r_id r = r_id x then r\<lparr>r_status := Verified, r_verified := True\<rparr> else r) (receipts_t w)
      \<and> items_t v = items_t w
      \<and> (\<forall>im p. im \<in> set (images_t w) \<and> r_image_id x = Some (im_id im) \<and> im_path im = Some p \<and> im_additional im = []
          \<and> visible (Some (us_id u)) (us_see_all u) (im_user_id im) \<and> path_parent p = ic_tmp (ap_images ap) \<and> p \<noteq> []
          \<and> file_exists p w \<and> \<not> file_exists (path_join (ic_save (ap_images ap))
               (uuid_hex (w_supply w (w_tick w)) @ ''_'' @ perm_name (r_id x) p)) w \<longrightarrow>
          (\<exists>dest. path_parent dest = ic_save (ap_images ap) \<and> \<not> file_exists dest w \<and> w_files v dest = w_files w p
             \<and> \<not> file_exists p v \<and> (\<exists>j \<in> set (images_t v). im_id j = im_id im \<and> im_path j = Some dest)))"
proof -
  have found: "get_receipt_by_id (r_id y) (Some (us_id u)) (us_see_all u) v = (Inr (Some y), v)"
    if "db_ok v" "y \<in> set (receipts_t v)" "visible (Some (us_id u)) (us_see_all u) (r_user_id y)" for y v
    using receipt_scope.own_is_found [OF receipt_ids_distinct [OF that(1)] that(2,3)] .
  have again: "verify_receipt_route ap u (r_id y) v = (Inl (HTTPError 409 ''Receipt already verified''), v)"
    if "db_ok v" "w_db_ready v" "y \<in> set (receipts_t v)" "visible (Some (us_id u)) (us_see_all u) (r_user_id y)" "r_status y = Verified" for y v
    using found [OF that(1,3,4)] that(2,5) by (simp add: verify_receipt_route_def seq_def)
  show ?thesis
  proof (cases "r_status x = Verified")
    case True
    then show ?thesis using again [OF assms(1-4)] by simp
  next
    case False
    obtain im f n where mv: "move_receipt_photos ap u x w = (Inr (), w\<lparr>images_t := im, w_files := f, w_tick := n\<rparr>)"
      and ok1: "db_ok (w\<lparr>images_t := im, w_files := f, w_tick := n\<rparr>)"
      using moves_photos [of ap u x] assms(1) unfolding moves_def by (metis snd_conv old.unit.exhaust)
    let ?w1 = "w\<lparr>images_t := im, w_files := f, w_tick := n\<rparr>" and ?x = "x\<lparr>r_status := Verified, r_verified := True\<rparr>"
    let ?v = "?w1\<lparr>receipts_t := map (\<lambda>r. if r_id r = r_id x then r\<lparr>r_status := Verified, r_verified := True\<rparr> else r) (receipts_t w)\<rparr>"
    have ver: "verify_receipt (r_id x) (Some (us_id u)) (us_see_all u) ?w1 = (Inr (Some ?x), ?v)"
      using verified_row [OF ok1, of x "Some (us_id u)" "us_see_all u"] assms(3,4) by simp
    have route: "verify_receipt_route ap u (r_id x) w = (Inr ?x, ?v)"
      using found [OF assms(1,3,4)] assms(2) False mv ver by (simp add: verify_receipt_route_def seq_def bind_def)
    have ok: "db_ok ?v" using keeps_run [OF receipt_routes_ok(4) assms(1) route] .
    have x: "?x \<in> set (receipts_t ?v)" using assms(3) by force
    have twice: "verify_receipt_route ap u (r_id x) ?v = (Inl (HTTPError 409 ''Receipt already verified''), ?v)"
      using again [OF ok _ x] assms(2,4) by simp
    have photo: "\<exists>dest. path_parent dest = ic_save (ap_images ap) \<and> \<not> file_exists dest w \<and> w_files ?v dest = w_files w p
        \<and> \<not> file_exists p ?v \<and> (\<exists>j \<in> set (images_t ?v). im_id j = im_id i \<and> im_path j = Some dest)"
      if h: "i \<in> set (images_t w)" "r_image_id x = Some (im_id i)" "im_path i = Some p" "im_additional i = []"
        "visible (Some (us_id u)) (us_see_all u) (im_user_id i)" "path_parent p = ic_tmp (ap_images ap)" "p \<noteq> []"
        "file_exists p w" "\<not> file_exists (path_join (ic_save (ap_images ap))
           (uuid_hex (w_supply w (w_tick w)) @ ''_'' @ perm_name (r_id x) p)) w" for i p
    proof -
      obtain dest v where d: "move_receipt_photos ap u x w = (Inr (), v)" "path_parent dest = ic_save (ap_images ap)" "\<not> file_exists dest w"
        "w_files v dest = w_files w p" "\<not> file_exists p v" "\<exists>j \<in> set (images_t v). im_id j = im_id i \<and> im_path j = Some dest"
        using move_photo_run [OF assms(1) h(2,1) refl h(5,3,4) assms(5) h(6-9)] by blast
      have "v = ?w1" using d(1) mv by simp
      then show ?thesis using d(2-6) by (intro exI [of _ dest]) (simp add: file_exists_def)
    qed
    show ?thesis
      unfolding if_not_P [OF False] using route twice ok photo by (intro exI [of _ ?v] conjI allI impI) simp_all
  qed
qed

section \<open>Editing and memberships\<close>

definition members_of :: "uuid \<Rightarrow> link_row list \<Rightarrow> uuid set" where
  "members_of r ls = lk_collection_id ` {l \<in> set ls. lk_receipt_id l = r}"

lemma members_of_simps [simp]:
  "members_of r (ls @ [l]) = members_of r ls \<union> (if lk_receipt_id l = r then {lk_collection_id l} else {})"
  "members_of r (sql_delete (\<lambda>l. lk_receipt_id l = r) ls) = {}"
  by (auto simp: members_of_def set_sql_delete)

lemma insert_links_run:
  assumes "has_receipt w r" and "\<forall>k \<in> set ks. has_collection w k"
  shows "\<exists>L. for_each ks (insert_link r) w = (Inr (), w\<lparr>links_t := L\<rparr>)
    \<and> filter (\<lambda>l. lk_receipt_id l \<noteq> r) L = filter (\<lambda>l. lk_receipt_id l \<noteq> r) (links_t w)
    \<and> members_of r L = members_of r (links_t w) \<union> set ks"
  using assms
proof (induction ks arbitrary: w)
  case Nil
  show ?case by (intro exI [of _ "links_t w"]) simp
next
  case (Cons k ks)
  let ?l = "\<lparr>lk_receipt_id = r, lk_collection_id = k\<rparr>"
  let ?L = "if ?l \<in> set (links_t w) then links_t w else links_t w @ [?l]"
  have one: "insert_link r k w = (Inr (), w\<lparr>links_t := ?L\<rparr>)"
    using Cons.prems by (simp add: insert_link_def Let_def)
  have mem: "members_of r ?L = insert k (members_of r (links_t w))"
  proof (cases "?l \<in> set (links_t w)")
    case True
    then have "lk_collection_id ?l \<in> members_of r (links_t w)" unfolding members_of_def by (intro imageI) simp
    then show ?thesis using True by (simp add: insert_absorb)
  qed simp
  obtain L where "for_each ks (insert_link r) (w\<lparr>links_t := ?L\<rparr>) = (Inr (), w\<lparr>links_t := L\<rparr>)"
    "filter (\<lambda>l. lk_receipt_id l \<noteq> r) L = filter (\<lambda>l. lk_receipt_id l \<noteq> r) ?L" "members_of r L = members_of r ?L \<union> set ks"
    using Cons.IH [of "w\<lparr>links_t := ?L\<rparr>"] Cons.prems by (auto simp: has_receipt_def has_collection_def)
  then show ?case using one mem by (intro exI [of _ L]) (simp add: seq_def bind_def)
qed

lemma set_memberships_run:
  obtains (refused) m where "set_receipt_collections r ks u see w = (Inl (NotFoundError m), w)"
  | (stored) L where "set_receipt_collections r ks u see w = (Inr (), w\<lparr>links_t := L\<rparr>)"
    "filter (\<lambda>l. lk_receipt_id l \<noteq> r) L = filter (\<lambda>l. lk_receipt_id l \<noteq> r) (links_t w)" "members_of r L = set ks"
    "\<forall>k \<in> set ks. \<exists>c \<in> set (collections_t w). own_collection k u see c"
proof -
  obtain x where x: "get_receipt_by_id r u see w = (Inr x, w)" by (simp add: get_receipt_by_id_def)
  have loop: "for_each ks (\<lambda>k. bind (collection_exists k u see) (\<lambda>b. guard b e)) w =
      (if \<forall>k \<in> set ks. \<exists>c \<in> set (collections_t w). own_collection k u see c then (Inr (), w) else (Inl e, w))" for e
    by (simp add: collection_exists_def guards_pass fetchrow_filter_None)
  show ?thesis
  proof (cases "x \<noteq> None \<and> (\<forall>k \<in> set ks. \<exists>c \<in> set (collections_t w). own_collection k u see c)")
    case True
    let ?w = "w\<lparr>links_t := sql_delete (\<lambda>l. lk_receipt_id l = r) (links_t w)\<rparr>"
    have "has_receipt ?w r" using True x get_receipt_cases(2) [of r u see w]
      by (auto simp: has_receipt_def sql_exists_iff own_receipt_def)
    moreover have "\<forall>k \<in> set ks. has_collection ?w k" using True
      by (auto simp: has_collection_def sql_exists_iff own_collection_def)
    ultimately obtain L where L: "for_each ks (insert_link r) ?w = (Inr (), w\<lparr>links_t := L\<rparr>)"
      "filter (\<lambda>l. lk_receipt_id l \<noteq> r) L = filter (\<lambda>l. lk_receipt_id l \<noteq> r) (links_t w)" "members_of r L = set ks"
      using insert_links_run [of ?w r ks] by (auto simp: filter_sql_delete_frame)
    show ?thesis
      by (rule stored [of L])
        (use True x loop L in \<open>simp_all add: set_receipt_collections_def set_receipt_collections_db_def bind_def seq_def\<close>)
  next
    case False
    then show ?thesis
      by (intro refused [of "if x = None then ''Receipt not found'' else ''Collection not found''"])
        (use x loop in \<open>auto simp: set_receipt_collections_def bind_def seq_def guard_def\<close>)
  qed
qed

text \<open>An edit writes receipts, items, taxes and remembered categories, and no membership.\<close>

lemma edit_keeps_links: "keeps (\<lambda>w. links_t w = L \<and> collections_t w = C) (update_receipt k rc u see)"
proof -
  let ?P = "\<lambda>w. links_t w = L \<and> collections_t w = C"
  have tx: "keeps ?P m \<Longrightarrow> keeps ?P (transaction m)" for m :: "(world, receipt_row option) py"
    by (rule keeps_transaction) auto
  have base: "keeps ?P (insert_item i)" "keeps ?P (insert_tax t)" "keeps ?P gen_uuid" "keeps ?P (update_receipts p f)"
    "keeps ?P (upsert_category_alias a b c d)" "keeps ?P (delete_category_alias a b c)"
    "keeps ?P (delete_line_items k)" "keeps ?P (delete_taxes k)" for i t p f a b c d k
    by (auto simp: keeps_def insert_item_def insert_tax_def gen_uuid_def update_receipts_def upsert_category_alias_def
        delete_category_alias_def delete_line_items_def delete_taxes_def Let_def)
  have items: "keeps ?P (insert_items_from k n xs ds)" for k n xs ds
    by (induction k n xs ds rule: insert_items_from.induct) (auto simp: insert_line_item_def intro!: keeps_intro base)
  have kids: "keeps ?P (replace_children k rc ds)" for k ds
    unfolding replace_children_def insert_children_def insert_tax_line_def Let_def by (intro keeps_intro items base)
  have rem: "keeps ?P (remember_category a m i d)" for a m i d
    unfolding remember_category_def by (intro keeps_intro base)
  have decide: "keeps ?P (decide_items a m old l n used p xs)" for a m old l n used p xs
    by (induction a m old l n used p xs rule: decide_items.induct) (auto simp: Let_def intro!: keeps_intro rem)
  have row: "keeps ?P (update_receipt_row k rc t u see)" for t
    unfolding update_receipt_row_def by (intro keeps_intro base reads_keeps [OF receipt_amounts_reads])
  show ?thesis
    unfolding update_receipt_def list_line_items_def by (intro keeps_intro tx row decide kids)
qed

text \<open>
  Property C24: an edit replaces exactly the memberships it names. Without collections in the body no
  membership changes; with them, after a successful edit the receipt is in exactly these collections,
  all of which the caller sees, and no other receipt's memberships have changed. A refused edit
  leaves every membership as it was, though the fields may have been stored by then.
\<close>

theorem edit_sets_memberships:
  assumes "update_receipt_route ap u k body w = (r, v)"
  shows "filter (\<lambda>l. lk_receipt_id l \<noteq> k) (links_t v) = filter (\<lambda>l. lk_receipt_id l \<noteq> k) (links_t w)
    \<and> (case r of Inl e \<Rightarrow> links_t v = links_t w
       | Inr row \<Rightarrow> (case ru_collection_ids body of
           None \<Rightarrow> links_t v = links_t w
         | Some ids \<Rightarrow> members_of k (links_t v) = set ids
             \<and> (\<forall>i \<in> set ids. \<exists>c \<in> set (collections_t w). own_collection i (Some (us_id u)) (us_see_all u) c)))"
proof (cases "ap_attached ap \<and> w_db_ready w")
  case False
  then have "v = w \<and> (\<exists>e. r = Inl e)" using assms
    by (auto simp: update_receipt_route_def get_collection_service_def require_db_def seq_def bind_def guard_def split: if_splits)
  then show ?thesis by auto
next
  case True
  obtain y w1 where up: "update_receipt k (ru_receipt body) (Some (us_id u)) (us_see_all u) w = (y, w1)" by fastforce
  have fixed: "links_t w1 = links_t w" "collections_t w1 = collections_t w"
    using keeps_run [OF edit_keeps_links [of "links_t w" "collections_t w"] _ up] by auto
  consider (err) "v = w1" "\<exists>e. r = Inl e" | (ok) row where "y = Inr (Some row)" using True assms up
    by (cases y; cases "projr y") (auto simp: update_receipt_route_def get_collection_service_def seq_def bind_def catch_def
        split: exn.splits)
  then show ?thesis
  proof cases
    case err
    then show ?thesis using fixed by auto
  next
    case (ok row)
    show ?thesis
    proof (cases "ru_collection_ids body")
      case None
      then have "r = Inr row \<and> v = w1" using True assms up ok
        by (simp add: update_receipt_route_def get_collection_service_def seq_def bind_def catch_def)
      then show ?thesis using None fixed by auto
    next
      case (Some ids)
      show ?thesis
      proof (cases rule: set_memberships_run [of k ids "Some (us_id u)" "us_see_all u" w1])
        case (refused m)
        then have "r = Inl (not_found ''Collection'') \<and> v = w1" using True assms up ok Some
          by (simp add: update_receipt_route_def get_collection_service_def seq_def bind_def catch_def)
        then show ?thesis using fixed by auto
      next
        case (stored L)
        then have "r = Inr row \<and> v = w1\<lparr>links_t := L\<rparr>" using True assms up ok Some
          by (simp add: update_receipt_route_def get_collection_service_def seq_def bind_def catch_def)
        then show ?thesis using stored Some fixed by auto
      qed
    qed
  qed
qed


section \<open>Samples\<close>

definition photo_world :: world where
  "photo_world = album_world\<lparr>w_files := [''/tmp/a.png'' \<mapsto> ''bytes'']\<rparr>"

lemma photo_world_ok: "db_ok photo_world"
  by (simp add: photo_world_def album_world_ok)

lemma photo_world_facts:
  "w_db_ready photo_world" "sample_row \<in> set (receipts_t photo_world)" "sample_image \<in> set (images_t photo_world)"
  "ap_attached sample_app" "\<not> sql_exists (\<lambda>k. k_receipt_id k = r_id sample_row) (tasks_t photo_world)"
  "visible (Some (us_id ann)) (us_see_all ann) (r_user_id sample_row)"
  "visible (Some (us_id ann)) (us_see_all ann) (im_user_id sample_image)" "r_image_id sample_row = Some (im_id sample_image)"
  "r_id sample_row = 20" "file_exists ''/tmp/a.png'' photo_world" "r_status sample_row = Unverified"
  by (simp_all add: photo_world_def album_world_def stored_world_def shop_world_def sample_world_def fresh_world_def
      sample_app_def sql_exists_def ann_def visible_def sample_row_def sample_image_def file_exists_def)

theorem foreign_receipt_untouchable_witness:
  "delete_receipt_route (ann\<lparr>us_id := 2\<rparr>) 20 photo_world = (Inl (not_found ''Receipt''), photo_world)"
proof -
  have "r_user_id sample_row \<noteq> Some (us_id (ann\<lparr>us_id := 2\<rparr>))" "\<not> us_see_all (ann\<lparr>us_id := 2\<rparr>)"
    by (simp_all add: sample_row_def ann_def)
  then show ?thesis
    using foreign_receipt_untouchable [OF photo_world_ok photo_world_facts(1,4,2), of "ann\<lparr>us_id := 2\<rparr>"]
    by (simp add: photo_world_facts(9))
qed


theorem verified_once_with_photo_witness:
  "\<exists>dest v. verify_receipt_route sample_app ann 20 photo_world = (Inr (sample_row\<lparr>r_status := Verified, r_verified := True\<rparr>), v)
     \<and> w_files v dest = Some ''bytes'' \<and> \<not> file_exists ''/tmp/a.png'' v"
proof -
  have d: "dirs_apart (ap_images sample_app)" by (simp add: dirs_apart_def sample_app_def sample_cfg_def path_join_def)
  have p: "im_path sample_image = Some ''/tmp/a.png''" "im_additional sample_image = []"
    "path_parent ''/tmp/a.png'' = ic_tmp (ap_images sample_app)" "''/tmp/a.png'' \<noteq> []"
    "w_files photo_world ''/tmp/a.png'' = Some ''bytes''"
    by (simp_all add: sample_image_def sample_app_def sample_cfg_def path_parent_def photo_world_def)
  have f: "\<not> file_exists (path_join (ic_save (ap_images sample_app)) n) photo_world" for n
    by (simp add: file_exists_def photo_world_def sample_app_def sample_cfg_def path_join_def)
  have u: "r_status sample_row \<noteq> Verified" by (simp add: photo_world_facts(11))
  obtain v where "verify_receipt_route sample_app ann 20 photo_world = (Inr (sample_row\<lparr>r_status := Verified, r_verified := True\<rparr>), v)"
    "\<exists>dest. w_files v dest = w_files photo_world ''/tmp/a.png'' \<and> \<not> file_exists ''/tmp/a.png'' v"
    using verified_once_with_photo [OF photo_world_ok photo_world_facts(1,2,6) d] photo_world_facts(3,7,8,10) p f
    unfolding if_not_P [OF u] photo_world_facts(9) by blast
  then show ?thesis using p(5) by auto
qed

theorem edit_sets_memberships_witness:
  "links_t (snd (update_receipt_route sample_app ann 20 \<lparr>ru_receipt = sample_edit, ru_collection_ids = None\<rparr> photo_world))
     = links_t photo_world"
  using edit_sets_memberships [of sample_app ann 20 "\<lparr>ru_receipt = sample_edit, ru_collection_ids = None\<rparr>" photo_world]
  by (cases "update_receipt_route sample_app ann 20 \<lparr>ru_receipt = sample_edit, ru_collection_ids = None\<rparr> photo_world")
    (auto split: sum.splits)

end
