(* ===== verification/CollectionApi.thy ===== *)
theory CollectionApi
  imports ReceiptApi
begin

text \<open>
  api/collections.py and api/tags.py: the bodies the models let through, the status codes of the
  service's exceptions, and what a client sees of a collection or tag it has just made. The
  collection routes need the collection service, which is there when the database was at the start.
\<close>

section \<open>Bodies\<close>

text \<open>The validators of CollectionCreate (a name is required) and CollectionUpdate (None is "not sent").\<close>

definition collection_name :: "string \<Rightarrow> string option" where
  "collection_name raw = (let name = normalize_collection_name raw in
     if 1 \<le> length raw \<and> length raw \<le> 100 \<and> name \<noteq> [] then Some name else None)"

definition create_body :: "collection_body \<Rightarrow> (world, collection_body) py" where
  "create_body b = (case Option.bind (cb_name b) collection_name of
     None \<Rightarrow> raise unprocessable | Some n \<Rightarrow> ret (b\<lparr>cb_name := Some n\<rparr>))"

definition update_body :: "collection_body \<Rightarrow> (world, collection_body) py" where
  "update_body b = (case cb_name b of
     None \<Rightarrow> ret b
   | Some raw \<Rightarrow> (case collection_name raw of None \<Rightarrow> raise unprocessable | Some n \<Rightarrow> ret (b\<lparr>cb_name := Some n\<rparr>)))"

section \<open>Collections\<close>

definition collection_request :: "app \<Rightarrow> (world, 'a) py \<Rightarrow> (world, 'a) py" where
  "collection_request ap route = seq (get_collection_service ap) (seq require_db route)"

definition bad_input :: "(world, 'a) py \<Rightarrow> (world, 'a) py" where
  "bad_input m = catch m (\<lambda>e. case e of
     NameConflictError s \<Rightarrow> raise (HTTPError 409 s) | ValueError s \<Rightarrow> raise (HTTPError 422 s) | _ \<Rightarrow> raise e)"

definition or_404 :: "string \<Rightarrow> (world, 'a) py \<Rightarrow> (world, 'a) py" where
  "or_404 what m = catch m (\<lambda>e. case e of NotFoundError _ \<Rightarrow> raise (not_found what) | _ \<Rightarrow> raise e)"

definition list_collections :: "app \<Rightarrow> user \<Rightarrow> (world, collection_summary list) py" where
  "list_collections ap u = collection_request ap (list_with_totals (Some (us_id u)) (us_see_all u))"

text \<open>A malformed body is answered with 422 after the dependencies and before the handler.\<close>

definition create_collection_route :: "app \<Rightarrow> user \<Rightarrow> collection_body \<Rightarrow> (world, collection_row) py" where
  "create_collection_route ap u b =
     seq (get_collection_service ap) (bind (create_body b) (\<lambda>body.
     seq require_db (bad_input (create_collection body (us_id u)))))"

text \<open>None is the empty 204 response.\<close>

definition get_active_collection :: "app \<Rightarrow> user \<Rightarrow> (world, collection_row option) py" where
  "get_active_collection ap u = collection_request ap (active_collection (Some (us_id u)) (us_see_all u))"

definition get_collection_route :: "app \<Rightarrow> user \<Rightarrow> uuid \<Rightarrow> (world, collection_detail) py" where
  "get_collection_route ap u k = collection_request ap
     (bind (collection_detail_db k (Some (us_id u)) (us_see_all u)) (\<lambda>d. case d of
        None \<Rightarrow> raise (not_found ''Collection'') | Some d \<Rightarrow> ret d))"

definition update_collection_route :: "app \<Rightarrow> user \<Rightarrow> uuid \<Rightarrow> collection_body \<Rightarrow> (world, collection_row) py" where
  "update_collection_route ap u k b =
     seq (get_collection_service ap) (bind (update_body b) (\<lambda>body.
     seq require_db (bind (bad_input (update_collection k body (Some (us_id u)) (us_see_all u))) (\<lambda>c. case c of
        None \<Rightarrow> raise (not_found ''Collection'') | Some c \<Rightarrow> ret c))))"

definition delete_collection_route :: "app \<Rightarrow> user \<Rightarrow> uuid \<Rightarrow> (world, unit) py" where
  "delete_collection_route ap u k = collection_request ap
     (bind (delete_collection k (Some (us_id u)) (us_see_all u)) (\<lambda>there. guard there (not_found ''Collection'')))"

definition assign_receipt_route :: "app \<Rightarrow> user \<Rightarrow> uuid \<Rightarrow> uuid \<Rightarrow> (world, bool) py" where
  "assign_receipt_route ap u k r = collection_request ap
     (seq (or_404 ''Collection or receipt'' (assign_receipt k r (Some (us_id u)) (us_see_all u))) (ret True))"

definition unassign_receipt_route :: "app \<Rightarrow> user \<Rightarrow> uuid \<Rightarrow> uuid \<Rightarrow> (world, unit) py" where
  "unassign_receipt_route ap u k r = collection_request ap
     (or_404 ''Collection'' (bind (unassign_receipt k r (Some (us_id u)) (us_see_all u)) (\<lambda>there.
        guard there (HTTPError 404 ''Not assigned''))))"

definition activate_collection_route :: "app \<Rightarrow> user \<Rightarrow> uuid \<Rightarrow> (world, collection_row) py" where
  "activate_collection_route ap u k = collection_request ap
     (or_404 ''Collection'' (activate_collection k (Some (us_id u)) (us_see_all u)))"

definition deactivate_collection_route :: "app \<Rightarrow> user \<Rightarrow> uuid \<Rightarrow> (world, collection_row) py" where
  "deactivate_collection_route ap u k = collection_request ap
     (or_404 ''Collection'' (deactivate_collection k (Some (us_id u)) (us_see_all u)))"

section \<open>Tags and categories\<close>

definition list_categories :: "string list" where
  "list_categories = CATEGORY_CODES"

text \<open>The category and where it is from.\<close>

definition category_suggestion :: "user \<Rightarrow> string \<Rightarrow> string \<Rightarrow> (world, string option \<times> string option) py" where
  "category_suggestion u merchant description =
     seq (guard (1 \<le> length merchant \<and> 1 \<le> length description) unprocessable)
     (seq require_db (bind (get_category_suggestion (us_id u) merchant description) (\<lambda>c.
       ret (c, if c = None \<or> c = Some [] then None else Some ''history''))))"

definition list_tags_route :: "(world, string list) py" where
  "list_tags_route = seq require_db list_tags"

text \<open>The status code, the name and whether it is new.\<close>

definition create_tag_route :: "string \<Rightarrow> (world, nat \<times> string \<times> bool) py" where
  "create_tag_route raw =
     seq (guard (1 \<le> length raw \<and> length raw \<le> 100) unprocessable)
     (seq require_db
     (bind (catch (create_tag raw) (\<lambda>e. case e of ValueError s \<Rightarrow> raise (HTTPError 422 s) | _ \<Rightarrow> raise e)) (\<lambda>(name, created).
        ret (if created then 201 else 200, name, created))))"

section \<open>Integrity\<close>

lemma collection_routes_ok [keeps_intro]:
  "keeps db_ok (create_collection_route ap u b)" "keeps db_ok (update_collection_route ap u k b)"
  "keeps db_ok (delete_collection_route ap u k)" "keeps db_ok (assign_receipt_route ap u k r)"
  "keeps db_ok (unassign_receipt_route ap u k r)" "keeps db_ok (activate_collection_route ap u k)"
  "keeps db_ok (deactivate_collection_route ap u k)" "keeps db_ok (create_tag_route n)"
proof -
  have r: "keeps db_ok require_db" "keeps db_ok (get_collection_service ap)"
    unfolding require_db_def get_collection_service_def by (intro keeps_intro)+
  show "keeps db_ok (create_collection_route ap u b)"
    unfolding create_collection_route_def create_body_def bad_input_def
    by (intro keeps_intro r; simp split: exn.split add: keeps_raise)
  show "keeps db_ok (update_collection_route ap u k b)"
    unfolding update_collection_route_def update_body_def bad_input_def
    by (intro keeps_intro r; simp split: exn.split add: keeps_raise)
  show "keeps db_ok (delete_collection_route ap u k)"
    unfolding delete_collection_route_def collection_request_def by (intro keeps_intro r)
  show "keeps db_ok (assign_receipt_route ap u k r)" "keeps db_ok (unassign_receipt_route ap u k r)"
    "keeps db_ok (activate_collection_route ap u k)" "keeps db_ok (deactivate_collection_route ap u k)"
    unfolding assign_receipt_route_def unassign_receipt_route_def activate_collection_route_def deactivate_collection_route_def
      collection_request_def or_404_def
    by (intro keeps_intro r; simp split: exn.split add: keeps_raise)+
  show "keeps db_ok (create_tag_route n)"
    unfolding create_tag_route_def by (intro keeps_intro r; simp split: exn.split add: keeps_raise)
qed

section \<open>A new collection is what its owner sees\<close>

definition switched_off :: "uuid \<Rightarrow> collection_row list \<Rightarrow> collection_row list" where
  "switched_off u = sql_update (\<lambda>c. c_user_id c = u) (\<lambda>c. c\<lparr>c_active := False\<rparr>)"

lemma collection_create_run:
  assumes "db_ok w" and "collection_create u n col s e a w = (Inr c, v)"
  shows "\<exists>t. v = w\<lparr>w_tick := t, collections_t := (if a then switched_off u (collections_t w) else collections_t w) @ [c]\<rparr>
    \<and> c_user_id c = u \<and> c_name c = n \<and> c_active c = a \<and> c_id c \<notin> c_id ` set (collections_t w)"
proof -
  have off: "deactivate_siblings u w = (Inr (), w\<lparr>collections_t := switched_off u (collections_t w)\<rparr>)"
    using update_flag_run [OF assms(1), of "\<lambda>c. c\<lparr>c_active := False\<rparr>" False]
    by (simp add: deactivate_siblings_def bind_def switched_off_def)
  have ids: "c_id ` set (switched_off u t) = c_id ` set t" for t
    unfolding switched_off_def by (metis (no_types, lifting) list.set_map map_sql_update collection_row.ext_inject
        collection_row.surjective collection_row.update_convs(7))
  show ?thesis
  proof (cases a)
    case True
    then show ?thesis using assms(2) off
      by (auto simp: collection_create_def seq_def bind_def gen_uuid_def insert_collection_def has_collection_def
          sql_exists_iff ids image_iff split: if_splits)
  next
    case False
    then show ?thesis using assms(2)
      by (auto simp: collection_create_def seq_def bind_def gen_uuid_def insert_collection_def has_collection_def
          sql_exists_iff image_iff split: if_splits)
  qed
qed

lemma create_route_run:
  assumes "db_ok w" and "create_collection_route ap u b w = (Inr c, v)"
  obtains t raw where "cb_name b = Some raw" "ap_attached ap" "w_db_ready w"
    "v = w\<lparr>w_tick := t, collections_t := (if cb_active b then switched_off (us_id u) (collections_t w) else collections_t w) @ [c]\<rparr>"
    "c_user_id c = us_id u" "c_name c = normalize_collection_name raw" "c_active c = cb_active b"
    "c_id c \<notin> c_id ` set (collections_t w)"
proof -
  obtain raw n where b: "cb_name b = Some raw" "collection_name raw = Some n" and ap: "ap_attached ap" "w_db_ready w"
    and run: "bad_input (create_collection (b\<lparr>cb_name := Some n\<rparr>) (us_id u)) w = (Inr c, v)"
    using assms(2) by (auto simp: create_collection_route_def get_collection_service_def create_body_def require_db_def
        seq_def bind_def guard_def split: if_splits option.splits Option.bind_splits)
  have "create_collection (b\<lparr>cb_name := Some n\<rparr>) (us_id u) w = (Inr c, v)"
    using run by (cases "create_collection (b\<lparr>cb_name := Some n\<rparr>) (us_id u) w"; cases "fst (create_collection (b\<lparr>cb_name := Some n\<rparr>) (us_id u) w)")
      (auto simp: bad_input_def catch_def split: exn.splits)
  moreover have "normalize_collection_name n = n" "n = normalize_collection_name raw"
    using b(2) by (auto simp: collection_name_def Let_def normalize_collection_name_eq split: if_splits)
  ultimately have made: "collection_create (us_id u) n (cb_color b) (cb_start b) (cb_end b) (cb_active b) w = (Inr c, v)"
    by (auto simp: create_collection_def Let_def seq_eq_Inr bind_eq_Inr guard_eq_Inr validate_dates_def find_by_name_def)
  obtain t where "v = w\<lparr>w_tick := t, collections_t := (if cb_active b then switched_off (us_id u) (collections_t w) else collections_t w) @ [c]\<rparr>
      \<and> c_user_id c = us_id u \<and> c_name c = n \<and> c_active c = cb_active b \<and> c_id c \<notin> c_id ` set (collections_t w)"
    using collection_create_run [OF assms(1) made] by blast
  then show ?thesis using that [OF b(1) ap, of t] \<open>n = normalize_collection_name raw\<close> by simp
qed

lemma switched_off_other: "u \<noteq> u' \<Longrightarrow> filter (\<lambda>c. c_user_id c = u') (switched_off u t) = filter (\<lambda>c. c_user_id c = u') t"
  unfolding switched_off_def by (rule filter_sql_update_frame) auto

lemma list_for_user: "w_db_ready w \<Longrightarrow> ap_attached ap \<Longrightarrow> \<not> us_see_all u \<Longrightarrow>
  list_collections ap u w = (Inr (map (\<lambda>c. let n = length (filter (\<lambda>l. lk_collection_id l = c_id c) (links_t w)) in
         \<lparr>cs_collection = c, cs_count = n, cs_totals = (if 0 < n then currency_totals (linked_receipts (c_id c) w) else [])\<rparr>)
       (sort_key (\<lambda>c. map code_of (c_name c)) (filter (\<lambda>c. c_user_id c = us_id u) (collections_t w)))), w)"
  by (simp add: list_collections_def collection_request_def get_collection_service_def list_with_totals_def visible_def seq_def eq_commute)

lemma active_for_user:
  assumes "w_db_ready w" and "ap_attached ap" and "\<not> us_see_all u"
  shows "get_active_collection ap u w = (Inr (fetchrow (filter (\<lambda>c. c_active c \<and> c_user_id c = us_id u) (collections_t w))), w)"
  using assms
  by (simp add: get_active_collection_def collection_request_def get_collection_service_def active_collection_def
      visible_def seq_def eq_commute)

lemma active_switched_off: "filter (\<lambda>c. c_active c \<and> c_user_id c = k) (switched_off k cs) = []"
  by (induction cs) (simp_all add: switched_off_def sql_update_def)

lemma empty_page:
  assumes "db_ok w" and "w_db_ready w" and "ap_attached ap" and "\<not> us_see_all u" and "c \<in> set (collections_t w)"
    and "c_user_id c = us_id u" and "\<forall>l \<in> set (links_t w). lk_collection_id l \<noteq> c_id c"
  shows "get_collection_route ap u (c_id c) w = (Inr \<lparr>cd_collection = c, cd_totals = [], cd_receipts = []\<rparr>, w)"
proof -
  have "linked_receipts (c_id c) w = []" "filter (\<lambda>l. lk_collection_id l = c_id c) (links_t w) = []"
    using assms(7) by (auto simp: filter_empty_conv linked_receipts_def)
  moreover have "visible (Some (us_id u)) False (Some (c_user_id c))" by (simp add: assms(6) visible_def)
  moreover have "collection_get (c_id c) (Some (us_id u)) False w = (Inr (Some c), w)"
    using collection_scope.own_is_found [OF collection_ids_distinct [OF assms(1)] assms(5)] calculation(3) by simp
  ultimately show ?thesis
    using assms(2-4)
    by (simp add: get_collection_route_def collection_request_def get_collection_service_def collection_detail_db_def
        receipts_in_collection_def currency_totals_def seq_def bind_def)
qed

text \<open>
  Fact: a new collection is what its owner sees next, and nobody else. After a successful creation
  by an ordinary caller the list shows it, empty, its page shows it without receipts and totals, it
  is the active collection exactly if that was asked for, and any other user's list is as before.
\<close>

theorem created_collection_shows:
  assumes "db_ok w" and "create_collection_route ap u b w = (Inr c, v)" and "\<not> us_see_all u"
  shows "c_user_id c = us_id u \<and> (\<exists>raw. cb_name b = Some raw \<and> c_name c = normalize_collection_name raw)
    \<and> (\<exists>ss. list_collections ap u v = (Inr ss, v) \<and> \<lparr>cs_collection = c, cs_count = 0, cs_totals = []\<rparr> \<in> set ss)
    \<and> get_collection_route ap u (c_id c) v = (Inr \<lparr>cd_collection = c, cd_totals = [], cd_receipts = []\<rparr>, v)
    \<and> (if cb_active b then get_active_collection ap u v = (Inr (Some c), v)
       else value_of (get_active_collection ap u) v = value_of (get_active_collection ap u) w)
    \<and> (us_id u' \<noteq> us_id u \<and> \<not> us_see_all u' \<longrightarrow>
         value_of (list_collections ap u') v = value_of (list_collections ap u') w)"
proof -
  obtain t raw where b: "cb_name b = Some raw" and ap: "ap_attached ap" "w_db_ready w"
    and v: "v = w\<lparr>w_tick := t, collections_t := (if cb_active b then switched_off (us_id u) (collections_t w) else collections_t w) @ [c]\<rparr>"
    and c: "c_user_id c = us_id u" "c_name c = normalize_collection_name raw" "c_active c = cb_active b"
      "c_id c \<notin> c_id ` set (collections_t w)"
    using create_route_run [OF assms(1,2)] .
  have ready: "w_db_ready v" and mem: "c \<in> set (collections_t v)" using ap(2) by (simp_all add: v)
  have "links_t v = links_t w" by (simp add: v)
  moreover have "\<forall>l \<in> set (links_t w). lk_collection_id l \<in> c_id ` set (collections_t w)"
    using db_okD(5) [OF assms(1)] by (auto simp: collection_refs_def has_collection_def sql_exists_iff image_iff)
  ultimately have none: "\<forall>l \<in> set (links_t v). lk_collection_id l \<noteq> c_id c" using c(4) by metis
  then have unlinked: "filter (\<lambda>l. lk_collection_id l = c_id c) (links_t v) = []" "linked_receipts (c_id c) v = []"
    by (auto simp: filter_empty_conv linked_receipts_def)
  have ok: "db_ok v" using assms(2) collection_routes_ok(1) assms(1) by (metis keeps_run)
  have listed: "\<exists>ss. list_collections ap u v = (Inr ss, v) \<and> \<lparr>cs_collection = c, cs_count = 0, cs_totals = []\<rparr> \<in> set ss"
    unfolding list_for_user [OF ready ap(1) assms(3)]
    by (rule exI, rule conjI, rule refl) (use mem in \<open>auto simp: image_iff unlinked c(1) intro!: bexI [of _ c]\<close>)
  note page = empty_page [OF ok ready ap(1) assms(3) mem c(1) none]
  have act: "if cb_active b then get_active_collection ap u v = (Inr (Some c), v)
       else value_of (get_active_collection ap u) v = value_of (get_active_collection ap u) w"
  proof (cases "cb_active b")
    case True
    then show ?thesis using c active_for_user [OF ready ap(1) assms(3)] by (simp add: v active_switched_off)
  next
    case False
    then show ?thesis using c active_for_user [OF ready ap(1) assms(3)] active_for_user [OF ap(2,1) assms(3)]
      by (simp add: v value_of_def)
  qed
  have others: "value_of (list_collections ap u') v = value_of (list_collections ap u') w"
    if "us_id u' \<noteq> us_id u" "\<not> us_see_all u'"
  proof -
    have "filter (\<lambda>c. c_user_id c = us_id u') (collections_t v) = filter (\<lambda>c. c_user_id c = us_id u') (collections_t w)"
      using that(1) c(1) switched_off_other [of "us_id u" "us_id u'"] by (simp add: v)
    moreover have "linked_receipts k v = linked_receipts k w" for k by (simp add: v linked_receipts_def)
    ultimately show ?thesis
      using list_for_user [OF ready ap(1) that(2)] list_for_user [OF ap(2,1) that(2)] by (simp add: value_of_def v)
  qed
  show ?thesis using b c listed page act others by blast
qed


text \<open>
  Fact: "the current user's active collection" is for a see-all caller anybody's: here user 2, who has
  none, is shown the active collection of user 1.
\<close>

lemma admin_shown_foreign_active:
  "get_active_collection sample_app (ann\<lparr>us_id := 2, us_see_all := True\<rparr>) album_world = (Inr (Some trip), album_world)
     \<and> c_user_id trip \<noteq> 2"
  by (simp add: get_active_collection_def collection_request_def get_collection_service_def active_collection_def seq_def
      bind_def sample_app_def album_world_def stored_world_def shop_world_def sample_world_def fresh_world_def visible_def
      require_db_def trip_def)

section \<open>A tag is made once\<close>

text \<open>
  Fact: a tag is made once. A successful request names the text in lower case with its white space
  collapsed, says 201 exactly if no such tag was there, and leaves it in the vocabulary; the same
  request again answers 200 with the same name and changes nothing.
\<close>

theorem tag_promoted_once:
  assumes "create_tag_route raw w = (Inr (code, n, created), v)"
  shows "n = collapse (py_lower raw) \<and> n \<noteq> [] \<and> created = (n \<notin> set (tags_t w)) \<and> code = (if created then 201 else 200)
    \<and> v = w\<lparr>tags_t := (if created then tags_t w @ [n] else tags_t w)\<rparr>
    \<and> create_tag_route raw v = (Inr (200, n, False), v)
    \<and> (\<exists>ts. list_tags_route v = (Inr ts, v) \<and> n \<in> set ts)"
proof -
  have ok: "1 \<le> length raw" "length raw \<le> 100" "w_db_ready w"
    using assms by (auto simp: create_tag_route_def require_db_def seq_def bind_def guard_def split: if_splits)
  obtain m where m: "tag_name raw = Inr m"
    using assms ok by (cases "tag_name raw")
      (auto simp: create_tag_route_def seq_def bind_def catch_def create_tag_def lift_result_def tag_name_spec split: if_splits)
  have form: "m = collapse (py_lower raw)" using m by (auto simp: tag_name_spec split: if_splits)
  have fits: "m \<noteq> []" "length m \<le> 100" using m by (auto simp: tag_name_def Let_def split: if_splits)
  have run: "create_tag_route raw x = (if m \<in> set (tags_t x) then (Inr (200, m, False), x)
      else (Inr (201, m, True), x\<lparr>tags_t := tags_t x @ [m]\<rparr>))" if "w_db_ready x" for x
    using that ok(1,2) fits(2) m
    by (simp add: create_tag_route_def seq_def bind_def catch_def create_tag_def lift_result_def create_tag_row_def varchar_def)
  show ?thesis
  proof (cases "m \<in> set (tags_t w)")
    case True
    then show ?thesis using assms run [OF ok(3)] form fits(1) ok(3) by (auto simp: list_tags_route_def list_tags_def seq_def)
  next
    case False
    then show ?thesis using assms run [OF ok(3)] run [of v] form fits(1) ok(3) by (auto simp: list_tags_route_def list_tags_def seq_def)
  qed
qed

section \<open>Samples\<close>

theorem tag_promoted_once_witness:
  "\<exists>v. create_tag_route '' Sour  Milk '' fresh_world = (Inr (201, ''sour milk'', True), v)
     \<and> create_tag_route '' Sour  Milk '' v = (Inr (200, ''sour milk'', False), v)"
proof -
  have "case create_tag_route '' Sour  Milk '' fresh_world of (Inr (c, n, b), v) \<Rightarrow> c = 201 \<and> n = ''sour milk'' \<and> b | _ \<Rightarrow> False"
    by code_simp
  then obtain v where "create_tag_route '' Sour  Milk '' fresh_world = (Inr (201, ''sour milk'', True), v)"
    by (auto split: prod.splits sum.splits)
  then show ?thesis using tag_promoted_once by blast
qed

theorem created_collection_shows_witness:
  "\<exists>c v. create_collection_route sample_app ann new_body album_world = (Inr c, v)
     \<and> get_collection_route sample_app ann (c_id c) v = (Inr \<lparr>cd_collection = c, cd_totals = [], cd_receipts = []\<rparr>, v)"
proof -
  have "case create_collection_route sample_app ann new_body album_world of (Inr c, v) \<Rightarrow> True | _ \<Rightarrow> False" by code_simp
  then obtain c v where "create_collection_route sample_app ann new_body album_world = (Inr c, v)"
    by (auto split: prod.splits sum.splits)
  moreover have "\<not> us_see_all ann" by (simp add: ann_def)
  ultimately show ?thesis using created_collection_shows [OF album_world_ok, of sample_app ann new_body] by blast
qed

end
