(* ===== verification/Uploads.thy ===== *)
theory Uploads
  imports ReceiptApi
begin

text \<open>
  What an upload (upload_image of api/images.py) leaves behind: nothing, when a photo is refused or
  the submission cannot be stored, and otherwise a submission whose row says what the response says.
\<close>

section \<open>Photos are stored in order\<close>

lemma store_part_files [only_files_intro]: "only_files (store_part cfg up)"
  unfolding store_part_def
  by (intro only_files_intro only_files_seq only_files_catch; simp add: guard_def only_files_basic split: exn.split)

lemma only_files_attempt [only_files_intro]: "only_files m \<Longrightarrow> only_files (attempt m)"
  by (simp add: only_files_def)

lemma store_parts_files [only_files_intro]: "only_files (store_parts cfg ups ps)"
  by (induction cfg ups ps rule: store_parts.induct)
    (simp_all only: store_parts.simps, (intro only_files_intro | simp split: sum.split | simp add: only_files_intro)+)

lemma delete_parts_files [only_files_intro]: "only_files (delete_parts ps)"
  unfolding delete_parts_def by (induction ps; simp only: for_each.simps; intro only_files_intro)

lemma store_photos_files [only_files_intro]: "only_files (store_photos cfg ups)"
  unfolding store_photos_def
  by (intro only_files_bind only_files_intro) (auto split: prod.split option.split intro: only_files_intro)

lemma store_parts_length:
  "store_parts cfg ups ps w = (Inr (qs, None), v) \<Longrightarrow> length qs = length ps + length ups"
proof (induction cfg ups ps arbitrary: w rule: store_parts.induct)
  case (2 cfg up ups ps)
  then obtain p w1 where "store_part cfg up w = (Inr p, w1)" "store_parts cfg ups (ps @ [p]) w1 = (Inr (qs, None), v)"
    by (cases "store_part cfg up w"; cases "fst (store_part cfg up w)") (auto simp: bind_def)
  then show ?case using "2.IH" by fastforce
qed simp


section \<open>The row of a submission\<close>

lemma on_image_row:
  assumes "\<And>j. im_id (f j) = im_id j" and "\<And>j. P j \<Longrightarrow> P (f j)"
  shows "keeps (row_of k P) (on_image k f)"
proof (rule keepsI)
  fix w assume "row_of k P w"
  then obtain j where j: "j \<in> set (images_t w)" "im_id j = k" "P j" by (auto simp: row_of_def)
  have "images_t (snd (on_image k f w)) = images_t w \<or> images_t (snd (on_image k f w)) = sql_update (\<lambda>j. im_id j = k) f (images_t w)"
    by (auto simp: on_image_def update_images_def bind_def Let_def)
  then show "row_of k P (snd (on_image k f w))"
  proof
    assume "images_t (snd (on_image k f w)) = sql_update (\<lambda>j. im_id j = k) f (images_t w)"
    then have "f j \<in> set (images_t (snd (on_image k f w)))" using j(1,2) by (auto simp: set_sql_update)
    then show ?thesis using j assms by (intro row_ofI [of "f j"]) simp_all
  qed (use \<open>row_of k P w\<close> in \<open>simp add: row_of_def\<close>)
qed

lemma on_image_step:
  assumes "db_ok w" and "row_of k P w" and "\<And>j. im_id (f j) = im_id j" and "\<And>j. im_user_id (f j) = im_user_id j"
    and "\<And>j. im_receipt_id (f j) = im_receipt_id j \<or> ref_opt (has_receipt w) (im_receipt_id (f j))"
    and "\<And>j. P j \<Longrightarrow> Q (f j)"
  shows "\<exists>v. on_image k f w = (Inr (), v) \<and> row_of k Q v \<and> has_receipt v = has_receipt w"
proof -
  obtain j where j: "j \<in> set (images_t w)" "im_id j = k" "P j" using assms(2) by (auto simp: row_of_def)
  obtain v where v: "on_image k f w = (Inr (), v)" "f j \<in> set (images_t v)" "receipts_t v = receipts_t w"
    using on_image_run [of w j k f] assms(1,3-5) j(1,2) by blast
  have "row_of k Q v" using v(2) j(2,3) assms(3,6) by (intro row_ofI [of "f j"]) simp_all
  then show ?thesis using v(1,3) by (intro exI [of _ v]) (simp add: has_receipt_def [abs_def])
qed

lemma files_keep_row: "only_files m \<Longrightarrow> keeps (\<lambda>w. row_of k P w \<and> ref_opt (has_receipt w) r) m"
  by (rule only_files_tables) (simp_all add: row_of_def has_receipt_def [abs_def])

lemma persist_keeps_row: "keeps (row_of k P) (service_persist_receipt a rc i st v u)"
  unfolding row_of_def by (rule persist_images [where R = "\<lambda>xs. \<exists>j \<in> set xs. im_id j = k \<and> P j"])

lemma on_image_keep:
  assumes "\<And>j. im_id (f j) = im_id j" and "\<And>j. P j \<Longrightarrow> P (f j)"
  shows "keeps (\<lambda>w. row_of k P w \<and> ref_opt (has_receipt w) r) (on_image k f)"
proof (rule keepsI)
  fix w assume w: "row_of k P w \<and> ref_opt (has_receipt w) r"
  have "receipts_t (snd (on_image k f w)) = receipts_t w"
    by (auto simp: on_image_def update_images_def bind_def Let_def)
  then show "row_of k P (snd (on_image k f w)) \<and> ref_opt (has_receipt (snd (on_image k f w))) r"
    using w keepsD [OF on_image_row [of f P, OF assms], of k w] by (simp add: has_receipt_def [abs_def])
qed

text \<open>What the request fixed, and what the response says.\<close>

definition submitted :: "user \<Rightarrow> nat \<Rightarrow> bool \<Rightarrow> string option \<Rightarrow> image_row \<Rightarrow> bool" where
  "submitted u n bypass model j \<longleftrightarrow> im_user_id j = Some (us_id u) \<and> length (image_parts j) = n
     \<and> im_bypass j = bypass \<and> im_model_id j = model"

definition says :: "upload_response \<Rightarrow> image_row \<Rightarrow> bool" where
  "says rp j \<longleftrightarrow> image_status_name (im_status j) = rp_status rp \<and> im_receipt_id j = rp_receipt rp \<and> im_processing_at j = None
     \<and> (rp_code rp, rp_status rp) \<in> {(202, ''pending''), (201, ''analyzed''), (504, ''timed_out''), (422, ''unreadable'')}
     \<and> (rp_code rp \<in> {504, 422} \<longrightarrow> im_error j = rp_detail rp) \<and> (rp_code rp = 201 \<longleftrightarrow> rp_receipt rp \<noteq> None)"

lemma paths_keep [simp]:
  "submitted u n b m (j\<lparr>im_path := p\<rparr>) = submitted u n b m j" "submitted u n b m (j\<lparr>im_thumb := q\<rparr>) = submitted u n b m j"
  "says rp (j\<lparr>im_path := p\<rparr>) = says rp j" "says rp (j\<lparr>im_thumb := q\<rparr>) = says rp j"
  by (simp_all add: submitted_def says_def image_parts_def)

lemma move_upload_keep:
  assumes "\<And>j p. P j \<Longrightarrow> P (j\<lparr>im_path := Some p\<rparr>)" and "\<And>j p. P j \<Longrightarrow> P (j\<lparr>im_thumb := Some p\<rparr>)"
  shows "keeps (\<lambda>w. row_of k P w \<and> ref_opt (has_receipt w) r) (move_upload ap k p rid)"
  unfolding move_upload_def update_image_path_def update_image_thumbnail_path_def
  by (intro keeps_intro files_keep_row only_files_ops on_image_keep) (simp_all add: assms)

lemma ended_truth:
  assumes "db_ok w" and "row_of k (\<lambda>j. submitted u n b m j \<and> im_receipt_id j = None) w"
    and "(code, st) \<in> {(504, ''timed_out''), (422, ''unreadable'')}"
  shows "\<exists>v. mark_terminal k st s w = (Inr (), v) \<and> row_of k (\<lambda>j. submitted u n b m j \<and> says (ended code k st s) j) v"
proof -
  obtain t where t: "terminal_status st = Some t" "image_status_name t = st"
    using assms(3) by (auto simp: terminal_status_def)
  let ?f = "\<lambda>i. i\<lparr>im_status := t, im_error := Some s, im_processing_at := None\<rparr>"
  have q: "submitted u n b m (?f j) \<and> says (ended code k st s) (?f j)" if "submitted u n b m j \<and> im_receipt_id j = None" for j
    using that assms(3) t(2) by (auto simp: submitted_def says_def ended_def image_parts_def)
  have "\<exists>v. on_image k ?f w = (Inr (), v) \<and> row_of k (\<lambda>j. submitted u n b m j \<and> says (ended code k st s) j) v
      \<and> has_receipt v = has_receipt w"
    by (rule on_image_step [OF assms(1,2), where f = ?f]) (simp, simp, simp, rule q)
  then show ?thesis using t(1) by (auto simp: mark_terminal_def)
qed

lemma persist_upload_truth:
  assumes "db_ok w" and "row_of (im_id img) (\<lambda>j. submitted u n b m j \<and> im_receipt_id j = None) w"
    and "persist_upload ap u bypass img tmp rc w = (Inr rid, v)"
  shows "row_of (im_id img) (\<lambda>j. submitted u n b m j \<and> says (analysed img part rid) j) v \<and> ref_opt (has_receipt v) (Some rid)"
proof -
  let ?P = "\<lambda>j. submitted u n b m j \<and> im_receipt_id j = None" and ?st = "if bypass then Verified else Unverified"
  let ?Q = "\<lambda>j. submitted u n b m j \<and> says (analysed img part rid) j"
  have body: "persist_upload ap u bypass img tmp rc =
      bind (service_persist_receipt (ap_attached ap) rc (Some (im_id img)) ?st bypass (Some (us_id u))) (\<lambda>row.
        seq (mark_analyzed (im_id img) (r_id row))
        (seq (if bypass then catch (move_upload ap (im_id img) tmp (r_id row)) (\<lambda>_. ret ()) else ret ()) (ret (r_id row))))"
    by (simp add: persist_upload_def)
  obtain row w1 where p: "service_persist_receipt (ap_attached ap) rc (Some (im_id img)) ?st bypass (Some (us_id u)) w = (Inr row, w1)"
    and after: "seq (mark_analyzed (im_id img) (r_id row))
        (seq (if bypass then catch (move_upload ap (im_id img) tmp (r_id row)) (\<lambda>_. ret ()) else ret ()) (ret (r_id row))) w1 = (Inr rid, v)"
    using assms(3) unfolding body bind_eq_Inr by blast
  obtain w2 where mk: "mark_analyzed (im_id img) (r_id row) w1 = (Inr (), w2)" and rid: "r_id row = rid"
    and rest: "(if bypass then catch (move_upload ap (im_id img) tmp rid) (\<lambda>_. ret ()) else ret ()) w2 = (Inr (), v)"
    using after unfolding seq_eq_Inr by auto
  have ok1: "db_ok w1" using keeps_run [OF receipt_service_ok(3) assms(1) p] .
  have row1: "row_of (im_id img) ?P w1" using keeps_run [OF persist_keeps_row assms(2) p] .
  have there: "has_receipt w1 rid" using service_persist_stored [OF assms(1) p] rid by simp
  let ?f = "\<lambda>i. i\<lparr>im_status := Analyzed, im_receipt_id := Some rid, im_error := None,
       im_analyzed_at := Some (w_clock w1), im_processing_at := None\<rparr>"
  have q: "?Q (?f j)" if "?P j" for j
    using that by (simp add: submitted_def says_def analysed_def image_parts_def)
  have "\<exists>w2'. on_image (im_id img) ?f w1 = (Inr (), w2') \<and> row_of (im_id img) ?Q w2' \<and> has_receipt w2' = has_receipt w1"
    by (rule on_image_step [OF ok1 row1, where f = ?f]) (simp, simp, simp add: there, rule q)
  then obtain w2' where "mark_analyzed (im_id img) (r_id row) w1 = (Inr (), w2')" "row_of (im_id img) ?Q w2'" "has_receipt w2' = has_receipt w1"
    by (auto simp: mark_analyzed_def rid)
  then have w2: "row_of (im_id img) ?Q w2 \<and> ref_opt (has_receipt w2) (Some rid)" using mk there by simp
  have "keeps (\<lambda>w. row_of (im_id img) ?Q w \<and> ref_opt (has_receipt w) (Some rid))
      (if bypass then catch (move_upload ap (im_id img) tmp rid) (\<lambda>_. ret ()) else ret ())"
    by (intro keeps_intro move_upload_keep) simp_all
  from keeps_run [OF this w2 rest] show ?thesis .
qed

lemma analyse_upload_truth:
  assumes "db_ok w" and "row_of (im_id img) (\<lambda>j. submitted u n b m j \<and> im_receipt_id j = None) w"
    and "analyse_upload ap u bypass model part img w = (Inr rp, v)"
  shows "rp_image rp = im_id img \<and> row_of (im_id img) (\<lambda>j. submitted u n b m j \<and> says rp j) v \<and> ref_opt (has_receipt v) (rp_receipt rp)"
proof -
  let ?P = "\<lambda>j. submitted u n b m j \<and> im_receipt_id j = None"
  obtain a w1 where a: "analyse_receipt_from_path (ap_provider ap) model [part_path part] w = (a, w1)" by fastforce
  have ok1: "db_ok w1" using keeps_run [OF receipt_service_ok(6) assms(1) a] .
  have row1: "row_of (im_id img) ?P w1"
    using keeps_run [OF files_keep_row [OF extraction_files(2), of "im_id img" ?P None] _ a] assms(2) by simp
  show ?thesis
  proof (cases a)
    case (Inr rc)
    then obtain rid where per: "persist_upload ap u bypass img (part_path part) rc w1 = (Inr rid, v)" and rp: "rp = analysed img part rid"
      using assms(3) a by (auto simp: analyse_upload_def bind_eq_Inr bind_def split: prod.splits sum.splits)
    show ?thesis using persist_upload_truth [OF ok1 row1 per, of part] by (simp add: rp analysed_def)
  next
    case (Inl e)
    then have fail: "upload_failed ap (im_id img) e w1 = (Inr rp, v)" using assms(3) a by (simp add: analyse_upload_def bind_def)
    then obtain code st s where c: "(code, st) \<in> {(504, ''timed_out''), (422, ''unreadable'')}" "rp = ended code (im_id img) st s"
      and run: "mark_terminal (im_id img) st s w1 = (Inr (), v)"
      by (cases e) (auto simp: upload_failed_def seq_eq_Inr)
    show ?thesis using ended_truth [OF ok1 row1 c(1), of s] run c(2) by (auto simp: ended_def)
  qed
qed

section \<open>The response tells the truth\<close>

lemma discover_run: "\<exists>ms c. discover_models prov w = (Inr ms, w\<lparr>w_clock := c\<rparr>)"
  by (auto simp: discover_models_def Let_def split: prod.split sum.split bool.split)

lemma models_run: "\<exists>ms c. (if b then discover_models prov else ret []) w = (Inr ms, w\<lparr>w_clock := c\<rparr>)"
  using discover_run [of prov w] by (cases b) (auto intro: exI [of _ "w_clock w"])

lemma require_db_Inr: "require_db w = (Inr x, v) \<longleftrightarrow> w_db_ready w \<and> v = w"
  by (auto simp: require_db_def seq_def guard_def)

lemma store_upload_ok: "keeps db_ok (store_upload u b m ps)"
proof -
  have "keeps db_ok (delete_parts ps)" for ps by (rule only_files_keeps only_files_intro)+
  then show ?thesis unfolding store_upload_def Let_def by (intro keeps_intro)
qed

lemma upload_ok [keeps_intro]: "keeps db_ok (upload_image ap u ups m b)"
proof -
  have d: "keeps db_ok (discover_models prov)" for prov
  proof (rule keepsI)
    fix s assume "db_ok s"
    moreover obtain ms c where "discover_models prov s = (Inr ms, s\<lparr>w_clock := c\<rparr>)" using discover_run by blast
    ultimately show "db_ok (snd (discover_models prov s))" by simp
  qed
  have s: "keeps db_ok (store_photos cfg xs)" "keeps db_ok (delete_parts ps)" for cfg xs ps
    by (rule only_files_keeps only_files_intro)+
  have f: "keeps db_ok (upload_failed ap k e)" for k e
    unfolding upload_failed_def by (cases e; simp; intro keeps_intro)
  show ?thesis
    unfolding upload_image_def require_db_def store_upload_def analyse_upload_def persist_upload_def Let_def
    by (intro keeps_intro d s f keeps_attempt)
qed

lemma store_upload_run:
  assumes "store_upload u b m parts w = (Inr i, v)" and "parts \<noteq> []"
  obtains t where "v = w\<lparr>w_tick := t, images_t := images_t w @ [i]\<rparr>" "submitted u (length parts) b m i" "im_status i = Pending"
    "im_receipt_id i = None" "im_processing_at i = None" "im_id i \<notin> im_id ` set (images_t w)"
proof -
  let ?st = "store_image (part_path (hd parts)) (part_filename (hd parts)) (part_media (hd parts)) (part_size (hd parts)) Pending
          (Some (us_id u)) b (part_thumb (hd parts)) (tl parts) m"
  have "?st w = (Inr i, v)"
    using assms(1) by (auto simp: store_upload_def Let_def catch_def seq_eq_Inr split: prod.splits sum.splits)
  then have v: "i = \<lparr>im_id = w_supply w (w_tick w), im_filename = part_filename (hd parts), im_media = part_media (hd parts),
         im_size = part_size (hd parts), im_path = Some (part_path (hd parts)), im_thumb = part_thumb (hd parts), im_status = Pending,
         im_error = None, im_receipt_id = None, im_bypass = b, im_user_id = Some (us_id u), im_created_at = w_clock w,
         im_analyzed_at = None, im_processing_at = None, im_additional = tl parts, im_model_id = m\<rparr>"
    and st: "v = w\<lparr>w_tick := Suc (w_tick w), images_t := images_t w @ [i]\<rparr>" "\<not> has_image w (im_id i)"
    by (auto simp: store_image_def bind_def gen_uuid_def insert_image_def has_image_def split: if_splits)
  show ?thesis
  proof (rule that [OF st(1)])
    show "submitted u (length parts) b m i" using assms(2) by (simp add: v submitted_def image_parts_def)
    show "im_id i \<notin> im_id ` set (images_t w)" using st(2) by (auto simp: has_image_def sql_exists_iff)
  qed (simp_all add: v)
qed

text \<open>What follows once the submission has been stored: it waits, or it is claimed and analyzed.\<close>

definition upload_rest ::
  "app \<Rightarrow> user \<Rightarrow> bool \<Rightarrow> string option \<Rightarrow> image_part list \<Rightarrow> model_info list \<Rightarrow> image_row \<Rightarrow> (world, upload_response) py" where
  "upload_rest ap u b model parts models img =
     (if 1 < length parts then ret (queued (im_id img) None True)
      else if models = [] then ret (queued (im_id img) (Some PENDING_QUEUE_WARNING) False)
      else bind (claim_for_analysis (im_id img)) (\<lambda>claimed. case claimed of
        None \<Rightarrow> ret (queued (im_id img) (Some PENDING_QUEUE_WARNING) False)
      | Some img \<Rightarrow> analyse_upload ap u b (upload_model (ap_preferred ap) model models) (hd parts) img))"

lemma upload_stored:
  assumes "db_ok w" and "upload_image ap u ups model bypass_review w = (Inr rp, v)"
    and "b = (case bypass_review of None \<Rightarrow> ap_bypass_default ap | Some b \<Rightarrow> b)"
  obtains parts models img w3 where "db_ok w3" "img \<in> set (images_t w3)" "im_id img \<notin> im_id ` set (images_t w)"
    "submitted u (length ups) b model img" "length parts = length ups" "im_status img = Pending" "im_receipt_id img = None"
    "im_processing_at img = None" "upload_rest ap u b model parts models img w3 = (Inr rp, v)"
proof -
  obtain parts models img w1 w2 w3 where n: "1 \<le> length ups" and p: "store_photos (ap_images ap) ups w = (Inr parts, w1)"
    and m: "(if length parts = 1 then discover_models (ap_provider ap) else ret []) w1 = (Inr models, w2)"
    and st: "store_upload u b model parts w2 = (Inr img, w3)" and rest: "upload_rest ap u b model parts models img w3 = (Inr rp, v)"
    using assms(2) unfolding upload_image_def assms(3) [symmetric] Let_def upload_rest_def [symmetric]
    by (auto simp: seq_eq_Inr require_db_Inr bind_eq_Inr guard_eq_Inr)
  have len: "length parts = length ups" using p store_parts_length [of "ap_images ap" ups "[]"]
    by (fastforce simp: store_photos_def bind_eq_Inr seq_eq_Inr split: option.splits)
  have same: "images_t w1 = images_t w" "db_ok w1"
    using keeps_run [OF only_files_tables [OF store_photos_files, of "\<lambda>x. images_t x = images_t w"] _ p]
      keeps_run [OF only_files_keeps [OF store_photos_files] assms(1) p] by auto
  obtain c where w2: "w2 = w1\<lparr>w_clock := c\<rparr>" using m models_run [of "length parts = 1" "ap_provider ap" w1] by auto
  have ne: "parts \<noteq> []" using n len by auto
  obtain t where w3: "w3 = w2\<lparr>w_tick := t, images_t := images_t w2 @ [img]\<rparr>" and sub: "submitted u (length parts) b model img"
    and i: "im_status img = Pending" "im_receipt_id img = None" "im_processing_at img = None" "im_id img \<notin> im_id ` set (images_t w2)"
    by (rule store_upload_run [OF st ne])
  have "db_ok w3" using keeps_run [OF store_upload_ok _ st] same(2) by (simp add: w2)
  moreover have "img \<in> set (images_t w3)" by (simp add: w3)
  moreover have "im_id img \<notin> im_id ` set (images_t w)" using i(4) same(1) by (simp add: w2)
  ultimately show ?thesis using that sub i rest len by metis
qed

lemma upload_rest_cases:
  assumes "db_ok w" and "upload_rest ap u b model parts models img w = (Inr rp, v)"
  obtains (waiting) s x where "rp = queued (im_id img) s x" "v = w" "1 < length parts \<longrightarrow> x"
  | (claimed) img' w4 where "length parts \<le> 1" "claim_for_analysis (im_id img) w = (Inr (Some img'), w4)"
      "analyse_upload ap u b (upload_model (ap_preferred ap) model models) (hd parts) img' w4 = (Inr rp, v)"
proof (cases "length parts \<le> 1 \<and> models \<noteq> []")
  case True
  then have body: "bind (claim_for_analysis (im_id img)) (\<lambda>claimed. case claimed of
        None \<Rightarrow> ret (queued (im_id img) (Some PENDING_QUEUE_WARNING) False)
      | Some img \<Rightarrow> analyse_upload ap u b (upload_model (ap_preferred ap) model models) (hd parts) img) w = (Inr rp, v)"
    using assms(2) by (simp add: upload_rest_def)
  show ?thesis
  proof (rule claim_cases [OF assms(1), of "im_id img"])
    assume "claim_for_analysis (im_id img) w = (Inr None, w)"
    then show ?thesis using body True waiting [of "Some PENDING_QUEUE_WARNING" False] by simp
  next
    fix i assume g: "claim_for_analysis (im_id img) w = (Inr (Some (take_image (w_clock w) i)),
       w\<lparr>images_t := sql_update (\<lambda>j. im_id j = im_id img) (take_image (w_clock w)) (images_t w)\<rparr>)"
    show ?thesis using body True claimed [OF _ g] g by simp
  qed
next
  case False
  then show ?thesis using assms(2) waiting by (auto simp: upload_rest_def split: if_splits)
qed

lemma claimed_row:
  assumes "db_ok w" and "img \<in> set (images_t w)" and "submitted u n b model img" and "im_receipt_id img = None"
    and "claim_for_analysis (im_id img) w = (Inr (Some img'), v)"
  shows "im_id img' = im_id img \<and> db_ok v
    \<and> row_of (im_id img') (\<lambda>j. submitted u n b model j \<and> im_receipt_id j = None) v"
proof -
  obtain i0 where i0: "i0 \<in> set (images_t w)" "im_id i0 = im_id img" "img' = take_image (w_clock w) i0"
    "v = w\<lparr>images_t := sql_update (\<lambda>j. im_id j = im_id img) (take_image (w_clock w)) (images_t w)\<rparr>"
    using claim_granted [OF assms(1,5)] by blast
  have "i0 = img" using image_unique [OF assms(1) i0(1) assms(2) i0(2)] .
  then have id: "im_id img' = im_id img" and row: "take_image (w_clock w) img \<in> set (images_t v)"
    using assms(2) i0(3) by (auto simp: i0(4) set_sql_update take_image_def)
  have "row_of (im_id img') (\<lambda>j. submitted u n b model j \<and> im_receipt_id j = None) v"
    using assms(3,4) id by (intro row_ofI [OF row]) (simp_all add: take_image_def submitted_def image_parts_def)
  then show ?thesis using id keeps_run [OF image_ops_ok(4) assms(1,5)] by simp
qed

text \<open>
  Property C5: a response to an upload tells the truth. After a successful response there is exactly the new
  submission it names, owned by the caller, with the photos, the model and the review choice of the
  request, and its row has the status, the receipt (which exists) and the error the response gives:
  202 for a waiting one (always with several photos), 201 for an analyzed one, 504 and 422 for one
  that timed out or could not be read.
\<close>

theorem upload_reports_truth:
  assumes "db_ok w" and "upload_image ap u ups model bypass_review w = (Inr rp, v)"
  shows "db_ok v \<and> rp_image rp \<notin> im_id ` set (images_t w) \<and> ref_opt (has_receipt v) (rp_receipt rp)
    \<and> row_of (rp_image rp) (\<lambda>j. submitted u (length ups)
          (case bypass_review of None \<Rightarrow> ap_bypass_default ap | Some b \<Rightarrow> b) model j \<and> says rp j) v
    \<and> (1 < length ups \<longrightarrow> rp_code rp = 202 \<and> rp_wakes rp)"
proof -
  define b where "b = (case bypass_review of None \<Rightarrow> ap_bypass_default ap | Some b \<Rightarrow> b)"
  obtain parts models img w3 where ok3: "db_ok w3" and mem: "img \<in> set (images_t w3)"
    and new: "im_id img \<notin> im_id ` set (images_t w)" and sub: "submitted u (length ups) b model img"
    and len: "length parts = length ups" and i: "im_status img = Pending" "im_receipt_id img = None" "im_processing_at img = None"
    and rest: "upload_rest ap u b model parts models img w3 = (Inr rp, v)"
    by (rule upload_stored [OF assms b_def])
  have ok: "db_ok v" using keeps_run [OF upload_ok assms(1,2)] .
  show ?thesis
  proof (rule upload_rest_cases [OF ok3 rest])
    fix s x assume w: "rp = queued (im_id img) s x" "v = w3" "1 < length parts \<longrightarrow> x"
    have "row_of (im_id img) (\<lambda>j. submitted u (length ups) b model j \<and> says (queued (im_id img) s x) j) w3"
      using sub i by (intro row_ofI [OF mem refl]) (simp add: says_def queued_def)
    then show ?thesis using w ok new len by (simp add: b_def queued_def)
  next
    fix img' w4 assume c: "length parts \<le> 1" "claim_for_analysis (im_id img) w3 = (Inr (Some img'), w4)"
      "analyse_upload ap u b (upload_model (ap_preferred ap) model models) (hd parts) img' w4 = (Inr rp, v)"
    have r: "im_id img' = im_id img \<and> db_ok w4
        \<and> row_of (im_id img') (\<lambda>j. submitted u (length ups) b model j \<and> im_receipt_id j = None) w4"
      by (rule claimed_row [OF ok3 mem sub i(2) c(2)])
    then have "rp_image rp = im_id img' \<and> row_of (im_id img') (\<lambda>j. submitted u (length ups) b model j \<and> says rp j) v
        \<and> ref_opt (has_receipt v) (rp_receipt rp)"
      by (intro analyse_upload_truth [OF _ _ c(3)]) blast+
    then show ?thesis using r ok new len c(1) unfolding b_def [symmetric] by simp
  qed
qed

section \<open>A refused upload leaves nothing behind\<close>

text \<open>The answer to a photo that is not stored, and to a whole request, before anything is looked up.\<close>

definition photo_refusal :: "image_cfg \<Rightarrow> upload \<Rightarrow> exn option" where
  "photo_refusal cfg up =
     (if MAX_PHOTO < int (length (up_content up)) then Some (HTTPError 413 ''Each photo must be at most 20 MB'')
      else if get_media_type cfg (up_content up) \<notin> set ALLOWED_IMAGE_TYPES then Some (HTTPError 415 ''Unsupported image type'')
      else if up_content up = [] then Some (ValueError ''size_bytes must be greater than 0'') else None)"

definition upload_refusal :: "image_cfg \<Rightarrow> upload list \<Rightarrow> exn option" where
  "upload_refusal cfg ups =
     (if \<not> (1 \<le> length ups \<and> length ups \<le> 10) then Some (HTTPError 422 ''Upload between 1 and 10 photos of one receipt'')
      else (case filter (\<lambda>up. photo_refusal cfg up \<noteq> None) ups of [] \<Rightarrow> None | up # _ \<Rightarrow> photo_refusal cfg up))"

definition tmp_name :: "image_cfg \<Rightarrow> uuid \<Rightarrow> string" where
  "tmp_name cfg k = path_join (ic_tmp cfg) (''temp_'' @ uuid_str k @ ''.png'')"

text \<open>The names the next temporary files get are not in use, nor their thumbnails'.\<close>

definition names_free :: "image_cfg \<Rightarrow> (string \<Rightarrow> string option) \<Rightarrow> world \<Rightarrow> bool" where
  "names_free cfg g w \<longleftrightarrow> (\<forall>n \<ge> w_tick w. g (tmp_name cfg (w_supply w n)) = None
     \<and> g (thumb_for (tmp_name cfg (w_supply w n))) = None)"

text \<open>The files are those of \<open>g\<close>, but for temporary photos \<open>ps\<close> and their thumbnails, which were not there.\<close>

definition only_photos :: "image_cfg \<Rightarrow> (string \<Rightarrow> string option) \<Rightarrow> string set \<Rightarrow> world \<Rightarrow> bool" where
  "only_photos cfg g ps w \<longleftrightarrow> (\<forall>p \<in> ps. path_parent p = ic_tmp cfg \<and> g p = None \<and> g (thumb_for p) = None)
     \<and> (\<forall>q. q \<notin> ps \<union> thumb_for ` ps \<longrightarrow> w_files w q = g q) \<and> (\<forall>p \<in> ps. w_files w p \<noteq> None)"

lemma thumb_not_photo: "path_parent p = ic_tmp cfg \<Longrightarrow> path_parent q = ic_tmp cfg \<Longrightarrow> thumb_for p \<noteq> q"
  using parent_thumb [of p] path_join_neq(1) by metis

lemma store_part_refused: "photo_refusal cfg up = Some e \<Longrightarrow> store_part cfg up w = (Inl e, w)"
  by (auto simp: photo_refusal_def store_part_def validate_and_inspect_def Let_def catch_def seq_def bind_def guard_def
      split: if_splits)

lemma store_part_run:
  assumes "photo_refusal cfg up = None" and "names_free cfg g w" and "only_photos cfg g ps w"
  shows "\<exists>p f. store_part cfg up w = (Inr p, w\<lparr>w_tick := Suc (w_tick w), w_files := f\<rparr>)
    \<and> only_photos cfg g (insert (part_path p) ps) (w\<lparr>w_tick := Suc (w_tick w), w_files := f\<rparr>)"
proof -
  let ?p = "tmp_name cfg (w_supply w (w_tick w))"
  let ?w1 = "w\<lparr>w_tick := Suc (w_tick w), w_files := (w_files w)(?p := Some (up_content up))\<rparr>"
  have par: "path_parent ?p = ic_tmp cfg" by (simp add: tmp_name_def)
  have tmp: "store_tmp_image cfg (up_content up) w = (Inr ?p, ?w1)"
    by (simp add: store_tmp_image_def gen_uuid_def bind_def seq_def write_file_def tmp_name_def Let_def)
  have neq: "thumb_for ?p \<noteq> ?p" using thumb_not_photo [OF par par] .
  obtain th f where th: "generate_thumbnail cfg ?p ?w1 = (Inr th, ?w1\<lparr>w_files := f\<rparr>)"
    and f: "\<forall>q. q \<noteq> thumb_for ?p \<longrightarrow> f q = w_files ?w1 q"
  proof (cases "ic_thumb cfg (up_content up)")
    case None
    then show ?thesis by (intro that [of None "w_files ?w1"]) (simp_all add: generate_thumbnail_def)
  next
    case (Some t)
    then show ?thesis
      by (intro that [of "Some (thumb_for ?p)" "(w_files ?w1)(thumb_for ?p := Some t)"])
        (simp_all add: generate_thumbnail_def write_file_def)
  qed
  let ?part = "\<lparr>part_path = ?p, part_thumb = th, part_filename = up_filename up,
    part_media = Some (get_media_type cfg (up_content up)), part_size = Some (int (length (up_content up)))\<rparr>"
  have small: "int (length (up_content up)) \<le> MAX_PHOTO" "get_media_type cfg (up_content up) \<in> set ALLOWED_IMAGE_TYPES"
    "up_content up \<noteq> []" using assms(1) by (auto simp: photo_refusal_def split: if_splits)
  have val: "catch (validate_and_inspect cfg (up_content up)) h w
      = (Inr (get_media_type cfg (up_content up), int (length (up_content up))), w)" for h
    using small(2,3) by (simp add: validate_and_inspect_def Let_def catch_def)
  have run: "store_part cfg up w = (Inr ?part, ?w1\<lparr>w_files := f\<rparr>)"
    unfolding store_part_def seq_def
    by (simp only: small(1) guard_True bind_ret) (simp only: bind_def val tmp th prod.case sum.case fst_conv snd_conv ret_apply)
  have "only_photos cfg g (insert ?p ps) (?w1\<lparr>w_files := f\<rparr>)"
    unfolding only_photos_def
  proof (intro conjI)
    have kept: "f q = w_files ?w1 q" if "path_parent q = ic_tmp cfg" for q
      using f thumb_not_photo [OF par that] by metis
    show "\<forall>p \<in> insert ?p ps. w_files (?w1\<lparr>w_files := f\<rparr>) p \<noteq> None"
      using assms(3) kept par by (auto simp: only_photos_def)
    show "\<forall>p \<in> insert ?p ps. path_parent p = ic_tmp cfg \<and> g p = None \<and> g (thumb_for p) = None"
      using assms(2,3) par by (simp add: only_photos_def names_free_def)
    show "\<forall>q. q \<notin> insert ?p ps \<union> thumb_for ` insert ?p ps \<longrightarrow> w_files (?w1\<lparr>w_files := f\<rparr>) q = g q"
      using assms(3) f by (simp add: only_photos_def)
  qed
  then show ?thesis using run by (intro exI [of _ ?part] exI [of _ f]) simp
qed


text \<open>Deleting the photos restores the files.\<close>

lemma delete_photo_run:
  assumes "path_parent p = ic_tmp cfg"
  shows "delete_image (Some p) w = (Inr (file_exists p w), if file_exists p w
    then w\<lparr>w_files := (w_files w)(p := None, thumb_for p := None)\<rparr> else w)"
  by (rule delete_image_run) (use thumb_not_photo [OF assms assms] in simp)

lemma delete_parts_run:
  assumes "only_photos cfg g (part_path ` set ps) w"
  shows "delete_parts ps w = (Inr (), w\<lparr>w_files := g\<rparr>)"
proof -
  have "delete_parts ps v = (Inr (), v\<lparr>w_files := g\<rparr>)"
    if "\<forall>p \<in> part_path ` set ps. path_parent p = ic_tmp cfg \<and> g p = None \<and> g (thumb_for p) = None"
      "\<forall>q. q \<notin> part_path ` set ps \<union> thumb_for ` part_path ` set ps \<longrightarrow> w_files v q = g q"
      "\<forall>p \<in> part_path ` set ps. w_files v p = None \<longrightarrow> w_files v (thumb_for p) = None" for v
    using that
  proof (induction ps arbitrary: v)
    case Nil
    then have "w_files v = g" by auto
    then show ?case by (simp add: delete_parts_def)
  next
    case (Cons p ps)
    let ?p = "part_path p"
    let ?v = "if file_exists ?p v then v\<lparr>w_files := (w_files v)(?p := None, thumb_for ?p := None)\<rparr> else v"
    have par: "path_parent ?p = ic_tmp cfg" using Cons.prems(1) by simp
    have one: "delete_image (Some ?p) v = (Inr (file_exists ?p v), ?v)" by (rule delete_photo_run [OF par])
    have gone: "w_files ?v ?p = None \<and> w_files ?v (thumb_for ?p) = None"
      using Cons.prems(3) by (auto simp: file_exists_def)
    have other: "q \<noteq> ?p \<Longrightarrow> q \<noteq> thumb_for ?p \<Longrightarrow> w_files ?v q = w_files v q" for q by simp
    have "delete_parts ps ?v = (Inr (), ?v\<lparr>w_files := g\<rparr>)"
    proof (rule Cons.IH)
      show "\<forall>p \<in> part_path ` set ps. path_parent p = ic_tmp cfg \<and> g p = None \<and> g (thumb_for p) = None"
        using Cons.prems(1) by simp
      show "\<forall>q. q \<notin> part_path ` set ps \<union> thumb_for ` part_path ` set ps \<longrightarrow> w_files ?v q = g q"
      proof (intro allI impI)
        fix q assume q: "q \<notin> part_path ` set ps \<union> thumb_for ` part_path ` set ps"
        show "w_files ?v q = g q"
        proof (cases "q = ?p \<or> q = thumb_for ?p")
          case True
          then show ?thesis using gone Cons.prems(1) by auto
        next
          case False
          then show ?thesis using other [of q] Cons.prems(2) q by simp
        qed
      qed
      show "\<forall>q \<in> part_path ` set ps. w_files ?v q = None \<longrightarrow> w_files ?v (thumb_for q) = None"
      proof (intro ballI impI)
        fix q assume q: "q \<in> part_path ` set ps" "w_files ?v q = None"
        show "w_files ?v (thumb_for q) = None"
        proof (cases "q = ?p")
          case True
          then show ?thesis using gone by simp
        next
          case False
          have "path_parent q = ic_tmp cfg" using Cons.prems(1) q(1) by auto
          then have "w_files v q = None" using q(2) False other [of q] thumb_not_photo [OF par] by metis
          then have "w_files v (thumb_for q) = None" using Cons.prems(3) q(1) by auto
          then show ?thesis by simp
        qed
      qed
    qed
    then show ?case using one by (simp add: delete_parts_def seq_def bind_def split: if_splits)
  qed
  then show ?thesis using assms unfolding only_photos_def by blast
qed

lemma store_parts_run:
  assumes "only_photos cfg g (part_path ` set ps) w" and "names_free cfg g w"
  shows "\<exists>qs f n. store_parts cfg ups ps w =
      (Inr (qs, case filter (\<lambda>up. photo_refusal cfg up \<noteq> None) ups of [] \<Rightarrow> None | up # _ \<Rightarrow> photo_refusal cfg up),
       w\<lparr>w_tick := n, w_files := f\<rparr>)
    \<and> only_photos cfg g (part_path ` set qs) (w\<lparr>w_tick := n, w_files := f\<rparr>)"
  using assms
proof (induction ups arbitrary: ps w)
  case Nil
  then show ?case by (intro exI [of _ ps] exI [of _ "w_files w"] exI [of _ "w_tick w"]) simp
next
  case (Cons up ups)
  show ?case
  proof (cases "photo_refusal cfg up")
    case (Some e)
    have "store_parts cfg (up # ups) ps w = (Inr (ps, Some e), w)" using store_part_refused [OF Some] by (simp add: bind_def)
    then show ?thesis using Some Cons.prems(1) by (intro exI [of _ ps] exI [of _ "w_files w"] exI [of _ "w_tick w"]) simp
  next
    case None
    obtain p f where p: "store_part cfg up w = (Inr p, w\<lparr>w_tick := Suc (w_tick w), w_files := f\<rparr>)"
      "only_photos cfg g (insert (part_path p) (part_path ` set ps)) (w\<lparr>w_tick := Suc (w_tick w), w_files := f\<rparr>)"
      using store_part_run [OF None Cons.prems(2,1)] by blast
    let ?w1 = "w\<lparr>w_tick := Suc (w_tick w), w_files := f\<rparr>"
    have "only_photos cfg g (part_path ` set (ps @ [p])) ?w1" "names_free cfg g ?w1"
      using p(2) Cons.prems(2) by (simp_all add: names_free_def)
    from Cons.IH [OF this] p(1) None show ?thesis by (auto simp: bind_def)
  qed
qed

lemma store_photos_run:
  assumes "names_free cfg (w_files w) w"
  shows "case filter (\<lambda>up. photo_refusal cfg up \<noteq> None) ups of
      [] \<Rightarrow> \<exists>qs f n. store_photos cfg ups w = (Inr qs, w\<lparr>w_tick := n, w_files := f\<rparr>)
          \<and> only_photos cfg (w_files w) (part_path ` set qs) (w\<lparr>w_tick := n, w_files := f\<rparr>)
    | up # _ \<Rightarrow> \<exists>n. store_photos cfg ups w = (Inl (the (photo_refusal cfg up)), w\<lparr>w_tick := n\<rparr>)"
proof -
  have start: "only_photos cfg (w_files w) (part_path ` set []) w" by (simp add: only_photos_def)
  obtain qs f n where run: "store_parts cfg ups [] w =
      (Inr (qs, case filter (\<lambda>up. photo_refusal cfg up \<noteq> None) ups of [] \<Rightarrow> None | up # _ \<Rightarrow> photo_refusal cfg up),
       w\<lparr>w_tick := n, w_files := f\<rparr>)"
    and ph: "only_photos cfg (w_files w) (part_path ` set qs) (w\<lparr>w_tick := n, w_files := f\<rparr>)"
    using store_parts_run [OF start assms] by blast
  show ?thesis
  proof (cases "filter (\<lambda>up. photo_refusal cfg up \<noteq> None) ups")
    case Nil
    then show ?thesis using run ph by (auto simp: store_photos_def bind_def)
  next
    case (Cons up rest)
    then have "up \<in> set (filter (\<lambda>up. photo_refusal cfg up \<noteq> None) ups)" by simp
    then obtain e where e: "photo_refusal cfg up = Some e" by auto
    have "store_photos cfg ups w = (Inl e, w\<lparr>w_tick := n\<rparr>)"
      using run delete_parts_run [OF ph] Cons e by (simp add: store_photos_def bind_def seq_def)
    then show ?thesis using Cons e by auto
  qed
qed

lemma upload_wrong_number:
  assumes "w_db_ready w" and "\<not> (1 \<le> length ups \<and> length ups \<le> 10)"
  shows "upload_image ap u ups model byp w = (Inl (HTTPError 422 ''Upload between 1 and 10 photos of one receipt''), w)"
proof -
  have r: "seq require_db m w = m w" for m :: "(world, upload_response) py" using assms(1) by (simp add: seq_def)
  have g: "seq (guard (1 \<le> length ups \<and> length ups \<le> 10) x) m = raise x" for x and m :: "(world, upload_response) py"
    using assms(2) by (auto simp: seq_def)
  show ?thesis unfolding upload_image_def Let_def r g by simp
qed

text \<open>The account is gone: the row is refused, and the photos are deleted again.\<close>

lemma store_upload_gone:
  assumes "\<not> has_user w (us_id u)" and "only_photos cfg g (part_path ` set ps) w"
  shows "\<exists>e. store_upload u b m ps w = (Inl e, w\<lparr>w_tick := Suc (w_tick w), w_files := g\<rparr>)"
proof -
  let ?v = "w\<lparr>w_tick := Suc (w_tick w)\<rparr>"
  have "\<exists>e. store_image x y z n Pending (Some (us_id u)) b th ad m w = (Inl e, ?v)" for x y z n th ad
    using assms(1) by (auto simp: store_image_def gen_uuid_def bind_def insert_image_def has_user_def)
  then obtain e where "store_image (part_path (hd ps)) (part_filename (hd ps)) (part_media (hd ps)) (part_size (hd ps)) Pending
      (Some (us_id u)) b (part_thumb (hd ps)) (tl ps) m w = (Inl e, ?v)" by blast
  moreover have "delete_parts ps ?v = (Inr (), ?v\<lparr>w_files := g\<rparr>)"
    by (rule delete_parts_run [where cfg = cfg]) (use assms(2) in \<open>simp add: only_photos_def\<close>)
  ultimately show ?thesis by (simp add: store_upload_def Let_def catch_def seq_def)
qed

lemma upload_gone:
  assumes ready: "w_db_ready w" and size: "1 \<le> length ups \<and> length ups \<le> 10" and gone: "\<not> has_user w (us_id u)"
    and st: "store_photos (ap_images ap) ups w = (Inr qs, w\<lparr>w_tick := n, w_files := f\<rparr>)"
    and ph: "only_photos (ap_images ap) (w_files w) (part_path ` set qs) (w\<lparr>w_tick := n, w_files := f\<rparr>)"
  shows "\<exists>e m c. upload_image ap u ups model byp w = (Inl e, w\<lparr>w_tick := m, w_clock := c\<rparr>)"
proof -
  let ?w1 = "w\<lparr>w_tick := n, w_files := f\<rparr>" and ?b = "case byp of None \<Rightarrow> ap_bypass_default ap | Some b \<Rightarrow> b"
  obtain ms c where ms: "(if length qs = 1 then discover_models (ap_provider ap) else ret []) ?w1 = (Inr ms, ?w1\<lparr>w_clock := c\<rparr>)"
    using models_run [of "length qs = 1" "ap_provider ap" ?w1] by blast
  let ?w2 = "?w1\<lparr>w_clock := c\<rparr>"
  have "\<not> has_user ?w2 (us_id u)" using gone by (simp add: has_user_def)
  moreover have "only_photos (ap_images ap) (w_files w) (part_path ` set qs) ?w2" using ph by (simp add: only_photos_def)
  ultimately obtain e where e: "store_upload u ?b model qs ?w2 = (Inl e, w\<lparr>w_tick := Suc n, w_clock := c\<rparr>)"
    using store_upload_gone [of ?w2 u "ap_images ap" "w_files w" qs ?b model] by auto
  have r: "seq require_db m w = m w" for m :: "(world, upload_response) py" using ready by (simp add: seq_def)
  have g: "seq (guard (1 \<le> length ups \<and> length ups \<le> 10) x) m = m" for x and m :: "(world, upload_response) py"
    using size by simp
  have c2: "bind (store_photos (ap_images ap) ups) F w = F qs ?w1" for F :: "_ \<Rightarrow> (world, upload_response) py"
    by (rule bind_Inr) (rule st)
  have c1: "bind (if length qs = 1 then discover_models (ap_provider ap) else ret []) F ?w1 = F ms ?w2"
    for F :: "_ \<Rightarrow> (world, upload_response) py" by (rule bind_Inr) (rule ms)
  have "upload_image ap u ups model byp w = (Inl e, w\<lparr>w_tick := Suc n, w_clock := c\<rparr>)"
    unfolding upload_image_def Let_def r g c2 c1 by (rule bind_Inl) (rule e)
  then show ?thesis by blast
qed

text \<open>
  Property C6: a refused upload leaves nothing behind. Too few or too many photos, a photo that is too large,
  of another type or empty: the request ends with the error of the first one, every table and every
  file is as it was. The same holds if the submission cannot be stored for an account that is gone.
  The names of the new temporary files must not be in use.
\<close>

theorem refused_upload_traceless:
  assumes "w_db_ready w" and "names_free (ap_images ap) (w_files w) w"
  shows "case upload_refusal (ap_images ap) ups of
      Some e \<Rightarrow> \<exists>n. upload_image ap u ups model byp w = (Inl e, w\<lparr>w_tick := n\<rparr>)
    | None \<Rightarrow> \<not> has_user w (us_id u) \<longrightarrow>
        (\<exists>e n c. upload_image ap u ups model byp w = (Inl e, w\<lparr>w_tick := n, w_clock := c\<rparr>))"
proof (cases "1 \<le> length ups \<and> length ups \<le> 10")
  case False
  have "upload_image ap u ups model byp w = (Inl (HTTPError 422 ''Upload between 1 and 10 photos of one receipt''), w\<lparr>w_tick := w_tick w\<rparr>)"
    using upload_wrong_number [OF assms(1) False] by simp
  then show ?thesis using False unfolding upload_refusal_def by (simp only: if_True not_False_eq_True option.case) blast
next
  case size: True
  show ?thesis
  proof (cases "filter (\<lambda>up. photo_refusal (ap_images ap) up \<noteq> None) ups")
    case (Cons up rest)
    then have "up \<in> set (filter (\<lambda>up. photo_refusal (ap_images ap) up \<noteq> None) ups)" by simp
    then obtain e where e: "photo_refusal (ap_images ap) up = Some e" by auto
    obtain n where "store_photos (ap_images ap) ups w = (Inl e, w\<lparr>w_tick := n\<rparr>)"
      using store_photos_run [OF assms(2), of ups] Cons e by auto
    then show ?thesis using size assms(1) Cons e by (auto simp: upload_refusal_def upload_image_def seq_def Let_def)
  next
    case Nil
    then obtain qs f n where "store_photos (ap_images ap) ups w = (Inr qs, w\<lparr>w_tick := n, w_files := f\<rparr>)"
      "only_photos (ap_images ap) (w_files w) (part_path ` set qs) (w\<lparr>w_tick := n, w_files := f\<rparr>)"
      using store_photos_run [OF assms(2), of ups] by auto
    from upload_gone [OF assms(1) size _ this] show ?thesis using Nil size by (simp add: upload_refusal_def)
  qed
qed


section \<open>Samples\<close>

text \<open>Two photos, which wait for the worker.\<close>

definition two_photos :: "upload list" where
  "two_photos = [\<lparr>up_content = ''png'', up_filename = Some ''a.png''\<rparr>, \<lparr>up_content = ''gnp'', up_filename = None\<rparr>]"

lemma two_photos_stored: "\<exists>ps v. store_photos (ap_images sample_app) two_photos sample_world = (Inr ps, v)
    \<and> length ps = 2 \<and> part_filename (hd ps) = Some ''a.png'' \<and> part_media (hd ps) = Some ''image/png'' \<and> same_tables sample_world v \<and> w_tick v = 2"
proof -
  have part: "\<exists>t th v. store_part (ap_images sample_app) \<lparr>up_content = c, up_filename = fn\<rparr> w =
      (Inr \<lparr>part_path = t, part_thumb = th, part_filename = fn, part_media = Some ''image/png'', part_size = Some 3\<rparr>, v)
      \<and> w_tick v = Suc (w_tick w)"
    if "length c = 3" "c \<noteq> []" for c fn w
    using that
    by (auto simp: store_part_def seq_def MAX_PHOTO_def catch_def validate_and_inspect_def get_media_type_def sample_app_def
        sample_cfg_def ALLOWED_IMAGE_TYPES_def Let_def bind_def store_tmp_image_def gen_uuid_def write_file_def generate_thumbnail_def)
  obtain t th v where one: "store_part (ap_images sample_app) \<lparr>up_content = ''png'', up_filename = Some ''a.png''\<rparr> sample_world =
      (Inr \<lparr>part_path = t, part_thumb = th, part_filename = Some ''a.png'', part_media = Some ''image/png'', part_size = Some 3\<rparr>, v)"
    "w_tick v = 1" using part [of "''png''" "Some ''a.png''" sample_world] by (auto simp: sample_world_def fresh_world_def)
  obtain t' th' v' where two: "store_part (ap_images sample_app) \<lparr>up_content = ''gnp'', up_filename = None\<rparr> v =
      (Inr \<lparr>part_path = t', part_thumb = th', part_filename = None, part_media = Some ''image/png'', part_size = Some 3\<rparr>, v')"
    "w_tick v' = 2" using part [of "''gnp''" None v] one(2) by auto
  have "same_tables sample_world (snd (store_photos (ap_images sample_app) two_photos sample_world))"
    using store_photos_files by (simp add: only_files_def)
  then show ?thesis using one two by (auto simp: store_photos_def two_photos_def bind_def)
qed

theorem upload_reports_truth_witness:
  "\<exists>rp v. upload_image sample_app ann two_photos None None sample_world = (Inr rp, v)
     \<and> rp_code rp = 202 \<and> row_of (rp_image rp) (\<lambda>j. submitted ann 2 False None j \<and> says rp j) v"
proof -
  obtain ps v where st: "store_photos (ap_images sample_app) two_photos sample_world = (Inr ps, v)" "length ps = 2"
    "part_filename (hd ps) = Some ''a.png''" "part_media (hd ps) = Some ''image/png''" "same_tables sample_world v" "w_tick v = 2"
    using two_photos_stored by blast
  have v: "images_t v = images_t sample_world" "users_t v = users_t sample_world" "w_supply v = w_supply sample_world"
    using st(5) unfolding same_tables_def by (metis (no_types) world.ext_inject world.surjective world.update_convs)+
  have stored: "\<exists>i. store_image p fn md nb Pending (Some (us_id ann)) b th ps' m v = (Inr i, v\<lparr>w_tick := 3, images_t := images_t v @ [i]\<rparr>)"
    if "fn = Some ''a.png''" "md = Some ''image/png''" for p fn md nb b th ps' m
    using that st(6)
    by (simp add: store_image_def gen_uuid_def bind_def insert_image_def varchar_opt_def varchar_def has_image_def has_user_def v
        sql_exists_def sample_world_def fresh_world_def sample_image_def ann_def)
  have "\<exists>i. store_upload ann False None ps v = (Inr i, v\<lparr>w_tick := 3, images_t := images_t v @ [i]\<rparr>)"
  proof -
    obtain i where "store_image (part_path (hd ps)) (part_filename (hd ps)) (part_media (hd ps)) (part_size (hd ps)) Pending
        (Some (us_id ann)) False (part_thumb (hd ps)) (tl ps) None v = (Inr i, v\<lparr>w_tick := 3, images_t := images_t v @ [i]\<rparr>)"
      using stored [OF st(3,4)] by blast
    then show ?thesis by (intro exI [of _ i]) (simp add: store_upload_def Let_def catch_def)
  qed
  then obtain i v' where up: "store_upload ann False None ps v = (Inr i, v')" by blast
  have "w_db_ready sample_world" by (simp add: sample_world_def fresh_world_def)
  then have "upload_image sample_app ann two_photos None None sample_world = (Inr (queued (im_id i) None True), v')"
    using st(1,2) up by (simp add: upload_image_def seq_def Let_def bind_def two_photos_def sample_app_def)
  moreover have "length two_photos = 2" by (simp add: two_photos_def)
  ultimately show ?thesis
    using upload_reports_truth [OF sample_world_ok, of sample_app ann two_photos None None]
    by (intro exI [of _ "queued (im_id i) None True"] exI [of _ v']) (simp add: queued_def sample_app_def)
qed

theorem refused_upload_traceless_witness:
  "\<exists>n. upload_image (sample_app\<lparr>ap_images := sample_cfg\<lparr>ic_sniff := (\<lambda>_. ''text/plain'')\<rparr>\<rparr>) ann
     [\<lparr>up_content = ''abc'', up_filename = None\<rparr>] None None sample_world
   = (Inl (HTTPError 415 ''Unsupported image type''), sample_world\<lparr>w_tick := n\<rparr>)"
proof -
  let ?ap = "sample_app\<lparr>ap_images := sample_cfg\<lparr>ic_sniff := (\<lambda>_. ''text/plain'')\<rparr>\<rparr>"
  have "names_free (ap_images ?ap) (w_files sample_world) sample_world" "w_db_ready sample_world"
    by (simp_all add: names_free_def sample_world_def fresh_world_def)
  moreover have "upload_refusal (ap_images ?ap) [\<lparr>up_content = ''abc'', up_filename = None\<rparr>] = Some (HTTPError 415 ''Unsupported image type'')"
    by (simp add: upload_refusal_def photo_refusal_def get_media_type_def ALLOWED_IMAGE_TYPES_def MAX_PHOTO_def)
  ultimately show ?thesis
    using refused_upload_traceless [of sample_world ?ap ann "[\<lparr>up_content = ''abc'', up_filename = None\<rparr>]" None None] by simp
qed

end
