(* ===== verification/Settings.thy ===== *)
theory Settings
  imports Auth
begin

text \<open>
  config.py and api/system/main.py: the settings of the process, where each editable one comes from,
  the configuration file and the administrator's settings page. Parameters are the YAML library and
  the disk (\<open>disk\<close>), which may fail at any step of writing the file. Environment, files and settings are
  the state \<open>process\<close>; a request also sees the database, so a server is the pair of both.
\<close>

section \<open>Settings\<close>

record llm_settings =
  ls_provider :: provider_kind
  ls_host :: string
  ls_api_key :: string
  ls_model :: string
  ls_temperature :: rat
  ls_timeout :: rat

record api_settings =
  as_port :: int
  as_log_level :: string

record image_settings =
  is_save_dir :: string
  is_tmp_dir :: string
  is_bypass :: bool
  is_max_edge :: int
  is_quality :: int

record pg_settings =
  pg_user :: string
  pg_password :: string
  pg_name :: string
  pg_host :: string
  pg_port :: int

record settings =
  st_api :: api_settings
  st_images :: image_settings
  st_llm :: llm_settings
  st_pg :: pg_settings
  st_interval :: int
  st_auth :: auth_cfg

definition valid_settings :: "settings \<Rightarrow> bool" where
  "valid_settings s \<longleftrightarrow> 0 < ls_timeout (st_llm s) \<and> ls_timeout (st_llm s) \<le> 600 \<and> 64 \<le> is_max_edge (st_images s)
     \<and> 1 \<le> is_quality (st_images s) \<and> is_quality (st_images s) \<le> 100 \<and> 1 \<le> st_interval s"

definition pg_dsn :: "pg_settings \<Rightarrow> string" where
  "pg_dsn g = ''postgresql://'' @ pg_user g @ '':'' @ pg_password g @ ''@'' @ pg_host g @ '':'' @ int_str (pg_port g) @ ''/'' @ pg_name g"

fun provider_name :: "provider_kind \<Rightarrow> string" where
  "provider_name OLLAMA = ''ollama''"
| "provider_name ANTHROPIC = ''anthropic''"
| "provider_name OPENAI = ''openai''"

text \<open>\<open>model_dump(mode="json")\<close> without the two computed fields of the database section.\<close>

definition json_opt :: "string option \<Rightarrow> json" where
  "json_opt x = (case x of None \<Rightarrow> JNull | Some s \<Rightarrow> JStr s)"

definition dump_settings :: "settings \<Rightarrow> json" where
  "dump_settings s = JObj
     [(''api'', JObj [(''port'', JInt (as_port (st_api s))), (''log_level'', JStr (as_log_level (st_api s)))]),
      (''images'', JObj [(''save_dir'', JStr (is_save_dir (st_images s))), (''tmp_dir'', JStr (is_tmp_dir (st_images s))),
         (''bypass_review_default'', JBool (is_bypass (st_images s))), (''thumbnail_max_edge'', JInt (is_max_edge (st_images s))),
         (''thumbnail_quality'', JInt (is_quality (st_images s)))]),
      (''llm'', JObj [(''provider'', JStr (provider_name (ls_provider (st_llm s)))), (''host'', JStr (ls_host (st_llm s))),
         (''api_key'', JStr (ls_api_key (st_llm s))), (''model_name'', JStr (ls_model (st_llm s))),
         (''temperature'', JNum (ls_temperature (st_llm s))), (''analysis_timeout_seconds'', JNum (ls_timeout (st_llm s)))]),
      (''pg'', JObj [(''user'', JStr (pg_user (st_pg s))), (''password'', JStr (pg_password (st_pg s))), (''db'', JStr (pg_name (st_pg s))),
         (''host'', JStr (pg_host (st_pg s))), (''port'', JInt (pg_port (st_pg s)))]),
      (''worker'', JObj [(''check_interval_seconds'', JInt (st_interval s))]),
      (''auth'', JObj [(''secret_key'', JStr (ac_secret (st_auth s))), (''session_cookie_name'', JStr (ac_cookie (st_auth s))),
         (''session_max_age_seconds'', JInt (ac_max_age (st_auth s))), (''session_secure'', JBool (ac_secure (st_auth s))),
         (''bootstrap_username'', json_opt (ac_boot_username (st_auth s))), (''bootstrap_password'', json_opt (ac_boot_password (st_auth s))),
         (''allow_registration'', JBool (ac_allow_registration (st_auth s))),
         (''admin_can_see_all'', JBool (ac_admin_sees_all (st_auth s))), (''pepper'', json_opt (ac_pepper (st_auth s)))])]"

section \<open>The process and its disk\<close>

record process =
  pr_settings :: settings
  pr_started :: "(provider_kind \<times> string) option"
  pr_env :: "(string \<times> string) list"
  pr_files :: "string \<Rightarrow> string option"
  pr_temperature :: "rat option"

text \<open>
  \<open>dk_load\<close> is \<open>yaml.safe_load\<close> (None: YAMLError), \<open>dk_dump\<close> is \<open>yaml.safe_dump\<close>, \<open>dk_unreadable\<close> holds where reading
  raises OSError, \<open>dk_fault\<close> is the step of writing (make the directory, open, write, chmod, rename)
  that raises OSError, and \<open>dk_torn\<close> what an interrupted write leaves.
\<close>

record disk =
  dk_expand :: "string \<Rightarrow> string"
  dk_load :: "string \<Rightarrow> json option"
  dk_dump :: "json \<Rightarrow> string"
  dk_unreadable :: "string \<Rightarrow> bool"
  dk_fault :: "nat option"
  dk_torn :: "string \<Rightarrow> string"

definition CONFIG_PATH_ENV :: string where
  "CONFIG_PATH_ENV = ''VISION_BILL_CONFIG_PATH''"

definition DEFAULT_CONFIG_PATH :: string where
  "DEFAULT_CONFIG_PATH = ''/app/config/config.yaml''"

definition EDITABLE_ENV_KEYS :: "(string \<times> string) list" where
  "EDITABLE_ENV_KEYS = [(''llm.provider'', ''LLM__PROVIDER''), (''llm.host'', ''LLM__HOST''), (''llm.model_name'', ''LLM__MODEL_NAME''),
     (''llm.temperature'', ''LLM__TEMPERATURE''), (''auth.allow_registration'', ''AUTH__ALLOW_REGISTRATION'')]"

definition get_config_path :: "disk \<Rightarrow> process \<Rightarrow> string" where
  "get_config_path dk p = dk_expand dk (case map_of (pr_env p) CONFIG_PATH_ENV of None \<Rightarrow> DEFAULT_CONFIG_PATH | Some s \<Rightarrow> s)"

definition read_yaml_config :: "disk \<Rightarrow> process \<Rightarrow> string \<Rightarrow> (string \<times> json) list" where
  "read_yaml_config dk p path = (case pr_files p path of
     None \<Rightarrow> []
   | Some content \<Rightarrow> if dk_unreadable dk path then [] else (case dk_load dk content of Some (JObj kvs) \<Rightarrow> kvs | _ \<Rightarrow> []))"

text \<open>\<open>str.splitlines\<close>; the boundaries beyond the characters of HOL are left out.\<close>

definition line_end :: "char \<Rightarrow> bool" where
  "line_end c \<longleftrightarrow> code_of c \<in> {10, 11, 12, 13, 28, 29, 30, 133}"

function splitlines :: "string \<Rightarrow> string list" where
  "splitlines [] = []"
| "splitlines (c # cs) =
     (if line_end c then [] # splitlines (if code_of c = 13 \<and> cs \<noteq> [] \<and> code_of (hd cs) = 10 then tl cs else cs)
      else (case splitlines cs of [] \<Rightarrow> [[c]] | l # ls \<Rightarrow> (c # l) # ls))"
  by pat_completeness auto
termination
  by (relation "measure length") auto

definition dotenv_line :: "string \<Rightarrow> string option" where
  "dotenv_line line = (let s = py_strip line in
     if s = [] \<or> hd s = CHR ''#'' then None
     else (let name = py_strip (takeWhile (\<lambda>c. c \<noteq> CHR ''='') (removeprefix s ''export '')) in
       if name \<in> set (map snd EDITABLE_ENV_KEYS) then Some name else None))"

definition dotenv_names :: "disk \<Rightarrow> process \<Rightarrow> string \<Rightarrow> string list" where
  "dotenv_names dk p path = (case pr_files p path of
     None \<Rightarrow> []
   | Some content \<Rightarrow> if dk_unreadable dk path then [] else List.map_filter dotenv_line (splitlines content))"

definition environment_names :: "disk \<Rightarrow> process \<Rightarrow> string list" where
  "environment_names dk p = map fst (pr_env p) @ dotenv_names dk p ''.env'' @ dotenv_names dk p ''.env.local''"

text \<open>\<open>field_name.split(".", 1)\<close>\<close>

definition field_parts :: "string \<Rightarrow> string \<times> string" where
  "field_parts f = (takeWhile (\<lambda>c. c \<noteq> CHR ''.'') f, tl (dropWhile (\<lambda>c. c \<noteq> CHR ''.'') f))"

definition in_config :: "(string \<times> json) list \<Rightarrow> string \<Rightarrow> bool" where
  "in_config kvs f = (case field_parts f of (section, key) \<Rightarrow>
     (case map_of (rev kvs) section of Some (JObj inner) \<Rightarrow> key \<in> fst ` set inner | _ \<Rightarrow> False))"

definition editable_setting_sources :: "disk \<Rightarrow> process \<Rightarrow> (string \<times> string) list" where
  "editable_setting_sources dk p =
     (let names = environment_names dk p; config = read_yaml_config dk p (get_config_path dk p) in
      map (\<lambda>(field, env). (field, if env \<in> set names then ''environment''
        else if in_config config field then ''config'' else ''default'')) EDITABLE_ENV_KEYS)"

section \<open>Writing the file\<close>

definition disk_step :: "disk \<Rightarrow> nat \<Rightarrow> (process, unit) py" where
  "disk_step dk n = guard (dk_fault dk \<noteq> Some n) (OSError ''disk'')"

definition tmp_config :: "string \<Rightarrow> string" where
  "tmp_config path = path_join (path_parent path) (CHR ''.'' # path_name path @ ''.tmp'')"

definition put_file :: "string \<Rightarrow> string \<Rightarrow> (process, unit) py" where
  "put_file path content = modify (\<lambda>p. p\<lparr>pr_files := (pr_files p)(path \<mapsto> content)\<rparr>)"

definition rename_file :: "string \<Rightarrow> string \<Rightarrow> (process, unit) py" where
  "rename_file a b = modify (\<lambda>p. p\<lparr>pr_files := (pr_files p)(a := None, b := pr_files p a)\<rparr>)"

definition write_config_file :: "disk \<Rightarrow> settings \<Rightarrow> (process, unit) py" where
  "write_config_file dk config =
     bind (gets (get_config_path dk)) (\<lambda>path.
     (let content = dk_dump dk (dump_settings config); temporary = tmp_config path in
      seq (disk_step dk 0)
      (seq (disk_step dk 1)
      (seq (put_file temporary (if dk_fault dk = Some 2 then dk_torn dk content else content))
      (seq (disk_step dk 2)
      (seq (disk_step dk 3)
      (seq (disk_step dk 4)
        (rename_file temporary path))))))))"

definition initialize_config_file :: "disk \<Rightarrow> settings \<Rightarrow> (process, unit) py" where
  "initialize_config_file dk config =
     bind (gets (\<lambda>p. pr_files p (get_config_path dk p) \<noteq> None)) (\<lambda>there.
       if there then ret ()
       else catch (write_config_file dk config) (\<lambda>e. case e of OSError _ \<Rightarrow> ret () | _ \<Rightarrow> raise e))"

definition mark_startup_settings :: "settings \<Rightarrow> (process, unit) py" where
  "mark_startup_settings config = modify (\<lambda>p. p\<lparr>pr_started := Some (ls_provider (st_llm config), ls_host (st_llm config))\<rparr>)"

definition runtime_restart_required :: "settings \<Rightarrow> process \<Rightarrow> bool" where
  "runtime_restart_required config p \<longleftrightarrow> (case pr_started p of None \<Rightarrow> False
     | Some x \<Rightarrow> x \<noteq> (ls_provider (st_llm config), ls_host (st_llm config)))"

section \<open>The settings page\<close>

record settings_update =
  su_provider :: provider_kind
  su_host :: string
  su_model :: string
  su_temperature :: rat
  su_registration :: bool

record settings_view = settings_update +
  sv_sources :: "(string \<times> string) list"
  sv_restart :: bool

definition valid_update :: "settings_update \<Rightarrow> bool" where
  "valid_update u \<longleftrightarrow> su_host u \<noteq> [] \<and> su_model u \<noteq> [] \<and> 0 \<le> su_temperature u \<and> su_temperature u \<le> 2"

text \<open>bypass_review_default and registration_open\<close>

definition get_ui_config :: "(process, bool \<times> bool) py" where
  "get_ui_config = gets (\<lambda>p. (is_bypass (st_images (pr_settings p)), ac_allow_registration (st_auth (pr_settings p))))"

definition current_values :: "settings \<Rightarrow> settings_update" where
  "current_values s = \<lparr>su_provider = ls_provider (st_llm s), su_host = ls_host (st_llm s), su_model = ls_model (st_llm s),
     su_temperature = ls_temperature (st_llm s), su_registration = ac_allow_registration (st_auth s)\<rparr>"

text \<open>The constructor of the view validates its values like the update's.\<close>

definition view_settings :: "disk \<Rightarrow> (process, settings_view) py" where
  "view_settings dk = bind (gets (\<lambda>p. current_values (pr_settings p))) (\<lambda>v.
     seq (guard (valid_update v) (ValueError ''SettingsView''))
       (gets (\<lambda>p. settings_update.extend v
          (settings_view.fields (editable_setting_sources dk p) (runtime_restart_required (pr_settings p) p)))))"

definition field_changes :: "settings_update \<Rightarrow> settings \<Rightarrow> (string \<times> bool) list" where
  "field_changes u s =
     [(''llm.provider'', su_provider u \<noteq> ls_provider (st_llm s)), (''llm.host'', su_host u \<noteq> ls_host (st_llm s)),
      (''llm.model_name'', su_model u \<noteq> ls_model (st_llm s)), (''llm.temperature'', su_temperature u \<noteq> ls_temperature (st_llm s)),
      (''auth.allow_registration'', su_registration u \<noteq> ac_allow_registration (st_auth s))]"

definition locked_changes :: "disk \<Rightarrow> settings_update \<Rightarrow> process \<Rightarrow> string list" where
  "locked_changes dk u p = map fst (filter (\<lambda>(f, changed). map_of (editable_setting_sources dk p) f = Some ''environment'' \<and> changed)
     (field_changes u (pr_settings p)))"

definition apply_update :: "settings_update \<Rightarrow> settings \<Rightarrow> settings" where
  "apply_update u s = s\<lparr>st_llm := (st_llm s)\<lparr>ls_provider := su_provider u, ls_host := su_host u, ls_model := su_model u,
       ls_temperature := su_temperature u\<rparr>,
     st_auth := (st_auth s)\<lparr>ac_allow_registration := su_registration u\<rparr>\<rparr>"

definition update_settings :: "disk \<Rightarrow> settings_update \<Rightarrow> (process, settings_view) py" where
  "update_settings dk u =
     bind (gets (locked_changes dk u)) (\<lambda>locked.
     seq (guard (locked = []) (HTTPError 409
        (''These settings are controlled by environment variables: '' @ py_join '', '' locked)))
     (bind (gets (\<lambda>p. apply_update u (pr_settings p))) (\<lambda>candidate.
      seq (catch (write_config_file dk candidate) (\<lambda>e. case e of
            OSError _ \<Rightarrow> raise (HTTPError 503 ''Could not write application config'') | _ \<Rightarrow> raise e))
      (seq (modify (\<lambda>p. p\<lparr>pr_settings := apply_update u (pr_settings p)\<rparr>))
      (seq (modify (\<lambda>p. p\<lparr>pr_temperature := map_option (\<lambda>_. su_temperature u) (pr_temperature p)\<rparr>))
        (view_settings dk))))))"

section \<open>The server\<close>

record server =
  sv_world :: world
  sv_process :: process

definition on_world :: "(world, 'a) py \<Rightarrow> (server, 'a) py" where
  "on_world m s = (case m (sv_world s) of (r, w) \<Rightarrow> (r, s\<lparr>sv_world := w\<rparr>))"

definition on_process :: "(process, 'a) py \<Rightarrow> (server, 'a) py" where
  "on_process m s = (case m (sv_process s) of (r, p) \<Rightarrow> (r, s\<lparr>sv_process := p\<rparr>))"

text \<open>A route behind \<open>require_admin\<close>, which reads the settings of the moment.\<close>

definition admin_route :: "crypto \<Rightarrow> string option \<Rightarrow> (process, 'a) py \<Rightarrow> (server, 'a) py" where
  "admin_route cy cookie route =
     bind (gets (\<lambda>s. st_auth (pr_settings (sv_process s)))) (\<lambda>a.
     bind (on_world (require_admin cy a cookie)) (\<lambda>_. on_process route))"

definition get_settings_route :: "crypto \<Rightarrow> disk \<Rightarrow> string option \<Rightarrow> (server, settings_view) py" where
  "get_settings_route cy dk cookie = admin_route cy cookie (view_settings dk)"

definition put_settings_route :: "crypto \<Rightarrow> disk \<Rightarrow> string option \<Rightarrow> settings_update \<Rightarrow> (server, settings_view) py" where
  "put_settings_route cy dk cookie u = admin_route cy cookie
     (seq (guard (valid_update u) (HTTPError 422 ''Unprocessable Entity'')) (update_settings dk u))"

text \<open>api/system/llm.py: the models of the provider the settings name, built anew from them.\<close>

definition list_models :: "provider_kind \<Rightarrow> provider \<Rightarrow> provider \<Rightarrow> (world, model_info list) py" where
  "list_models kind ollama openai = bind (lift_result (get_llm_provider kind ollama openai)) (\<lambda>prov. call (p_models prov))"

section \<open>The file is written completely or not at all\<close>

lemma tmp_config_other [simp]: "tmp_config path \<noteq> path"
proof
  assume "tmp_config path = path"
  then have "path_name (tmp_config path) = path_name path" by simp
  then have "CHR ''.'' # path_name path @ ''.tmp'' = path_name path" by (simp add: tmp_config_def)
  then have "length (CHR ''.'' # path_name path @ ''.tmp'') = length (path_name path)" by presburger
  then show False by simp
qed

definition writes :: "disk \<Rightarrow> bool" where
  "writes dk \<longleftrightarrow> dk_fault dk \<notin> Some ` {0, 1, 2, 3, 4}"

lemma write_config_run:
  "\<exists>f. write_config_file dk c p = (if writes dk
      then (Inr (), p\<lparr>pr_files := (pr_files p)(tmp_config (get_config_path dk p) := None,
              get_config_path dk p \<mapsto> dk_dump dk (dump_settings c))\<rparr>)
      else (Inl (OSError ''disk''), p\<lparr>pr_files := f\<rparr>))
    \<and> (\<forall>q. q \<noteq> tmp_config (get_config_path dk p) \<longrightarrow> f q = pr_files p q)"
proof (cases "writes dk")
  case True
  then have steps: "disk_step dk 0 = ret ()" "disk_step dk 1 = ret ()" "disk_step dk 2 = ret ()" "disk_step dk 3 = ret ()"
    "disk_step dk 4 = ret ()" "dk_fault dk \<noteq> Some 2" by (auto simp: disk_step_def writes_def guard_def)
  show ?thesis
    by (intro exI [of _ "pr_files p"])
      (simp add: write_config_file_def steps [unfolded One_nat_def] steps True put_file_def rename_file_def Let_def)
next
  case False
  let ?tmp = "tmp_config (get_config_path dk p)"
  let ?c = "if dk_fault dk = Some 2 then dk_torn dk (dk_dump dk (dump_settings c)) else dk_dump dk (dump_settings c)"
  from False consider "dk_fault dk \<in> {Some 0, Some 1}" | "dk_fault dk \<in> {Some 2, Some 3, Some 4}" by (auto simp: writes_def)
  then show ?thesis
  proof cases
    case 1
    then show ?thesis using False
      by (intro exI [of _ "pr_files p"])
        (auto simp: write_config_file_def disk_step_def seq_def Let_def)
  next
    case 2
    then show ?thesis using False
      by (intro exI [of _ "(pr_files p)(?tmp \<mapsto> ?c)"])
        (auto simp: write_config_file_def disk_step_def seq_def put_file_def Let_def)
  qed
qed

lemma current_of_applied [simp]: "current_values (apply_update u s) = u"
  by (cases u) (simp add: current_values_def apply_update_def)

definition saved :: "disk \<Rightarrow> settings_update \<Rightarrow> process \<Rightarrow> process" where
  "saved dk u p = p\<lparr>pr_files := (pr_files p)(tmp_config (get_config_path dk p) := None,
       get_config_path dk p \<mapsto> dk_dump dk (dump_settings (apply_update u (pr_settings p)))),
     pr_settings := apply_update u (pr_settings p),
     pr_temperature := map_option (\<lambda>_. su_temperature u) (pr_temperature p)\<rparr>"

lemma update_settings_run:
  assumes "valid_update u"
  shows "\<exists>f m. update_settings dk u p =
      (if locked_changes dk u p \<noteq> [] then (Inl (HTTPError 409 m), p)
       else if \<not> writes dk then (Inl (HTTPError 503 ''Could not write application config''), p\<lparr>pr_files := f\<rparr>)
       else (Inr (settings_update.extend u (settings_view.fields (editable_setting_sources dk (saved dk u p))
           (runtime_restart_required (pr_settings (saved dk u p)) (saved dk u p)))), saved dk u p))
    \<and> (\<forall>q. q \<noteq> tmp_config (get_config_path dk p) \<longrightarrow> f q = pr_files p q)"
proof -
  obtain f where w: "write_config_file dk (apply_update u (pr_settings p)) p = (if writes dk
      then (Inr (), p\<lparr>pr_files := (pr_files p)(tmp_config (get_config_path dk p) := None,
              get_config_path dk p \<mapsto> dk_dump dk (dump_settings (apply_update u (pr_settings p))))\<rparr>)
      else (Inl (OSError ''disk''), p\<lparr>pr_files := f\<rparr>))"
    and f: "\<forall>q. q \<noteq> tmp_config (get_config_path dk p) \<longrightarrow> f q = pr_files p q"
    using write_config_run [of dk "apply_update u (pr_settings p)" p] by blast
  have "view_settings dk (saved dk u p) = (Inr (settings_update.extend u (settings_view.fields (editable_setting_sources dk (saved dk u p))
           (runtime_restart_required (pr_settings (saved dk u p)) (saved dk u p)))), saved dk u p)"
    using assms by (simp add: view_settings_def saved_def seq_def)
  then show ?thesis using w f
    by (intro exI [of _ f] exI [of _ "''These settings are controlled by environment variables: '' @ py_join '', '' (locked_changes dk u p)"])
      (simp add: update_settings_def seq_def catch_def bind_def [of "write_config_file _ _"] saved_def)
qed


text \<open>Whether the fields of the update that the environment controls keep their values.\<close>

lemma unlocked_iff:
  "locked_changes dk u p = [] \<longleftrightarrow> (\<forall>(f, env) \<in> set EDITABLE_ENV_KEYS. env \<in> set (environment_names dk p) \<longrightarrow>
     (f, False) \<in> set (field_changes u (pr_settings p)))"
proof -
  have src: "map_of (editable_setting_sources dk p) f = Some ''environment'' \<longleftrightarrow>
      (\<exists>env. (f, env) \<in> set EDITABLE_ENV_KEYS \<and> env \<in> set (environment_names dk p))" for f
    by (auto simp: editable_setting_sources_def Let_def EDITABLE_ENV_KEYS_def split: if_splits)
  show ?thesis
    unfolding locked_changes_def src by (auto simp: field_changes_def EDITABLE_ENV_KEYS_def filter_empty_conv)
qed


lemma require_admin_run:
  obtains (refused) e where "require_admin cy a cookie w = (Inl e, w)"
  | (admin) u where "require_admin cy a cookie w = (Inr u, w)" "us_admin u"
proof -
  have "snd (get_current_user cy a cookie w) = w"
    by (auto simp: get_current_user_def seq_def bind_def guard_def lift_result_def get_user_by_id_def raise_def ret_def gets_def
        split: option.splits sum.splits prod.splits if_splits)
  then obtain r where r: "get_current_user cy a cookie w = (r, w)" by (metis prod.collapse)
  show ?thesis
  proof (cases r)
    case (Inl e)
    then show ?thesis using r by (intro refused [of e]) (simp add: require_admin_def)
  next
    case (Inr u)
    then show ?thesis using r
      by (cases "us_admin u") (auto simp: require_admin_def intro: admin [of u] refused)
  qed
qed

lemma put_behind_admin:
  assumes "require_admin cy (st_auth (pr_settings (sv_process s))) cookie (sv_world s) = (Inr adm, sv_world s)" and "valid_update u"
  shows "put_settings_route cy dk cookie u s = (case update_settings dk u (sv_process s) of (r, p) \<Rightarrow> (r, s\<lparr>sv_process := p\<rparr>))"
  using assms by (simp add: put_settings_route_def admin_route_def on_world_def on_process_def bind_def)

lemma put_settings_run:
  obtains (refused) e where "put_settings_route cy dk cookie u s = (Inl e, s)"
  | (failed) e f where "put_settings_route cy dk cookie u s = (Inl e, s\<lparr>sv_process := (sv_process s)\<lparr>pr_files := f\<rparr>\<rparr>)"
      "\<forall>q. q \<noteq> tmp_config (get_config_path dk (sv_process s)) \<longrightarrow> f q = pr_files (sv_process s) q"
  | (done_well) adm v where "require_admin cy (st_auth (pr_settings (sv_process s))) cookie (sv_world s) = (Inr adm, sv_world s)"
      "us_admin adm" "valid_update u" "locked_changes dk u (sv_process s) = []" "writes dk"
      "put_settings_route cy dk cookie u s = (Inr v, s\<lparr>sv_process := saved dk u (sv_process s)\<rparr>)"
      "v = settings_update.extend u (settings_view.fields (editable_setting_sources dk (saved dk u (sv_process s)))
           (runtime_restart_required (pr_settings (saved dk u (sv_process s))) (saved dk u (sv_process s))))"
proof (rule require_admin_run [of cy "st_auth (pr_settings (sv_process s))" cookie "sv_world s"])
  fix e assume "require_admin cy (st_auth (pr_settings (sv_process s))) cookie (sv_world s) = (Inl e, sv_world s)"
  then show thesis by (intro refused [of e]) (simp add: put_settings_route_def admin_route_def on_world_def bind_def)
next
  fix adm assume adm: "require_admin cy (st_auth (pr_settings (sv_process s))) cookie (sv_world s) = (Inr adm, sv_world s)"
    "us_admin adm"
  show thesis
  proof (cases "valid_update u")
    case False
    then show thesis using adm
      by (intro refused [of "HTTPError 422 ''Unprocessable Entity''"])
        (simp add: put_settings_route_def admin_route_def on_world_def on_process_def bind_def seq_def)
  next
    case valid: True
    note body = put_behind_admin [OF adm(1) valid, of dk]
    obtain f m where run: "update_settings dk u (sv_process s) =
      (if locked_changes dk u (sv_process s) \<noteq> [] then (Inl (HTTPError 409 m), sv_process s)
       else if \<not> writes dk then (Inl (HTTPError 503 ''Could not write application config''), (sv_process s)\<lparr>pr_files := f\<rparr>)
       else (Inr (settings_update.extend u (settings_view.fields (editable_setting_sources dk (saved dk u (sv_process s)))
           (runtime_restart_required (pr_settings (saved dk u (sv_process s))) (saved dk u (sv_process s))))), saved dk u (sv_process s)))"
      and f: "\<forall>q. q \<noteq> tmp_config (get_config_path dk (sv_process s)) \<longrightarrow> f q = pr_files (sv_process s) q"
      using update_settings_run [OF valid, of dk "sv_process s"] by blast
    consider "locked_changes dk u (sv_process s) \<noteq> []" | "locked_changes dk u (sv_process s) = []" "\<not> writes dk"
      | "locked_changes dk u (sv_process s) = []" "writes dk" by blast
    then show thesis
    proof cases
      case 1
      then show thesis by (intro refused) (simp add: body run)
    next
      case 2
      then show thesis by (intro failed [OF _ f]) (simp add: body run)
    next
      case 3
      then show thesis by (intro done_well [OF adm valid 3 _ refl]) (simp add: body run)
    qed
  qed
qed

text \<open>
  Property C23: settings are changed by an administrator, completely or not at all. After an error the
  database, the settings, the live provider and every file but the temporary one next to the
  configuration are as before. After a success the caller was an administrator, no field the environment
  controls has another value, exactly the five editable settings have the values of the request, the
  configuration file holds all settings, the provider has the new temperature, no other file has
  changed, and the response shows the request's values.
\<close>

theorem settings_saved_atomically:
  "case put_settings_route cy dk cookie u s of
     (Inl e, s') \<Rightarrow> sv_world s' = sv_world s
       \<and> (\<exists>f. sv_process s' = (sv_process s)\<lparr>pr_files := f\<rparr>
           \<and> (\<forall>q. q \<noteq> tmp_config (get_config_path dk (sv_process s)) \<longrightarrow> f q = pr_files (sv_process s) q))
   | (Inr v, s') \<Rightarrow> sv_world s' = sv_world s
       \<and> (\<exists>adm. value_of (require_admin cy (st_auth (pr_settings (sv_process s))) cookie) (sv_world s) = Inr adm \<and> us_admin adm)
       \<and> (\<forall>(f, env) \<in> set EDITABLE_ENV_KEYS. env \<in> set (environment_names dk (sv_process s)) \<longrightarrow>
            (f, False) \<in> set (field_changes u (pr_settings (sv_process s))))
       \<and> pr_settings (sv_process s') = apply_update u (pr_settings (sv_process s))
       \<and> pr_files (sv_process s') = (pr_files (sv_process s))(tmp_config (get_config_path dk (sv_process s)) := None,
            get_config_path dk (sv_process s) \<mapsto> dk_dump dk (dump_settings (pr_settings (sv_process s'))))
       \<and> pr_temperature (sv_process s') = map_option (\<lambda>_. su_temperature u) (pr_temperature (sv_process s))
       \<and> settings_update.truncate v = u"
proof (cases rule: put_settings_run [of cy dk cookie u s])
  case (refused e)
  then show ?thesis by (auto intro!: exI [of _ "pr_files (sv_process s)"])
next
  case (failed e f)
  then show ?thesis by auto
next
  case (done_well adm v)
  have "settings_update.truncate (settings_update.extend u (settings_view.fields x y)) = u" for x y
    by (cases u) (simp add: settings_update.defs settings_view.defs)
  then show ?thesis using done_well unlocked_iff [of dk u "sv_process s"]
    by (simp add: value_of_def saved_def)
qed


section \<open>What a restart reads\<close>

text \<open>
  Property C25: what was saved is what a restart reads. If the YAML library reads back the document it
  wrote and the file is readable, then after a successful update the configuration file holds all settings of the
  process, each editable field there with its new value, and a field is reported as coming from the
  file unless the environment sets it; so the next start with the same environment finds them.
\<close>

theorem saved_settings_are_read:
  assumes "put_settings_route cy dk cookie u s = (Inr v, s')" and "dk_load dk (dk_dump dk (dump_settings (apply_update u (pr_settings (sv_process s)))))
      = Some (dump_settings (apply_update u (pr_settings (sv_process s))))"
    and "\<not> dk_unreadable dk (get_config_path dk (sv_process s))"
  shows "JObj (read_yaml_config dk (sv_process s') (get_config_path dk (sv_process s'))) = dump_settings (pr_settings (sv_process s'))
    \<and> current_values (pr_settings (sv_process s')) = u
    \<and> sv_sources v = map (\<lambda>(f, env). (f, if env \<in> set (environment_names dk (sv_process s')) then ''environment'' else ''config''))
        EDITABLE_ENV_KEYS
    \<and> sv_restart v = runtime_restart_required (pr_settings (sv_process s')) (sv_process s')"
proof (cases rule: put_settings_run [of cy dk cookie u s])
  case (done_well adm v')
  let ?p = "saved dk u (sv_process s)"
  have s': "sv_process s' = ?p" and v: "v = v'" using assms(1) done_well(6) by auto
  have path: "get_config_path dk ?p = get_config_path dk (sv_process s)" by (simp add: get_config_path_def saved_def)
  have stored: "pr_files ?p (get_config_path dk ?p) = Some (dk_dump dk (dump_settings (pr_settings ?p)))"
    unfolding path by (simp add: saved_def)
  have read: "JObj (read_yaml_config dk ?p (get_config_path dk ?p)) = dump_settings (pr_settings ?p)"
  proof -
    have loaded: "dk_load dk (dk_dump dk (dump_settings (pr_settings ?p))) = Some (dump_settings (pr_settings ?p))"
      using assms(2) by (simp add: saved_def)
    have "\<not> dk_unreadable dk (get_config_path dk ?p)" unfolding path by (rule assms(3))
    moreover obtain kvs where "dump_settings (pr_settings ?p) = JObj kvs" by (simp add: dump_settings_def)
    ultimately show ?thesis using stored loaded by (simp add: read_yaml_config_def)
  qed
  have "in_config (read_yaml_config dk ?p (get_config_path dk ?p)) f" if "f \<in> fst ` set EDITABLE_ENV_KEYS" for f
    using read that by (auto simp: dump_settings_def EDITABLE_ENV_KEYS_def in_config_def field_parts_def)
  then have "editable_setting_sources dk ?p = map (\<lambda>(f, env). (f, if env \<in> set (environment_names dk ?p) then ''environment'' else ''config''))
        EDITABLE_ENV_KEYS"
    by (auto simp: editable_setting_sources_def Let_def split: prod.splits) (metis fst_conv image_eqI)
  moreover have "pr_settings ?p = apply_update u (pr_settings (sv_process s))" by (simp add: saved_def)
  ultimately show ?thesis using read unfolding s' v done_well(7) by (simp add: settings_update.defs settings_view.defs)
qed (use assms(1) in auto)

text \<open>The first start writes the file if it can; a later one leaves it alone. Neither fails.\<close>

lemma initialize_run:
  "\<exists>f. initialize_config_file dk c p = (Inr (), p\<lparr>pr_files := f\<rparr>)
     \<and> (\<forall>q. q \<notin> {get_config_path dk p, tmp_config (get_config_path dk p)} \<longrightarrow> f q = pr_files p q)
     \<and> (pr_files p (get_config_path dk p) \<noteq> None \<longrightarrow> f = pr_files p)
     \<and> (pr_files p (get_config_path dk p) = None \<longrightarrow>
          f (get_config_path dk p) = (if writes dk then Some (dk_dump dk (dump_settings c)) else None))"
proof (cases "pr_files p (get_config_path dk p)")
  case None
  obtain f where w: "write_config_file dk c p = (if writes dk
      then (Inr (), p\<lparr>pr_files := (pr_files p)(tmp_config (get_config_path dk p) := None,
              get_config_path dk p \<mapsto> dk_dump dk (dump_settings c))\<rparr>)
      else (Inl (OSError ''disk''), p\<lparr>pr_files := f\<rparr>))"
    and f: "\<forall>q. q \<noteq> tmp_config (get_config_path dk p) \<longrightarrow> f q = pr_files p q"
    using write_config_run [of dk c p] by blast
  show ?thesis
    using None w f tmp_config_other [of "get_config_path dk p", symmetric]
    by (intro exI [of _ "if writes dk then (pr_files p)(tmp_config (get_config_path dk p) := None,
              get_config_path dk p \<mapsto> dk_dump dk (dump_settings c)) else f"])
      (auto simp: initialize_config_file_def catch_def)
next
  case (Some x)
  then show ?thesis by (intro exI [of _ "pr_files p"]) (simp add: initialize_config_file_def)
qed


section \<open>A sample server\<close>

definition sample_settings :: settings where
  "sample_settings = \<lparr>st_api = \<lparr>as_port = 8080, as_log_level = ''INFO''\<rparr>,
     st_images = \<lparr>is_save_dir = ''/s'', is_tmp_dir = ''/t'', is_bypass = False, is_max_edge = 512, is_quality = 80\<rparr>,
     st_llm = \<lparr>ls_provider = OLLAMA, ls_host = ''h'', ls_api_key = [], ls_model = ''m'', ls_temperature = 0, ls_timeout = 600\<rparr>,
     st_pg = \<lparr>pg_user = ''u'', pg_password = ''p'', pg_name = ''vision_bill'', pg_host = ''localhost'', pg_port = 5432\<rparr>,
     st_interval = 300, st_auth = sample_auth\<rparr>"

definition sample_update :: settings_update where
  "sample_update = \<lparr>su_provider = OPENAI, su_host = ''h'', su_model = ''n'', su_temperature = 1, su_registration = True\<rparr>"


definition sample_disk :: disk where
  "sample_disk = \<lparr>dk_expand = (\<lambda>p. p), dk_load = (\<lambda>_. Some (dump_settings (apply_update sample_update sample_settings))),
     dk_dump = (\<lambda>_. ''yaml''), dk_unreadable = (\<lambda>_. False), dk_fault = None, dk_torn = (\<lambda>_. [])\<rparr>"

definition root_row :: user_row where
  "root_row = \<lparr>u_id = 5, u_username = ''root'', u_hash = [], u_admin = True\<rparr>"

definition sample_server :: server where
  "sample_server = \<lparr>sv_world = fresh_world\<lparr>users_t := [root_row]\<rparr>,
     sv_process = \<lparr>pr_settings = sample_settings, pr_started = Some (OLLAMA, ''h''), pr_env = [(''LLM__HOST'', ''h'')],
       pr_files = (\<lambda>_. None), pr_temperature = Some 0\<rparr>\<rparr>"

definition root_cookie :: string where
  "root_cookie = create_token sample_mac 5 60 ''s'' 1000"

lemma root_is_admin: "value_of (require_admin sample_crypto sample_auth (Some root_cookie)) (sv_world sample_server)
    = Inr \<lparr>us_id = 5, us_username = ''root'', us_admin = True, us_see_all = False\<rparr>"
proof -
  have ok: "db_ok (fresh_world\<lparr>users_t := [root_row]\<rparr>)"
    by (simp add: fresh_world_def db_ok_def keys_ok_def refs_defs one_receipt_per_image_def one_active_collection_def
        widths_ok_def SEED_TAGS_def)
  have "lasting sample_auth 1000" using sample_expiry by (simp add: lasting_def sample_auth_def)
  from own_cookie [OF _ this ok, of sample_crypto root_row] sample_crypto_sound
  have "get_current_user sample_crypto sample_auth (Some root_cookie) (fresh_world\<lparr>users_t := [root_row]\<rparr>)
      = (Inr \<lparr>us_id = 5, us_username = ''root'', us_admin = True, us_see_all = False\<rparr>, fresh_world\<lparr>users_t := [root_row]\<rparr>)"
    by (simp add: crypto_sound_def root_cookie_def sample_crypto_def root_row_def sample_auth_def user_from_record_def fresh_world_def)
  then show ?thesis by (simp add: require_admin_def value_of_def sample_server_def)
qed

lemma sample_put: "\<exists>v s'. put_settings_route sample_crypto sample_disk (Some root_cookie) sample_update sample_server = (Inr v, s')"
proof -
  have auth: "st_auth (pr_settings (sv_process sample_server)) = sample_auth" by (simp add: sample_server_def sample_settings_def)
  obtain adm where adm: "require_admin sample_crypto sample_auth (Some root_cookie) (sv_world sample_server) = (Inr adm, sv_world sample_server)"
    using root_is_admin by (cases rule: require_admin_run [of sample_crypto sample_auth "Some root_cookie" "sv_world sample_server"])
      (auto simp: value_of_def)
  have v: "valid_update sample_update" by (simp add: valid_update_def sample_update_def)
  have "locked_changes sample_disk sample_update (sv_process sample_server) = []"
    unfolding unlocked_iff
    by (auto simp: EDITABLE_ENV_KEYS_def environment_names_def dotenv_names_def sample_server_def field_changes_def sample_update_def
        sample_settings_def)
  moreover have "writes sample_disk" by (simp add: writes_def sample_disk_def)
  ultimately obtain v p where "update_settings sample_disk sample_update (sv_process sample_server) = (Inr v, p)"
    using update_settings_run [OF v, of sample_disk "sv_process sample_server"] by auto
  then show ?thesis using put_behind_admin [OF adm [folded auth] v] by simp
qed

theorem settings_saved_atomically_witness:
  "\<exists>v s'. put_settings_route sample_crypto sample_disk (Some root_cookie) sample_update sample_server = (Inr v, s')
     \<and> pr_settings (sv_process s') = apply_update sample_update sample_settings \<and> pr_temperature (sv_process s') = Some 1"
proof -
  obtain v s' where "put_settings_route sample_crypto sample_disk (Some root_cookie) sample_update sample_server = (Inr v, s')"
    using sample_put by blast
  then show ?thesis
    using settings_saved_atomically [where cy = sample_crypto and dk = sample_disk and cookie = "Some root_cookie" and u = sample_update and s = sample_server]
    by (auto simp: sample_server_def sample_update_def)
qed

theorem saved_settings_are_read_witness:
  "\<exists>v s'. put_settings_route sample_crypto sample_disk (Some root_cookie) sample_update sample_server = (Inr v, s')
     \<and> current_values (pr_settings (sv_process s')) = sample_update"
proof -
  obtain v s' where put: "put_settings_route sample_crypto sample_disk (Some root_cookie) sample_update sample_server = (Inr v, s')"
    using sample_put by blast
  have "current_values (pr_settings (sv_process s')) = sample_update"
    using saved_settings_are_read [OF put] by (simp add: sample_disk_def sample_server_def)
  with put show ?thesis by blast
qed

end
