(* ===== verification/BenchmarkScoring.thy ===== *)
theory BenchmarkScoring
  imports Models PyNumeric "HOL-Library.List_Lexorder" "HOL-Library.Multiset"
begin

text \<open>
  service/benchmark_scoring.py: an extraction is compared with the verified receipt. Amounts are
  compared as Decimals in whole cents, the scores are doubles. The hash and the JSON text of a
  receipt without its confidence are parameters.
\<close>

section \<open>Money\<close>

text \<open>\<open>quantize(Decimal("0.01"), ROUND_HALF_UP)\<close>; InvalidOperation past 28 digits.\<close>

definition normalize_money :: "rat option \<Rightarrow> exn + rat option" where
  "normalize_money value = (case value of
     None \<Rightarrow> Inr None
   | Some x \<Rightarrow> (let c = round_half_up (x * 100) in
       if 10 ^ 28 \<le> \<bar>c\<bar> then Inl (OtherError ''InvalidOperation'') else Inr (Some (of_int c / 100))))"

definition money_equal :: "rat option \<Rightarrow> rat option \<Rightarrow> ('s, bool) py" where
  "money_equal expected actual =
     bind (lift_result (normalize_money expected)) (\<lambda>left.
     bind (lift_result (normalize_money actual)) (\<lambda>right.
       ret (case (left, right) of (Some l, Some r) \<Rightarrow> \<bar>l - r\<bar> \<le> 1 / 100 | _ \<Rightarrow> False)))"

section \<open>Scores\<close>

definition fraction :: "nat \<Rightarrow> nat \<Rightarrow> rat" where
  "fraction matches whole = (if whole = 0 then 1 else to_double (of_nat matches / of_nat whole))"

definition count_true :: "bool list \<Rightarrow> nat" where
  "count_true bs = length (filter (\<lambda>b. b) bs)"

record scores =
  sc_header :: rat
  sc_totals :: rat
  sc_line_items :: rat
  sc_taxes :: rat
  sc_categories :: "rat option"
  sc_overall :: rat

definition header_matches :: "receipt \<Rightarrow> receipt \<Rightarrow> bool list" where
  "header_matches e a =
     [rc_merchant_name e = rc_merchant_name a, rc_merchant_address e = rc_merchant_address a,
      rc_receipt_number e = rc_receipt_number a, rc_date e = rc_date a, rc_time e = rc_time a,
      rc_currency e = rc_currency a, rc_category e = rc_category a, rc_payment_method e = rc_payment_method a]"

definition total_pairs :: "receipt \<Rightarrow> receipt \<Rightarrow> (rat option \<times> rat option) list" where
  "total_pairs e a =
     [(Some (rc_subtotal e), Some (rc_subtotal a)), (Some (rc_discount_total e), Some (rc_discount_total a)),
      (Some (rc_tax_total e), Some (rc_tax_total a)), (rc_tip e, rc_tip a), (Some (rc_total e), Some (rc_total a))]"

text \<open>\<open>e.description == a.description and money_equal(...)\<close>: the amounts are looked at only for equal names.\<close>

definition item_match :: "line_item \<times> line_item \<Rightarrow> ('s, bool) py" where
  "item_match p = (case p of (e, a) \<Rightarrow>
     if i_description e = i_description a then money_equal (Some (i_total_price e)) (Some (i_total_price a)) else ret False)"

definition tax_match :: "tax_line \<times> tax_line \<Rightarrow> ('s, bool) py" where
  "tax_match p = (case p of (e, a) \<Rightarrow>
     if x_name e = x_name a then money_equal (Some (x_amount e)) (Some (x_amount a)) else ret False)"

definition labelled_items :: "receipt \<Rightarrow> (nat \<times> line_item) list" where
  "labelled_items e = filter (\<lambda>p. i_category (snd p) \<noteq> ''unknown'') (enumerate 0 (rc_line_items e))"

definition category_match :: "receipt \<Rightarrow> nat \<times> line_item \<Rightarrow> bool" where
  "category_match a p = (case p of (n, e) \<Rightarrow> n < length (rc_line_items a)
     \<and> i_description e = i_description (rc_line_items a ! n) \<and> i_category e = i_category (rc_line_items a ! n))"

text \<open>
  \<open>sum\<close> of floats carries, since Python 3.12, the rounding errors of its additions along (Neumaier's
  compensated summation) and adds them at the end.
\<close>

definition compensated :: "rat \<times> rat \<Rightarrow> rat \<Rightarrow> rat \<times> rat" where
  "compensated s x = (case s of (f, c) \<Rightarrow>
     (let t = to_double (f + x);
          lost = (if \<bar>x\<bar> \<le> \<bar>f\<bar> then to_double (to_double (f - t) + x) else to_double (to_double (x - t) + f)) in
      (t, to_double (c + lost))))"

definition float_sum :: "rat list \<Rightarrow> rat" where
  "float_sum xs = (case xs of [] \<Rightarrow> 0
     | x # rest \<Rightarrow> (case foldl compensated (x, 0) rest of (f, c) \<Rightarrow> if c = 0 then f else to_double (f + c)))"

definition SCORING_VERSION :: string where
  "SCORING_VERSION = ''2''"

definition PROMPT_VERSION :: string where
  "PROMPT_VERSION = ''4''"

definition COMPONENT_WEIGHTS :: "rat list" where
  "COMPONENT_WEIGHTS = map to_double [20 / 100, 35 / 100, 30 / 100, 15 / 100]"

definition overall_score :: "rat \<Rightarrow> rat \<Rightarrow> rat \<Rightarrow> rat \<Rightarrow> rat" where
  "overall_score header totals line_items taxes =
     float_sum (map (\<lambda>(v, weight). to_double (v * weight)) (zip [header, totals, line_items, taxes] COMPONENT_WEIGHTS))"

definition score_receipts :: "receipt \<Rightarrow> receipt \<Rightarrow> ('s, scores) py" where
  "score_receipts e a =
     (let header = fraction (count_true (header_matches e a)) 8; labelled = labelled_items e in
      bind (collect (total_pairs e a) (\<lambda>p. money_equal (fst p) (snd p))) (\<lambda>totals.
      bind (collect (zip (rc_line_items e) (rc_line_items a)) item_match) (\<lambda>items.
      bind (collect (zip (rc_taxes e) (rc_taxes a)) tax_match) (\<lambda>taxes.
       (let t = fraction (count_true totals) 5;
            l = fraction (count_true items) (max (length (rc_line_items e)) (length (rc_line_items a)));
            x = fraction (count_true taxes) (max (length (rc_taxes e)) (length (rc_taxes a))) in
        ret \<lparr>sc_header = header, sc_totals = t, sc_line_items = l, sc_taxes = x,
             sc_categories = (if labelled = [] then None
               else Some (fraction (count_true (map (category_match a) labelled)) (length labelled))),
             sc_overall = overall_score header t l x\<rparr>)))))"

section \<open>The fingerprint of a data set\<close>

definition dataset_fingerprint :: "(string \<Rightarrow> string) \<Rightarrow> (receipt \<Rightarrow> string) \<Rightarrow> receipt list \<Rightarrow> string" where
  "dataset_fingerprint sha enc receipts =
     sha (py_join [CHR 0x0A] (sort_key (map code_of) (map enc receipts)))"

section \<open>Comparing a receipt with itself\<close>

definition small_money :: "rat \<Rightarrow> bool" where
  "small_money x \<longleftrightarrow> \<bar>round_half_up (x * 100)\<bar> < 10 ^ 28"

lemma money_equal_refl: "small_money x \<Longrightarrow> money_equal (Some x) (Some x) s = (Inr True, s)"
  by (simp add: money_equal_def normalize_money_def small_money_def lift_result_def Let_def)

lemma money_equal_none: "money_equal None v s = (Inr False, s) \<or> fst (money_equal None v s) = Inl (OtherError ''InvalidOperation'')"
  by (cases v) (auto simp: money_equal_def normalize_money_def lift_result_def Let_def)

lemma collect_true: "(\<And>x. x \<in> set xs \<Longrightarrow> f x s = (Inr True, s)) \<Longrightarrow> collect xs f s = (Inr (replicate (length xs) True), s)"
  by (induction xs) simp_all

lemma count_all: "list_all f xs \<Longrightarrow> count_true (map f xs) = length xs"
  by (induction xs) (simp_all add: count_true_def)

lemma fraction_full: "fraction n n = 1"
proof -
  have "to_double 1 = 1" using round_sig_exact [of 2 1 1 0 53] by (simp add: to_double_def)
  then show ?thesis by (simp add: fraction_def)
qed

definition small_receipt :: "receipt \<Rightarrow> bool" where
  "small_receipt r \<longleftrightarrow> list_all small_money [rc_subtotal r, rc_discount_total r, rc_tax_total r, rc_total r]
     \<and> (case rc_tip r of None \<Rightarrow> True | Some t \<Rightarrow> small_money t)
     \<and> list_all (\<lambda>i. small_money (i_total_price i)) (rc_line_items r) \<and> list_all (\<lambda>x. small_money (x_amount x)) (rc_taxes r)"

text \<open>
  Fact: what a perfect extraction scores. Compared with itself, a receipt of representable
  amounts gets full marks for its header, items, taxes and categories; for the totals it does
  only if it has a tip. Without one the tip never counts as matching, and the best possible
  score of the totals is 4/5.
\<close>

theorem perfect_extraction_scores:
  assumes "small_receipt r"
  shows "\<exists>sc. score_receipts r r s = (Inr sc, s)
    \<and> sc_header sc = 1 \<and> sc_line_items sc = 1 \<and> sc_taxes sc = 1 \<and> (sc_categories sc = None \<or> sc_categories sc = Some 1)
    \<and> sc_totals sc = (if rc_tip r = None then to_double (4 / 5) else 1)
    \<and> sc_overall sc = overall_score 1 (sc_totals sc) 1 1"
proof -
  have "item_match p s = (Inr True, s)" if "p \<in> set (zip (rc_line_items r) (rc_line_items r))" for p
    using assms that by (cases p) (auto simp: zip_same small_receipt_def list_all_iff item_match_def money_equal_refl)
  then have items: "collect (zip (rc_line_items r) (rc_line_items r)) item_match s
      = (Inr (replicate (length (rc_line_items r)) True), s)"
    using collect_true [of "zip (rc_line_items r) (rc_line_items r)" item_match s] by simp
  have "tax_match p s = (Inr True, s)" if "p \<in> set (zip (rc_taxes r) (rc_taxes r))" for p
    using assms that by (cases p) (auto simp: zip_same small_receipt_def list_all_iff tax_match_def money_equal_refl)
  then have taxes: "collect (zip (rc_taxes r) (rc_taxes r)) tax_match s = (Inr (replicate (length (rc_taxes r)) True), s)"
    using collect_true [of "zip (rc_taxes r) (rc_taxes r)" tax_match s] by simp
  have none: "money_equal None None s = (Inr False, s)"
    by (simp add: money_equal_def normalize_money_def lift_result_def)
  have totals: "collect (total_pairs r r) (\<lambda>p. money_equal (fst p) (snd p)) s = (Inr [True, True, True, rc_tip r \<noteq> None, True], s)"
    using assms none by (auto simp: small_receipt_def total_pairs_def money_equal_refl bind_def split: option.splits)
  have cats: "count_true (map (category_match r) (labelled_items r)) = length (labelled_items r)"
    by (rule count_all) (auto simp: labelled_items_def category_match_def in_set_enumerate_eq list_all_iff)
  have full: "count_true (replicate n True) = n" for n by (simp add: count_true_def)
  have head: "count_true (header_matches r r) = 8" by (simp add: count_true_def header_matches_def)
  have count: "count_true [True, True, True, False, True] = 4" "count_true [True, True, True, True, True] = 5"
    by (simp_all add: count_true_def)
  have four: "fraction 4 5 = to_double (4 / 5)" by (simp add: fraction_def)
  show ?thesis
    by (simp add: score_receipts_def Let_def items taxes totals head full cats fraction_full count four)
qed

text \<open>A sample without a tip.\<close>

definition scored_receipt :: receipt where
  "scored_receipt = \<lparr>rc_confidence = 90, rc_merchant_name = ''Shop'', rc_merchant_address = None,
     rc_receipt_number = None, rc_date = Date 2026 9 5, rc_time = None, rc_currency = ''EUR'', rc_category = ''grocery'',
     rc_line_items = [\<lparr>i_description = ''Milk'', i_category = ''milk'', i_quantity = 1, i_unit_price = 2,
       i_total_price = 2, i_tags = [], i_id = None, i_remember = False, i_category_set = True\<rparr>],
     rc_taxes = [\<lparr>x_name = ''VAT'', x_rate = None, x_amount = 1 / 10\<rparr>], rc_subtotal = 2, rc_discount_total = 0,
     rc_tax_total = 1 / 10, rc_tip = None, rc_total = 2, rc_payment_method = ''cash''\<rparr>"

lemma perfect_extraction_scores_witness:
  "\<exists>sc. score_receipts scored_receipt scored_receipt () = (Inr sc, ()) \<and> sc_header sc = 1 \<and> sc_totals sc = to_double (4 / 5)"
proof -
  have ok: "small_receipt scored_receipt" by code_simp
  show ?thesis using perfect_extraction_scores [OF ok, of "()"] by (auto simp: scored_receipt_def)
qed

text \<open>The fingerprint of a data set does not depend on the order in which its receipts were selected.\<close>

lemma code_of_inj: "inj (map code_of)"
proof -
  have "inj code_of" by (rule injI) (simp add: code_of_def)
  then show ?thesis by simp
qed

lemma fingerprint_order_free:
  assumes "mset rs = mset rs'"
  shows "dataset_fingerprint sha enc rs = dataset_fingerprint sha enc rs'"
proof -
  have "mset (map enc rs) = mset (sort_key (map code_of) (map enc rs'))" using assms by simp
  then have "sort_key (map code_of) (map enc rs) = sort_key (map code_of) (map enc rs')"
    by (rule sort_key_inj_key_eq) (auto intro: inj_on_subset [OF code_of_inj])
  then show ?thesis by (simp add: dataset_fingerprint_def)
qed

end
