(* ===== verification/BenchmarkStore.thy ===== *)
theory BenchmarkStore
  imports Interfaces PyNumeric "HOL-Library.List_Lexorder"
begin

text \<open>
  provider/db/benchmark_db.py (BenchmarkDB): runs, their tasks and the per-model summaries, one
  definition per method. The council columns are written once and read by nobody; they are left
  out. Sums and averages are doubles.
\<close>

section \<open>Inserting a run\<close>

text \<open>The INTEGER column \<open>request_timeout_seconds\<close> takes 32 bits.\<close>

definition insert_run :: "run_row \<Rightarrow> (world, run_row) py" where
  "insert_run b w = (if \<not> (- 2147483648 \<le> b_timeout b \<and> b_timeout b \<le> 2147483647) then (Inl DataError, w)
     else if has_run w (b_id b) then (Inl UniqueViolation, w) else (Inr b, w\<lparr>runs_t := runs_t w @ [b]\<rparr>))"

definition insert_task :: "task_row \<Rightarrow> (world, unit) py" where
  "insert_task k w =
     (if task_key k \<in> task_key ` set (tasks_t w) then (Inl UniqueViolation, w)
      else if \<not> has_run w (k_run_id k) \<or> \<not> has_receipt w (k_receipt_id k) then (Inl ForeignKeyViolation, w)
      else (Inr (), w\<lparr>tasks_t := tasks_t w @ [k]\<rparr>))"

definition insert_summary :: "summary_row \<Rightarrow> (world, unit) py" where
  "insert_summary s w =
     (if summary_key s \<in> summary_key ` set (summaries_t w) then (Inl UniqueViolation, w)
      else if \<not> has_run w (s_run_id s) then (Inl ForeignKeyViolation, w)
      else (Inr (), w\<lparr>summaries_t := summaries_t w @ [s]\<rparr>))"

definition new_task :: "uuid \<Rightarrow> string \<Rightarrow> uuid \<Rightarrow> task_row" where
  "new_task run m r = \<lparr>k_run_id = run, k_model_id = m, k_receipt_id = r, k_status = Queued, k_attempts = 0,
     k_leased_until = None, k_retry_at = None, k_started_at = None\<rparr>"

definition new_summary :: "uuid \<Rightarrow> (string \<times> string option) list \<Rightarrow> string \<Rightarrow> summary_row" where
  "new_summary run digests m = \<lparr>s_run_id = run, s_model_id = m, s_digest = Option.bind (map_of (rev digests) m) (\<lambda>d. d),
     s_completed = 0, s_succeeded = 0, s_failed = 0, s_total_score = 0, s_total_confidence = 0, s_total_attempts = 0,
     s_total_latency = 0\<rparr>"

text \<open>\<open>executemany\<close> is all or nothing; the three statements are not one transaction.\<close>

definition run_tasks :: "uuid \<Rightarrow> string list \<Rightarrow> uuid list \<Rightarrow> task_row list" where
  "run_tasks run model_ids receipt_ids = concat (map (\<lambda>m. map (new_task run m) receipt_ids) model_ids)"

definition create_run ::
  "string list \<Rightarrow> uuid list \<Rightarrow> string \<Rightarrow> (string \<times> string option) list \<Rightarrow> int \<Rightarrow> string \<Rightarrow> string \<Rightarrow> (world, run_row) py" where
  "create_run model_ids receipt_ids fingerprint digests timeout prompt scoring =
     bind gen_uuid (\<lambda>k. bind (gets w_clock) (\<lambda>now.
     bind (insert_run \<lparr>b_id = k, b_completed = False, b_model_ids = model_ids, b_receipt_ids = receipt_ids,
         b_fingerprint = fingerprint, b_digests = digests, b_prompt_version = prompt, b_scoring_version = scoring,
         b_timeout = timeout, b_created_at = now, b_completed_at = None\<rparr>) (\<lambda>b.
     seq (transaction (for_each (run_tasks k model_ids receipt_ids) insert_task))
     (seq (transaction (for_each (map (new_summary k digests) model_ids) insert_summary))
       (ret b)))))"

section \<open>Reading\<close>

definition get_run :: "uuid \<Rightarrow> (world, run_row option) py" where
  "get_run k = gets (\<lambda>w. fetchrow (filter (\<lambda>b. b_id b = k) (runs_t w)))"

definition list_runs :: "(world, run_row list) py" where
  "list_runs = gets (\<lambda>w. rev (sort_key (\<lambda>b. (b_created_at b, b_id b)) (runs_t w)))"

record task_counts =
  tc_queued :: nat
  tc_running :: nat
  tc_waiting :: nat
  tc_retrying :: nat
  tc_terminal :: int

definition count_tasks :: "uuid \<Rightarrow> task_status \<Rightarrow> world \<Rightarrow> nat" where
  "count_tasks k st w = length (filter (\<lambda>t. k_run_id t = k \<and> k_status t = st) (tasks_t w))"

definition get_task_counts :: "uuid \<Rightarrow> (world, task_counts) py" where
  "get_task_counts k = gets (\<lambda>w.
     \<lparr>tc_queued = count_tasks k Queued w, tc_running = count_tasks k Running w,
      tc_waiting = count_tasks k WaitingForModel w, tc_retrying = count_tasks k Retrying w,
      tc_terminal = sum_list (map s_completed (filter (\<lambda>s. s_run_id s = k) (summaries_t w)))\<rparr>)"

record benchmark_summary =
  bs_model_id :: string
  bs_digest :: "string option"
  bs_completed :: int
  bs_succeeded :: int
  bs_failed :: int
  bs_score :: "rat option"
  bs_confidence :: "rat option"
  bs_attempts :: "rat option"
  bs_latency :: "rat option"

definition per :: "rat \<Rightarrow> int \<Rightarrow> rat option" where
  "per whole n = (if n = 0 then None else Some (to_double (whole / of_int n)))"

definition summary_view :: "summary_row \<Rightarrow> benchmark_summary" where
  "summary_view s = \<lparr>bs_model_id = s_model_id s, bs_digest = s_digest s, bs_completed = s_completed s,
     bs_succeeded = s_succeeded s, bs_failed = s_failed s, bs_score = per (s_total_score s) (s_succeeded s),
     bs_confidence = per (s_total_confidence s) (s_succeeded s),
     bs_attempts = per (of_int (s_total_attempts s)) (s_completed s), bs_latency = per (s_total_latency s) (s_completed s)\<rparr>"

definition get_summaries :: "uuid \<Rightarrow> (world, benchmark_summary list) py" where
  "get_summaries k = gets (\<lambda>w. map summary_view
     (sort_key (\<lambda>s. map code_of (s_model_id s)) (filter (\<lambda>s. s_run_id s = k) (summaries_t w))))"

section \<open>The task queue\<close>

text \<open>A lease lasts \<open>timedelta(minutes=6)\<close>.\<close>

definition task_lease :: int where
  "task_lease = 360"

definition leasable :: "timestamp \<Rightarrow> task_row \<Rightarrow> bool" where
  "leasable now k \<longleftrightarrow>
     ((k_status k = Queued \<or> k_status k = Retrying) \<and> (case k_retry_at k of None \<Rightarrow> True | Some t \<Rightarrow> t \<le> now))
     \<or> (k_status k = Running \<and> (case k_leased_until k of None \<Rightarrow> False | Some t \<Rightarrow> t < now))"

definition take_task :: "timestamp \<Rightarrow> task_row \<Rightarrow> task_row" where
  "take_task now k = k\<lparr>k_status := Running, k_attempts := k_attempts k + 1, k_started_at := Some now,
     k_leased_until := Some (now + task_lease)\<rparr>"

definition update_tasks :: "(task_row \<Rightarrow> bool) \<Rightarrow> (task_row \<Rightarrow> task_row) \<Rightarrow> (world, unit) py" where
  "update_tasks p f = modify (\<lambda>w. w\<lparr>tasks_t := sql_update p f (tasks_t w)\<rparr>)"

definition same_task :: "task_row \<Rightarrow> task_row \<Rightarrow> bool" where
  "same_task k t \<longleftrightarrow> task_key t = task_key k"

text \<open>The row is handed out as it was selected, before the attempt is counted.\<close>

definition lease_task :: "(world, task_row option) py" where
  "lease_task = bind (gets w_clock) (\<lambda>now.
     bind (gets (\<lambda>w. fetchrow (sort_key (\<lambda>k. (k_run_id k, k_receipt_id k)) (filter (leasable now) (tasks_t w))))) (\<lambda>row.
       case row of None \<Rightarrow> ret None
       | Some k \<Rightarrow> seq (update_tasks (same_task k) (take_task now)) (ret (Some k))))"

definition retry_delay :: "int \<Rightarrow> int" where
  "retry_delay attempts = min (5 * 2 ^ nat (max 0 attempts)) 300"

definition retry_task :: "task_row \<Rightarrow> bool \<Rightarrow> (world, unit) py" where
  "retry_task k waiting = bind (gets w_clock) (\<lambda>now.
     update_tasks (same_task k) (\<lambda>t. t\<lparr>k_status := (if waiting then WaitingForModel else Retrying), k_leased_until := None,
       k_retry_at := Some (now + retry_delay (k_attempts k))\<rparr>))"

text \<open>Deleting the task, counting the outcome and closing a run without tasks are one transaction.\<close>

definition count_outcome :: "bool \<Rightarrow> rat \<Rightarrow> int \<Rightarrow> int \<Rightarrow> rat \<Rightarrow> summary_row \<Rightarrow> summary_row" where
  "count_outcome success score confidence attempts latency s =
     s\<lparr>s_completed := s_completed s + 1, s_succeeded := s_succeeded s + (if success then 1 else 0),
       s_failed := s_failed s + (if success then 0 else 1), s_total_score := to_double (s_total_score s + score),
       s_total_confidence := to_double (s_total_confidence s + of_int confidence),
       s_total_attempts := s_total_attempts s + attempts, s_total_latency := to_double (s_total_latency s + latency)\<rparr>"

definition finish_task :: "task_row \<Rightarrow> bool \<Rightarrow> rat \<Rightarrow> int \<Rightarrow> int \<Rightarrow> rat \<Rightarrow> (world, unit) py" where
  "finish_task k success score confidence attempts latency = transaction (
     seq (modify (\<lambda>w. w\<lparr>tasks_t := sql_delete (same_task k) (tasks_t w)\<rparr>))
     (seq (modify (\<lambda>w. w\<lparr>summaries_t := sql_update (\<lambda>s. s_run_id s = k_run_id k \<and> s_model_id s = k_model_id k)
         (count_outcome success score confidence attempts latency) (summaries_t w)\<rparr>))
       (modify (\<lambda>w. if sql_exists (\<lambda>t. k_run_id t = k_run_id k) (tasks_t w) then w
         else w\<lparr>runs_t := sql_update (\<lambda>b. b_id b = k_run_id k)
           (\<lambda>b. b\<lparr>b_completed := True, b_completed_at := Some (w_clock w)\<rparr>) (runs_t w)\<rparr>))))"

definition fail_task :: "task_row \<Rightarrow> (world, unit) py" where
  "fail_task k = finish_task k False 0 0 1 0"

section \<open>Integrity\<close>

lemma insert_run_ok [keeps_intro]: "keeps db_ok (insert_run b)"
proof (rule keepsI)
  fix w assume ok: "db_ok w"
  let ?w = "w\<lparr>runs_t := runs_t w @ [b]\<rparr>"
  have "keys_ok ?w" if "\<not> has_run w (b_id b)"
    using db_okD(1) [OF ok] that by (auto simp: keys_ok_def has_run_def)
  moreover have "receipt_refs ?w" "child_refs ?w" "image_refs ?w" "collection_refs ?w" "task_refs ?w"
    by (rule refs_grow [where w = w]; simp add: has_defs le_fun_def db_okD [OF ok])+
  moreover have "one_receipt_per_image ?w" "one_active_collection ?w"
    using db_okD(7,8) [OF ok] by (simp_all add: unique_defs)
  moreover have "widths_ok ?w" using db_okD(9) [OF ok] by (simp add: widths_ok_def)
  ultimately show "db_ok (snd (insert_run b w))"
    using ok by (simp add: insert_run_def db_okI)
qed

lemma insert_task_ok [keeps_intro]: "keeps db_ok (insert_task k)"
proof (rule keepsI)
  fix w assume ok: "db_ok w"
  let ?w = "w\<lparr>tasks_t := tasks_t w @ [k]\<rparr>"
  have "keys_ok ?w" if "task_key k \<notin> task_key ` set (tasks_t w)"
    using db_okD(1) [OF ok] that by (auto simp: keys_ok_def)
  moreover have "task_refs ?w" if "has_run w (k_run_id k)" "has_receipt w (k_receipt_id k)"
    using db_okD(6) [OF ok] that by (auto simp: task_refs_def has_defs)
  moreover have "receipt_refs ?w" "child_refs ?w" "image_refs ?w" "collection_refs ?w"
    by (rule refs_grow [where w = w]; simp add: has_defs le_fun_def db_okD [OF ok])+
  moreover have "one_receipt_per_image ?w" "one_active_collection ?w"
    using db_okD(7,8) [OF ok] by (simp_all add: unique_defs)
  moreover have "widths_ok ?w" using db_okD(9) [OF ok] by (simp add: widths_ok_def)
  ultimately show "db_ok (snd (insert_task k w))"
    using ok by (simp add: insert_task_def db_okI)
qed

lemma insert_summary_ok [keeps_intro]: "keeps db_ok (insert_summary s)"
proof (rule keepsI)
  fix w assume ok: "db_ok w"
  let ?w = "w\<lparr>summaries_t := summaries_t w @ [s]\<rparr>"
  have "keys_ok ?w" if "summary_key s \<notin> summary_key ` set (summaries_t w)"
    using db_okD(1) [OF ok] that by (auto simp: keys_ok_def)
  moreover have "task_refs ?w" if "has_run w (s_run_id s)"
    using db_okD(6) [OF ok] that by (auto simp: task_refs_def has_defs)
  moreover have "receipt_refs ?w" "child_refs ?w" "image_refs ?w" "collection_refs ?w"
    by (rule refs_grow [where w = w]; simp add: has_defs le_fun_def db_okD [OF ok])+
  moreover have "one_receipt_per_image ?w" "one_active_collection ?w"
    using db_okD(7,8) [OF ok] by (simp_all add: unique_defs)
  moreover have "widths_ok ?w" using db_okD(9) [OF ok] by (simp add: widths_ok_def)
  ultimately show "db_ok (snd (insert_summary s w))"
    using ok by (simp add: insert_summary_def db_okI)
qed

text \<open>Rewriting benchmark rows in place without touching their keys.\<close>

lemma update_benchmark_ok:
  assumes ok: "db_ok w" and "\<And>t. task_key (f t) = task_key t" and "\<And>s. summary_key (g s) = summary_key s"
    and "\<And>b. b_id (h b) = b_id b"
  shows "db_ok (w\<lparr>tasks_t := sql_update p f (tasks_t w)\<rparr>)"
    and "db_ok (w\<lparr>summaries_t := sql_update q g (summaries_t w)\<rparr>)"
    and "db_ok (w\<lparr>runs_t := sql_update r h (runs_t w)\<rparr>)"
proof -
  note d = db_okD [OF ok]
  note simps = keys_ok_def refs_defs has_defs one_receipt_per_image_def one_active_collection_def widths_ok_def
  have t: "k_run_id (f t) = k_run_id t" "k_receipt_id (f t) = k_receipt_id t" for t
    using assms(2) [of t] by (simp_all add: task_key_def)
  have s: "s_run_id (g s) = s_run_id s" for s
    using assms(3) [of s] by (simp add: summary_key_def)
  have b: "b_id ` set (sql_update r h (runs_t w)) = b_id ` set (runs_t w)"
    by (metis assms(4) list.set_map map_sql_update)
  show "db_ok (w\<lparr>tasks_t := sql_update p f (tasks_t w)\<rparr>)"
    by (rule db_okI) (use d assms(2) t in \<open>auto simp: simps map_sql_update set_sql_update\<close>)
  show "db_ok (w\<lparr>summaries_t := sql_update q g (summaries_t w)\<rparr>)"
    by (rule db_okI) (use d assms(3) s in \<open>auto simp: simps map_sql_update set_sql_update\<close>)
  show "db_ok (w\<lparr>runs_t := sql_update r h (runs_t w)\<rparr>)"
    by (rule db_okI) (use d assms(4) b in \<open>simp_all add: simps map_sql_update\<close>)
qed

lemma take_task_key [simp]: "task_key (take_task now k) = task_key k"
  by (simp add: take_task_def task_key_def)

lemma count_outcome_key [simp]: "summary_key (count_outcome a b c d e s) = summary_key s"
  by (simp add: count_outcome_def summary_key_def)

lemma benchmark_ops_ok [keeps_intro]:
  "keeps db_ok (create_run ms rs fp ds t p sc)" "keeps db_ok lease_task" "keeps db_ok (retry_task k waiting)"
  "keeps db_ok (finish_task k success score confidence attempts latency)"
proof -
  show "keeps db_ok (create_run ms rs fp ds t p sc)"
    unfolding create_run_def by (intro keeps_intro)
  show "keeps db_ok lease_task"
    unfolding lease_task_def update_tasks_def by (intro keeps_intro) (simp add: update_benchmark_ok(1))
  show "keeps db_ok (retry_task k waiting)"
    unfolding retry_task_def update_tasks_def
    by (intro keeps_intro) (simp add: update_benchmark_ok(1) task_key_def)
  show "keeps db_ok (finish_task k success score confidence attempts latency)"
    unfolding finish_task_def
    by (intro keeps_intro) (simp_all add: delete_leaves_ok(5) update_benchmark_ok(2,3))
qed

section \<open>The queue hands out leases\<close>

interpretation benchmark_lease: lease_queue leasable take_task task_lease
  by unfold_locales (auto simp: leasable_def take_task_def task_lease_def split: option.splits)

text \<open>A task that waits for its model is handed out at no time.\<close>

lemma waiting_never_leased: "k_status k = WaitingForModel \<Longrightarrow> \<not> leasable now k"
  by (simp add: leasable_def)

section \<open>The books of a run\<close>

text \<open>
  What a summary promises while its run is worked on: every task is either still open or counted
  once as a success or a failure, and the run is closed exactly when no task of it is open.
\<close>

definition open_tasks :: "uuid \<Rightarrow> string \<Rightarrow> world \<Rightarrow> nat" where
  "open_tasks k m w = length (filter (\<lambda>t. k_run_id t = k \<and> k_model_id t = m) (tasks_t w))"

definition run_open :: "uuid \<Rightarrow> world \<Rightarrow> bool" where
  "run_open k w \<longleftrightarrow> sql_exists (\<lambda>t. k_run_id t = k) (tasks_t w)"

definition balanced :: "run_row \<Rightarrow> summary_row \<Rightarrow> world \<Rightarrow> bool" where
  "balanced b s w \<longleftrightarrow>
     s_completed s = s_succeeded s + s_failed s \<and> 0 \<le> s_succeeded s \<and> 0 \<le> s_failed s
     \<and> s_completed s + int (open_tasks (b_id b) (s_model_id s) w) = int (length (b_receipt_ids b))
     \<and> (b_receipt_ids b \<noteq> [] \<longrightarrow> b_completed b = (\<not> run_open (b_id b) w))"

definition accounts :: "world \<Rightarrow> bool" where
  "accounts w \<longleftrightarrow> (\<forall>s \<in> set (summaries_t w). \<forall>b \<in> set (runs_t w). b_id b = s_run_id s \<longrightarrow> balanced b s w)"

lemma accountsD: "accounts w \<Longrightarrow> s \<in> set (summaries_t w) \<Longrightarrow> b \<in> set (runs_t w) \<Longrightarrow> b_id b = s_run_id s \<Longrightarrow> balanced b s w"
  by (simp add: accounts_def)

lemma accountsI:
  "(\<And>s b. s \<in> set (summaries_t w) \<Longrightarrow> b \<in> set (runs_t w) \<Longrightarrow> b_id b = s_run_id s \<Longrightarrow> balanced b s w) \<Longrightarrow> accounts w"
  by (simp add: accounts_def)

text \<open>Books that the same rows make, up to what the books do not read.\<close>

lemma balanced_same:
  assumes "balanced b s w" and "map task_key (tasks_t v) = map task_key (tasks_t w)"
  shows "balanced b s v"
proof -
  have o: "open_tasks k m u = length (filter (\<lambda>(k', m', r). k' = k \<and> m' = m) (map task_key (tasks_t u)))" for k m u
    by (simp add: open_tasks_def filter_map o_def task_key_def)
  have r: "run_open k u = list_ex (\<lambda>(k', m', r). k' = k) (map task_key (tasks_t u))" for k u
    by (auto simp: run_open_def sql_exists_def list_ex_iff task_key_def)
  show ?thesis using assms(1) unfolding balanced_def o r assms(2) .
qed

lemma accounts_same:
  assumes "accounts w" and "map task_key (tasks_t v) = map task_key (tasks_t w)"
    and "runs_t v = runs_t w" and "summaries_t v = summaries_t w"
  shows "accounts v"
  by (rule accountsI) (metis assms accountsD balanced_same)

lemma lease_accounts: "accounts w \<Longrightarrow> accounts (snd (lease_task w))"
  by (auto simp: lease_task_def update_tasks_def map_sql_update split: option.split elim!: accounts_same)

lemma retry_accounts: "accounts w \<Longrightarrow> accounts (snd (retry_task k waiting w))"
  by (auto simp: retry_task_def update_tasks_def map_sql_update task_key_def elim!: accounts_same)

text \<open>Creating a run: each statement either adds all of its rows or none.\<close>

lemma insert_Inr:
  "insert_task k w = (Inr u, v) \<longleftrightarrow> task_key k \<notin> task_key ` set (tasks_t w) \<and> has_run w (k_run_id k)
     \<and> has_receipt w (k_receipt_id k) \<and> v = w\<lparr>tasks_t := tasks_t w @ [k]\<rparr>"
  "insert_summary s w = (Inr u, v) \<longleftrightarrow> summary_key s \<notin> summary_key ` set (summaries_t w)
     \<and> has_run w (s_run_id s) \<and> v = w\<lparr>summaries_t := summaries_t w @ [s]\<rparr>"
  by (auto simp: insert_task_def insert_summary_def)

lemma insert_tasks_run:
  "for_each ks insert_task w = (Inr u, v) \<Longrightarrow>
   v = w\<lparr>tasks_t := tasks_t w @ ks\<rparr> \<and> distinct (map task_key ks)
   \<and> task_key ` set ks \<inter> task_key ` set (tasks_t w) = {}"
proof (induction ks arbitrary: w)
  case (Cons k ks)
  then obtain t where "insert_task k w = (Inr (), t)" "for_each ks insert_task t = (Inr u, v)"
    by (auto simp: seq_eq_Inr)
  with Cons.IH [of t] show ?case by (auto simp: insert_Inr)
qed simp

lemma insert_summaries_run:
  "for_each ss insert_summary w = (Inr u, v) \<Longrightarrow>
   v = w\<lparr>summaries_t := summaries_t w @ ss\<rparr> \<and> distinct (map summary_key ss)
   \<and> summary_key ` set ss \<inter> summary_key ` set (summaries_t w) = {}"
proof (induction ss arbitrary: w)
  case (Cons s ss)
  then obtain t where "insert_summary s w = (Inr (), t)" "for_each ss insert_summary t = (Inr u, v)"
    by (auto simp: seq_eq_Inr)
  with Cons.IH [of t] show ?case by (auto simp: insert_Inr)
qed simp

text \<open>
  What creating a run leaves behind: nothing new, the run alone, the run with its tasks, or all
  of it. The first three are what a failing statement leaves.
\<close>

lemma create_run_cases:
  assumes "create_run ms rs fp ds t p sc w = (x, v)"
  obtains (none) "runs_t v = runs_t w" "tasks_t v = tasks_t w" "summaries_t v = summaries_t w"
  | (part) b where "\<not> has_run w (b_id b)" "runs_t v = runs_t w @ [b]" "summaries_t v = summaries_t w"
      "tasks_t v = tasks_t w \<or> tasks_t v = tasks_t w @ run_tasks (b_id b) ms rs"
  | (all) b where "x = Inr b" "\<not> has_run w (b_id b)" "\<not> b_completed b" "b_receipt_ids b = rs" "b_model_ids b = ms"
      "distinct ms" "runs_t v = runs_t w @ [b]"
      "tasks_t v = tasks_t w @ run_tasks (b_id b) ms rs" "summaries_t v = summaries_t w @ map (new_summary (b_id b) ds) ms"
proof -
  define k where "k = w_supply w (w_tick w)"
  define b where "b = \<lparr>b_id = k, b_completed = False, b_model_ids = ms, b_receipt_ids = rs,
     b_fingerprint = fp, b_digests = ds, b_prompt_version = p, b_scoring_version = sc,
     b_timeout = t, b_created_at = w_clock w, b_completed_at = None\<rparr>"
  define w1 where "w1 = w\<lparr>w_tick := Suc (w_tick w)\<rparr>"
  define w2 where "w2 = w1\<lparr>runs_t := runs_t w @ [b]\<rparr>"
  have bk: "b_id b = k" by (simp add: b_def)
  have run: "create_run ms rs fp ds t p sc w = bind (insert_run b)
     (\<lambda>b. seq (transaction (for_each (run_tasks k ms rs) insert_task))
       (seq (transaction (for_each (map (new_summary k ds) ms) insert_summary)) (ret b))) w1"
    by (simp add: create_run_def bind_def [of gen_uuid] gen_uuid_def k_def b_def w1_def)
  show thesis
  proof (cases "insert_run b w1")
    case (Pair r v1)
    show thesis
    proof (cases r)
      case (Inl e)
      with Pair assms run have "v = v1" "v1 = w1" by (auto simp: insert_run_def split: if_splits)
      then show thesis by (intro none) (simp_all add: w1_def)
    next
      case (Inr b')
      with Pair have ins: "insert_run b w1 = (Inr b, w2)" and fresh: "\<not> has_run w (b_id b)"
        by (auto simp: insert_run_def w1_def w2_def has_defs split: if_splits)
      have run2: "(x, v) = seq (transaction (for_each (run_tasks k ms rs) insert_task))
       (seq (transaction (for_each (map (new_summary k ds) ms) insert_summary)) (ret b)) w2"
        using assms run ins by simp
      obtain r3 v3 where tasks: "for_each (run_tasks k ms rs) insert_task w2 = (r3, v3)" by fastforce
      show thesis
      proof (cases r3)
        case (Inl e)
        then have "v = w2\<lparr>w_tick := w_tick v3, w_clock := w_clock v3\<rparr>"
          using run2 tasks by (simp add: seq_def bind_def transaction_def)
        then show thesis using fresh by (intro part [of b]) (simp_all add: w2_def w1_def)
      next
        case (Inr u)
        then have v3: "v3 = w2\<lparr>tasks_t := tasks_t w2 @ run_tasks k ms rs\<rparr>"
          using insert_tasks_run tasks by blast
        obtain r4 v4 where sums: "for_each (map (new_summary k ds) ms) insert_summary v3 = (r4, v4)" by fastforce
        show thesis
        proof (cases r4)
          case (Inl e)
          then have "v = v3\<lparr>w_tick := w_tick v4, w_clock := w_clock v4\<rparr>"
            using run2 tasks sums Inr by (simp add: seq_def bind_def transaction_def)
          then show thesis using fresh by (intro part [of b]) (simp_all add: v3 w2_def w1_def bk)
        next
          case (Inr u')
          with sums have "v4 = v3\<lparr>summaries_t := summaries_t v3 @ map (new_summary k ds) ms\<rparr>"
            "distinct (map summary_key (map (new_summary k ds) ms))"
            using insert_summaries_run by blast+
          moreover have "(x, v) = (Inr b, v4)"
            using run2 tasks sums Inr \<open>r3 = Inr u\<close> by (simp add: seq_def bind_def transaction_def)
          ultimately show thesis using fresh
            by (intro all [of b]) (simp_all add: v3 w2_def w1_def bk b_def summary_key_def new_summary_def o_def distinct_map)
        qed
      qed
    qed
  qed
qed

lemma run_tasks_open: "distinct ms \<Longrightarrow> m \<in> set ms \<Longrightarrow>
   length (filter (\<lambda>t. k_run_id t = k \<and> k_model_id t = m) (run_tasks k ms rs)) = length rs"
proof (induction ms)
  case (Cons n ms)
  have new: "k_run_id (new_task k n r) = k" "k_model_id (new_task k n r) = n" for n r by (simp_all add: new_task_def)
  have none: "filter (\<lambda>t. k_run_id t = k \<and> k_model_id t = m) (run_tasks k ms rs) = []" if "m \<notin> set ms"
    using that new by (auto simp: run_tasks_def filter_empty_conv)
  show ?case
  proof (cases "m = n")
    case True
    with Cons.prems none show ?thesis by (simp add: run_tasks_def filter_map o_def new)
  next
    case False
    with Cons show ?thesis by (simp add: run_tasks_def filter_map o_def new)
  qed
qed simp

lemma open_tasks_run: "open_tasks k m w \<noteq> 0 \<Longrightarrow> run_open k w"
  by (auto simp: open_tasks_def run_open_def sql_exists_iff filter_empty_conv)

lemma create_accounts:
  assumes ok: "db_ok w" and books: "accounts w"
  shows "accounts (snd (create_run ms rs fp ds t p sc w))"
proof -
  obtain x v where run: "create_run ms rs fp ds t p sc w = (x, v)" by fastforce
  have stale: "\<not> has_run w k \<Longrightarrow> s \<in> set (summaries_t w) \<Longrightarrow> s_run_id s \<noteq> k" for k s
    using db_okD(6) [OF ok] by (auto simp: task_refs_def)
  have other: "balanced b' s v" if fresh: "\<not> has_run w (b_id b)" and runs: "runs_t v = runs_t w @ [b]"
      and tasks: "tasks_t v = tasks_t w \<or> tasks_t v = tasks_t w @ run_tasks (b_id b) ms rs"
      and s: "s \<in> set (summaries_t w)" and b': "b' \<in> set (runs_t v)" "b_id b' = s_run_id s" for b b' s
  proof -
    have ne: "b_id b' \<noteq> b_id b" using stale [OF fresh s] b'(2) by simp
    then have "b' \<in> set (runs_t w)" using b'(1) runs by auto
    then have "balanced b' s w" using accountsD [OF books s] b'(2) by simp
    moreover have "filter (\<lambda>t. k_run_id t = b_id b' \<and> k_model_id t = s_model_id s) (run_tasks (b_id b) ms rs) = []"
      "\<not> list_ex (\<lambda>t. k_run_id t = b_id b') (run_tasks (b_id b) ms rs)"
      using ne by (auto simp: filter_empty_conv run_tasks_def new_task_def list_ex_iff)
    ultimately show ?thesis using tasks by (auto simp: balanced_def open_tasks_def run_open_def sql_exists_def)
  qed
  show ?thesis
    using run
  proof (cases rule: create_run_cases)
    case none
    with books run show ?thesis by (auto elim!: accounts_same)
  next
    case (part b)
    with other run show ?thesis by (auto intro!: accountsI)
  next
    case (all b)
    show ?thesis unfolding run snd_conv
    proof (rule accountsI)
      fix s b' assume s: "s \<in> set (summaries_t v)" and b': "b' \<in> set (runs_t v)" "b_id b' = s_run_id s"
      show "balanced b' s v"
      proof (cases "s \<in> set (summaries_t w)")
        case True
        with other all b' show ?thesis by blast
      next
        case False
        then obtain m where m: "m \<in> set ms" "s = new_summary (b_id b) ds m" using s all(9) by auto
        then have "b' = b" using b' all(2,7) by (auto simp: has_run_def new_summary_def image_iff)
        have no: "filter (\<lambda>t. k_run_id t = b_id b \<and> q t) (tasks_t w) = []" for q
          using db_okD(6) [OF ok] all(2) by (auto simp: task_refs_def filter_empty_conv)
        have "open_tasks (b_id b) m v = length rs"
          using run_tasks_open [OF all(6) m(1)] no by (simp add: open_tasks_def all(8))
        moreover from this have "run_open (b_id b) v" if "rs \<noteq> []"
          using that open_tasks_run [of "b_id b" m v] by simp
        ultimately show ?thesis unfolding \<open>b' = b\<close> m(2) by (simp add: balanced_def new_summary_def all(3,4))
      qed
    qed
  qed
qed

text \<open>Finishing: the key picks out one row, which leaves the open tasks and enters the counts.\<close>

lemma delete_one_task:
  assumes "distinct (map task_key ts)" and "task_key k \<in> task_key ` set ts"
    and "\<And>t. task_key t = task_key k \<Longrightarrow> q t = q k"
  shows "int (length (filter q ts)) = int (length (filter q (sql_delete (same_task k) ts))) + (if q k then 1 else 0)"
  using assms(1,2)
proof (induction ts)
  case (Cons t ts)
  show ?case
  proof (cases "task_key t = task_key k")
    case True
    with Cons.prems have "\<forall>t \<in> set ts. \<not> same_task k t" by (auto simp: same_task_def) (metis image_eqI)
    then have "sql_delete (same_task k) (t # ts) = ts" using True sql_delete_none by (simp add: sql_delete_def same_task_def)
    with True assms(3) [of t] show ?thesis by simp
  next
    case False
    with Cons show ?thesis by (auto simp: sql_delete_def same_task_def)
  qed
qed simp

lemma finish_run:
  "finish_task k success score confidence attempts latency w = (Inr (),
     w\<lparr>tasks_t := sql_delete (same_task k) (tasks_t w),
       summaries_t := sql_update (\<lambda>s. s_run_id s = k_run_id k \<and> s_model_id s = k_model_id k)
         (count_outcome success score confidence attempts latency) (summaries_t w),
       runs_t := (if sql_exists (\<lambda>t. k_run_id t = k_run_id k) (sql_delete (same_task k) (tasks_t w)) then runs_t w
         else sql_update (\<lambda>b. b_id b = k_run_id k)
           (\<lambda>b. b\<lparr>b_completed := True, b_completed_at := Some (w_clock w)\<rparr>) (runs_t w))\<rparr>)"
  by (simp add: finish_task_def transaction_def)

lemma finish_accounts:
  assumes ok: "db_ok w" and books: "accounts w" and key: "task_key k \<in> task_key ` set (tasks_t w)"
  shows "accounts (snd (finish_task k success score confidence attempts latency w))"
proof (rule accountsI)
  let ?v = "snd (finish_task k success score confidence attempts latency w)"
  have keys: "distinct (map task_key (tasks_t w))" using db_okD(1) [OF ok] by (simp add: keys_ok_def)
  fix s b assume s: "s \<in> set (summaries_t ?v)" and b: "b \<in> set (runs_t ?v)" and id: "b_id b = s_run_id s"
  obtain s0 where s0: "s0 \<in> set (summaries_t w)"
    and sd: "s = (if s_run_id s0 = k_run_id k \<and> s_model_id s0 = k_model_id k
       then count_outcome success score confidence attempts latency s0 else s0)"
    using s by (auto simp: finish_run sql_update_def)
  obtain b0 where b0: "b0 \<in> set (runs_t w)" and bid: "b_id b = b_id b0" "b_receipt_ids b = b_receipt_ids b0"
    and done_: "b_completed b = (b_completed b0 \<or> b_id b0 = k_run_id k \<and> \<not> run_open (k_run_id k) ?v)"
    using b by (auto simp: finish_run sql_update_def run_open_def split: if_splits)
  have sid: "s_run_id s = s_run_id s0" "s_model_id s = s_model_id s0" by (simp_all add: sd count_outcome_def)
  have bal: "balanced b0 s0 w" using accountsD [OF books s0 b0] id bid sid by simp
  have count: "int (open_tasks r m w) = int (open_tasks r m ?v) + (if k_run_id k = r \<and> k_model_id k = m then 1 else 0)" for r m
    using delete_one_task [OF keys key, of "\<lambda>t. k_run_id t = r \<and> k_model_id t = m"]
    by (simp add: open_tasks_def finish_run task_key_def)
  have was: "run_open (k_run_id k) w" using key by (auto simp: run_open_def sql_exists_iff task_key_def)
  have same: "run_open r ?v = run_open r w" if "r \<noteq> k_run_id k" for r
    using that by (auto simp: run_open_def sql_exists_iff finish_run set_sql_delete same_task_def task_key_def)
  have "b_completed b = (\<not> run_open (b_id b0) ?v)" if "b_receipt_ids b0 \<noteq> []"
  proof (cases "b_id b0 = k_run_id k")
    case True
    then show ?thesis using bal that was done_ by (simp add: balanced_def)
  next
    case False
    then show ?thesis using bal that same [OF False] done_ by (simp add: balanced_def)
  qed
  moreover have "s_run_id s0 = b_id b0" using id bid sid by simp
  ultimately show "balanced b s ?v"
    using bal count [of "b_id b0" "s_model_id s0"]
    by (auto simp: balanced_def bid sid sd count_outcome_def)
qed

text \<open>
  The life of the benchmark tables: runs are created (whatever becomes of it), tasks are leased,
  put back and finished while they are open, time passes, and the rest of the program works on the
  other tables. A worker that outlives its lease and finishes a task another worker has finished
  already is outside of it.
\<close>

inductive bench_step :: "world \<Rightarrow> world \<Rightarrow> bool" where
  created: "bench_step w (snd (create_run ms rs fp ds t p sc w))"
| leased: "bench_step w (snd (lease_task w))"
| put_back: "bench_step w (snd (retry_task k waiting w))"
| finished: "task_key k \<in> task_key ` set (tasks_t w) \<Longrightarrow>
    bench_step w (snd (finish_task k success score confidence attempts latency w))"
| elsewhere: "db_ok v \<Longrightarrow> runs_t v = runs_t w \<Longrightarrow> tasks_t v = tasks_t w \<Longrightarrow> summaries_t v = summaries_t w \<Longrightarrow>
    bench_step w v"

lemma bench_step_books: "bench_step w v \<Longrightarrow> db_ok w \<and> accounts w \<Longrightarrow> db_ok v \<and> accounts v"
proof (induction rule: bench_step.induct)
  case created
  then show ?case using benchmark_ops_ok(1) create_accounts by (blast dest: keepsD)
next
  case leased
  then show ?case using benchmark_ops_ok(2) lease_accounts by (blast dest: keepsD)
next
  case put_back
  then show ?case using benchmark_ops_ok(3) retry_accounts by (blast dest: keepsD)
next
  case finished
  then show ?case using benchmark_ops_ok(4) finish_accounts by (blast dest: keepsD)
next
  case elsewhere
  then show ?case by (auto elim: accounts_same)
qed

lemma reachable_books: "bench_step\<^sup>*\<^sup>* fresh_world w \<Longrightarrow> db_ok w \<and> accounts w"
proof (induction rule: rtranclp_induct)
  case base
  have "summaries_t fresh_world = []" by (simp add: fresh_world_def)
  then show ?case by (simp add: accounts_def)
next
  case step
  then show ?case by (blast dest: bench_step_books)
qed


definition bench_receipt :: receipt_row where
  "bench_receipt = \<lparr>r_id = 1, r_confidence = 90, r_merchant_name = ''shop'', r_merchant_address = None,
     r_receipt_number = None, r_date = Date 2024 5 1, r_time = None, r_currency = ''EUR'',
     r_category = ''groceries'', r_subtotal = 1, r_discount_total = 0, r_tax_total = 0, r_tip = None, r_total = 1,
     r_payment_method = ''unknown'', r_created_at = 0, r_status = Unverified, r_image_id = None, r_verified = True,
     r_user_id = None\<rparr>"

definition bench_world :: world where
  "bench_world = fresh_world\<lparr>receipts_t := [bench_receipt]\<rparr>"

lemma bench_world_ok: "db_ok bench_world"
  by (simp add: bench_world_def fresh_world_def db_ok_def keys_ok_def refs_defs one_receipt_per_image_def
      one_active_collection_def widths_ok_def SEED_TAGS_def bench_receipt_def receipt_fits_def varchar_def varchar_opt_def)

definition bench_started :: world where
  "bench_started = snd (create_run [''m''] [1] [] [] 300 [] [] bench_world)"

definition bench_ended :: world where
  "bench_ended = snd (fail_task (new_task 100 ''m'' 1) bench_started)"

lemma bench_started_tables:
  "tasks_t bench_started = [new_task 100 ''m'' 1]" "summaries_t bench_started = [new_summary 100 [] ''m'']"
  "map (\<lambda>b. (b_id b, b_receipt_ids b)) (runs_t bench_started) = [(100, [1])]"
  by code_simp+


end
