(* ===== verification/BenchmarkService.thy ===== *)
theory BenchmarkService
  imports Scheduler Search BenchmarkScoring BenchmarkStore
begin

text \<open>
  service/benchmark_service.py (BenchmarkService) and api/benchmarks.py: creating a run over verified
  receipts, the worker that executes its tasks one by one, the transient re-evaluation, and the
  administrator's routes. The provider and the JSON dump are parameters; the wording of pydantic's
  own validation errors is not modelled.
\<close>

section \<open>The expected receipt\<close>

definition invalid_row :: exn where
  "invalid_row = ValueError ''validation error for Receipt''"

definition expected_item :: "item_row \<Rightarrow> exn + line_item" where
  "expected_item i = mk_line_item (li_description i) (Some (JStr (li_category i))) (to_double (li_quantity i))
     (li_unit_price i) (li_total_price i) (li_tags i)"

definition expected_tax :: "tax_row \<Rightarrow> exn + tax_line" where
  "expected_tax t = (if tx_amount t < 0 then Inl invalid_row
     else Inr \<lparr>x_name = tx_name t, x_rate = map_option to_double (tx_rate t), x_amount = tx_amount t\<rparr>)"

definition stored_receipt :: "receipt_row \<Rightarrow> line_item list \<Rightarrow> tax_line list \<Rightarrow> receipt" where
  "stored_receipt r items taxes = \<lparr>rc_confidence = r_confidence r, rc_merchant_name = r_merchant_name r,
     rc_merchant_address = r_merchant_address r, rc_receipt_number = r_receipt_number r, rc_date = r_date r,
     rc_time = map_option time_isoformat (r_time r), rc_currency = r_currency r, rc_category = r_category r,
     rc_line_items = items, rc_taxes = taxes, rc_subtotal = r_subtotal r, rc_discount_total = r_discount_total r,
     rc_tax_total = r_tax_total r, rc_tip = r_tip r, rc_total = r_total r, rc_payment_method = r_payment_method r\<rparr>"

text \<open>\<open>model_validate\<close> checks the fields; the row has already been verified by a person.\<close>

definition expected_receipt_and_path :: "uuid \<Rightarrow> (world, receipt \<times> string option) py" where
  "expected_receipt_and_path k =
     bind (get_receipt_with_details k None False) (\<lambda>details. case details of
       None \<Rightarrow> raise (ValueError ''Benchmark data must be a verified receipt'')
     | Some d \<Rightarrow>
        if \<not> r_verified (rd_receipt d) then raise (ValueError ''Benchmark data must be a verified receipt'')
        else bind (collect (rd_line_items d) (\<lambda>i. lift_result (expected_item i))) (\<lambda>items.
          bind (collect (rd_taxes d) (\<lambda>t. lift_result (expected_tax t))) (\<lambda>taxes.
            let r = stored_receipt (rd_receipt d) items taxes in
              if valid_receipt r then ret (r, rd_image_path d) else raise invalid_row)))"

definition expected_receipt :: "uuid \<Rightarrow> (world, receipt) py" where
  "expected_receipt k = bind (expected_receipt_and_path k) (\<lambda>p. ret (fst p))"

section \<open>Creating a run\<close>

record benchmark_create =
  bq_model_ids :: "string list option"
  bq_receipt_ids :: "uuid list option"
  bq_category :: "string option"
  bq_max_confidence :: "int option"
  bq_limit :: "nat option"
  bq_timeout :: int

definition selection_filter :: list_filter where
  "selection_filter = \<lparr>lf_status = Some [''verified''], lf_from = None, lf_to = None, lf_search = None, lf_collection = None\<rparr>"

definition wanted :: "benchmark_create \<Rightarrow> receipt_row \<Rightarrow> bool" where
  "wanted q r \<longleftrightarrow> (case bq_category q of None \<Rightarrow> True | Some c \<Rightarrow> r_category r = c)
     \<and> (case bq_max_confidence q of None \<Rightarrow> True | Some n \<Rightarrow> r_confidence r \<le> n)"

text \<open>The limit cuts the list before the category and the confidence are looked at.\<close>

definition if_verified :: "uuid \<Rightarrow> (world, uuid list) py" where
  "if_verified k = bind (get_receipt_by_id k None False) (\<lambda>row.
     ret (case row of None \<Rightarrow> [] | Some r \<Rightarrow> if r_verified r then [k] else []))"

definition select_receipts :: "benchmark_create \<Rightarrow> (world, uuid list) py" where
  "select_receipts q = (case bq_receipt_ids q of
     Some ids \<Rightarrow> bind (collect ids if_verified) (\<lambda>kss. ret (concat kss))
   | None \<Rightarrow> bind (list_receipts (case bq_limit q of None \<Rightarrow> 10000 | Some n \<Rightarrow> if n = 0 then 10000 else n) 0
         selection_filter None False) (\<lambda>rows. ret (map r_id (filter (wanted q) (map fst rows)))))"

text \<open>\<open>list(available)\<close>: the keys of the dict, each at its first place.\<close>

definition available_ids :: "model_info list \<Rightarrow> string list" where
  "available_ids models = rev (remdups (rev (map mi_id models)))"

definition selected_models :: "benchmark_create \<Rightarrow> model_info list \<Rightarrow> string list" where
  "selected_models q models = (case bq_model_ids q of
     None \<Rightarrow> available_ids models | Some ms \<Rightarrow> if ms = [] then available_ids models else ms)"

definition unknown_models :: "string list \<Rightarrow> model_info list \<Rightarrow> string list" where
  "unknown_models selected models = sort_key (map code_of) (remdups (filter (\<lambda>m. m \<notin> mi_id ` set models) selected))"

definition create_benchmark ::
  "(string \<Rightarrow> string) \<Rightarrow> (receipt \<Rightarrow> string) \<Rightarrow> provider \<Rightarrow> benchmark_create \<Rightarrow> (world, run_row) py" where
  "create_benchmark sha enc prov q =
     bind (call (p_models prov)) (\<lambda>models.
      (let selected = selected_models q models; unknown = unknown_models selected models in
       seq (guard (selected \<noteq> []) (ValueError ''No vision models are available''))
       (seq (guard (unknown = []) (ValueError (''Selected model(s) unavailable: '' @ py_join '', '' unknown)))
       (bind (select_receipts q) (\<lambda>ids.
        seq (guard (ids \<noteq> []) (ValueError ''No verified receipts match the selection''))
        (bind (collect ids expected_receipt) (\<lambda>expected.
          create_run selected ids (dataset_fingerprint sha enc expected) (map (\<lambda>m. (mi_id m, mi_digest m)) models)
            (bq_timeout q) PROMPT_VERSION SCORING_VERSION)))))))"

section \<open>Reading a run, evaluating once more\<close>

record benchmark_status =
  bst_run :: run_row
  bst_counts :: task_counts
  bst_summaries :: "benchmark_summary list"

definition get_status :: "uuid \<Rightarrow> (world, benchmark_status option) py" where
  "get_status k = bind (get_run k) (\<lambda>run. case run of
     None \<Rightarrow> ret None
   | Some b \<Rightarrow> bind (get_task_counts k) (\<lambda>counts. bind (get_summaries k) (\<lambda>summaries.
       ret (Some \<lparr>bst_run = b, bst_counts = counts, bst_summaries = summaries\<rparr>))))"

definition photo_at :: "string option \<Rightarrow> string \<Rightarrow> (world, string) py" where
  "photo_at path err = (case path of
     None \<Rightarrow> raise (FileNotFoundError err)
   | Some p \<Rightarrow> if p = [] then raise (FileNotFoundError err)
       else bind (gets (file_exists p)) (\<lambda>there. if there then ret p else raise (FileNotFoundError err)))"

record 'd reevaluation =
  re_scores :: scores
  re_expected :: "(string \<times> 'd) list"
  re_actual :: "(string \<times> 'd) list"
  re_diff :: "(string \<times> 'd \<times> 'd option) list"

definition dump_diff :: "(string \<times> 'd) list \<Rightarrow> (string \<times> 'd) list \<Rightarrow> (string \<times> 'd \<times> 'd option) list" where
  "dump_diff e a = map (\<lambda>(k, v). (k, v, map_of a k)) (filter (\<lambda>(k, v). map_of a k \<noteq> Some v) e)"

definition reevaluate ::
  "(receipt \<Rightarrow> (string \<times> 'd) list) \<Rightarrow> provider \<Rightarrow> uuid \<Rightarrow> uuid \<Rightarrow> string \<Rightarrow> (world, 'd reevaluation) py" where
  "reevaluate dump prov run_id receipt_id model_id =
     bind (get_run run_id) (\<lambda>run.
     seq (guard (case run of None \<Rightarrow> False | Some b \<Rightarrow> receipt_id \<in> set (b_receipt_ids b) \<and> model_id \<in> set (b_model_ids b))
       (ValueError ''Receipt/model is not part of this benchmark run''))
     (bind (expected_receipt_and_path receipt_id) (\<lambda>p.
      bind (photo_at (snd p) ''Verified receipt image is unavailable'') (\<lambda>path.
      bind (call (p_analyse prov model_id [path] [])) (\<lambda>a.
      bind (score_receipts (fst p) (an_receipt a)) (\<lambda>scores.
       ret \<lparr>re_scores = scores, re_expected = dump (fst p), re_actual = dump (an_receipt a),
         re_diff = dump_diff (dump (fst p)) (dump (an_receipt a))\<rparr>))))))"

section \<open>The worker\<close>

definition dict_get :: "('k \<times> 'v) list \<Rightarrow> 'k \<Rightarrow> 'v option" where
  "dict_get kvs = map_of (rev kvs)"

definition digest_changed :: "run_row \<Rightarrow> string \<Rightarrow> model_info \<Rightarrow> bool" where
  "digest_changed b m info = (case (dict_get (b_digests b) m, mi_digest info) of
     (Some (Some d), Some d') \<Rightarrow> d \<noteq> [] \<and> d' \<noteq> [] \<and> d \<noteq> d' | _ \<Rightarrow> False)"

definition run_task :: "provider \<Rightarrow> run_row \<Rightarrow> task_row \<Rightarrow> (world, unit) py" where
  "run_task prov b k =
     bind (expected_receipt_and_path (k_receipt_id k)) (\<lambda>p.
     bind (photo_at (snd p) ''Image missing'') (\<lambda>path.
     bind (call_within (b_timeout b) (p_analyse prov (k_model_id k) [path] [])) (\<lambda>a.
     bind (score_receipts (fst p) (an_receipt a)) (\<lambda>scores.
       finish_task k True (sc_overall scores) (rc_confidence (an_receipt a)) (int (an_attempts a))
         (of_int (an_elapsed_ms a))))))"

definition task_failed :: "task_row \<Rightarrow> exn \<Rightarrow> (world, unit) py" where
  "task_failed k e = (case e of ValueError _ \<Rightarrow> fail_task k | FileNotFoundError _ \<Rightarrow> fail_task k | _ \<Rightarrow> retry_task k False)"

definition execute :: "provider \<Rightarrow> task_row \<Rightarrow> (world, unit) py" where
  "execute prov k =
     bind (attempt (call (p_models prov))) (\<lambda>answer. case answer of
       Inl _ \<Rightarrow> retry_task k False
     | Inr models \<Rightarrow>
        bind (get_run (k_run_id k)) (\<lambda>run. case run of
          None \<Rightarrow> ret ()
        | Some b \<Rightarrow> (case dict_get (map (\<lambda>m. (mi_id m, m)) models) (k_model_id k) of
             None \<Rightarrow> retry_task k True
           | Some info \<Rightarrow>
              if digest_changed b (k_model_id k) info then retry_task k True
              else catch (run_task prov b k) (task_failed k))))"

definition sleep_for :: "int \<Rightarrow> (world, unit) py" where
  "sleep_for n = modify (\<lambda>w. w\<lparr>w_clock := w_clock w + n\<rparr>)"

text \<open>One turn of the worker's loop.\<close>

definition work_round :: "provider \<Rightarrow> (world, unit) py" where
  "work_round prov = catch
     (bind lease_task (\<lambda>task. case task of None \<Rightarrow> sleep_for 1 | Some k \<Rightarrow> execute prov k)) (\<lambda>_. sleep_for 5)"

text \<open>The worker's task and the stop event, as \<open>start\<close> and \<open>stop\<close> leave them.\<close>

record bench_worker =
  bw_running :: bool
  bw_stopping :: bool

definition start_benchmarks :: "bench_worker \<Rightarrow> bench_worker" where
  "start_benchmarks b = (if bw_running b then b else \<lparr>bw_running = True, bw_stopping = False\<rparr>)"

definition stop_benchmarks :: "bench_worker \<Rightarrow> bench_worker" where
  "stop_benchmarks b = \<lparr>bw_running = False, bw_stopping = True\<rparr>"

section \<open>Routes\<close>

text \<open>The routes are for administrators only; \<open>get_benchmark_service\<close> is unavailable without a database.\<close>

definition created_response :: "run_row \<Rightarrow> (uuid \<Rightarrow> string) \<Rightarrow> run_row \<times> string" where
  "created_response b show_id = (b, ''/api/v1/benchmarks/'' @ show_id (b_id b))"

definition valid_request :: "benchmark_create \<Rightarrow> bool" where
  "valid_request q \<longleftrightarrow> (case bq_max_confidence q of None \<Rightarrow> True | Some n \<Rightarrow> 0 \<le> n \<and> n \<le> 100)
     \<and> (case bq_limit q of None \<Rightarrow> True | Some n \<Rightarrow> 1 \<le> n) \<and> 1 \<le> bq_timeout q"

definition create_benchmark_run ::
  "(string \<Rightarrow> string) \<Rightarrow> (receipt \<Rightarrow> string) \<Rightarrow> (uuid \<Rightarrow> string) \<Rightarrow> provider \<Rightarrow> benchmark_create \<Rightarrow> (world, run_row \<times> string) py" where
  "create_benchmark_run sha enc show_id prov q =
     seq (guard (valid_request q) (HTTPError 422 ''Unprocessable Entity''))
     (bind (catch (create_benchmark sha enc prov q)
         (\<lambda>e. case e of ValueError s \<Rightarrow> raise (HTTPError 422 s) | _ \<Rightarrow> raise e))
       (\<lambda>b. ret (created_response b show_id)))"

definition list_benchmark_runs :: "nat \<Rightarrow> nat \<Rightarrow> (world, run_row list) py" where
  "list_benchmark_runs limit offset =
     seq (guard (1 \<le> limit \<and> limit \<le> 500) (HTTPError 422 ''Unprocessable Entity''))
       (bind list_runs (\<lambda>runs. ret (take limit (drop offset runs))))"

definition get_benchmark_status :: "uuid \<Rightarrow> (world, benchmark_status) py" where
  "get_benchmark_status k = bind (get_status k) (\<lambda>st. case st of
     None \<Rightarrow> raise (HTTPError 404 ''Benchmark run not found'') | Some x \<Rightarrow> ret x)"

definition reevaluate_receipt ::
  "(receipt \<Rightarrow> (string \<times> 'd) list) \<Rightarrow> provider \<Rightarrow> uuid \<Rightarrow> uuid \<Rightarrow> string \<Rightarrow> (world, 'd reevaluation) py" where
  "reevaluate_receipt dump prov run_id receipt_id model_id =
     seq (guard (model_id \<noteq> []) (HTTPError 422 ''Unprocessable Entity''))
     (catch (reevaluate dump prov run_id receipt_id model_id)
       (\<lambda>e. case e of ValueError s \<Rightarrow> raise (HTTPError 404 s) | FileNotFoundError s \<Rightarrow> raise (HTTPError 404 s) | _ \<Rightarrow> raise e))"

section \<open>Benchmarks read the records, they do not write them\<close>

text \<open>Everything the users own: accounts, receipts with their parts, images, collections, tags and files.\<close>

definition records ::
  "world \<Rightarrow> user_row list \<times> receipt_row list \<times> item_row list \<times> tax_row list \<times> image_row list \<times> collection_row list
     \<times> link_row list \<times> string list \<times> alias_row list \<times> (string \<Rightarrow> string option)" where
  "records w = (users_t w, receipts_t w, items_t w, taxes_t w, images_t w, collections_t w, links_t w, tags_t w,
     aliases_t w, w_files w)"

lemma records_same [simp]:
  "records (w\<lparr>w_clock := t\<rparr>) = records w" "records (w\<lparr>w_tick := n\<rparr>) = records w"
  "records (w\<lparr>runs_t := rs\<rparr>) = records w" "records (w\<lparr>tasks_t := ks\<rparr>) = records w"
  "records (w\<lparr>summaries_t := ss\<rparr>) = records w"
  by (simp_all add: records_def)

lemma call_keeps:
  assumes "\<And>w t. P w \<Longrightarrow> P (w\<lparr>w_clock := t\<rparr>)"
  shows "keeps P (call f)" "keeps P (call_within n f)" "keeps P (sleep_for m)"
  using assms by (simp_all add: keeps_def call_def call_within_def sleep_for_def split: prod.split)

lemma attempt_keeps [keeps_intro]: "keeps P m \<Longrightarrow> keeps P (attempt m)"
  by (simp add: keeps_def attempt_def split: prod.split)

lemma reads_parts:
  "keeps P (get_run k)" "keeps P (expected_receipt_and_path r)" "keeps P (photo_at p e)" "keeps P (money_equal x y)"
  "keeps P (score_receipts a b)" "keeps P (expected_receipt r)" "keeps P (select_receipts q)"
proof -
  show "keeps P (get_run k)" unfolding get_run_def by (intro keeps_intro)
  show e: "keeps P (expected_receipt_and_path r)" for r
    unfolding expected_receipt_and_path_def get_receipt_with_details_def get_receipt_by_id_def list_line_items_def
      list_taxes_def Let_def by (intro keeps_intro)
  show "keeps P (expected_receipt r)" unfolding expected_receipt_def by (intro keeps_intro e)
  show "keeps P (photo_at p e)" unfolding photo_at_def by (intro keeps_intro)
  show m: "keeps P (money_equal x y)" for x y unfolding money_equal_def by (intro keeps_intro)
  show "keeps P (score_receipts a b)"
    unfolding score_receipts_def item_match_def tax_match_def Let_def by (intro keeps_intro m)
  show "keeps P (select_receipts q)"
    unfolding select_receipts_def if_verified_def get_receipt_by_id_def list_receipts_def by (intro keeps_intro)
qed

lemma keeps_when: "(\<And>w. P w \<Longrightarrow> P (snd (m w))) \<Longrightarrow> keeps P m"
  by (simp add: keeps_def)

lemma run_task_keeps:
  assumes "\<And>w t. P w \<Longrightarrow> P (w\<lparr>w_clock := t\<rparr>)" and "\<And>s sc c a l. keeps P (finish_task k s sc c a l)"
  shows "keeps P (run_task prov b k)"
  unfolding run_task_def by (intro keeps_intro reads_parts call_keeps assms)

lemma execute_keeps:
  assumes "\<And>w t. P w \<Longrightarrow> P (w\<lparr>w_clock := t\<rparr>)" and "\<And>s sc c a l. keeps P (finish_task k s sc c a l)"
    and "\<And>waiting. keeps P (retry_task k waiting)"
  shows "keeps P (execute prov k)"
  unfolding execute_def task_failed_def fail_task_def
  by (intro keeps_intro reads_parts call_keeps run_task_keeps assms) (auto intro: keeps_intro assms split: exn.split)

lemma store_keeps_records:
  "keeps (\<lambda>w. records w = R) lease_task" "keeps (\<lambda>w. records w = R) (retry_task k waiting)"
  "keeps (\<lambda>w. records w = R) (finish_task k s sc c a l)" "keeps (\<lambda>w. records w = R) (create_run ms rs fp ds t p v)"
proof -
  show "keeps (\<lambda>w. records w = R) lease_task" "keeps (\<lambda>w. records w = R) (retry_task k waiting)"
    unfolding lease_task_def retry_task_def update_tasks_def by (intro keeps_intro; simp)+
  show "keeps (\<lambda>w. records w = R) (finish_task k s sc c a l)"
    by (rule keeps_when) (simp add: finish_run)
  have tr: "keeps (\<lambda>w. records w = R) m \<Longrightarrow> keeps (\<lambda>w. records w = R) (transaction m)" for m :: "(world, unit) py"
    by (rule keeps_transaction) simp_all
  show "keeps (\<lambda>w. records w = R) (create_run ms rs fp ds t p v)"
    unfolding create_run_def
    by (intro keeps_intro tr) (simp_all add: keeps_def gen_uuid_def insert_run_def insert_task_def insert_summary_def)
qed

lemma run_never_fails:
  "\<exists>v. execute prov k w = (Inr (), v)"
proof -
  have retry: "\<exists>v. retry_task k b w = (Inr (), v)" for b w by (simp add: retry_task_def update_tasks_def)
  have failed: "\<exists>v. task_failed k e w = (Inr (), v)" for e w
    using retry by (cases e) (simp_all add: task_failed_def fail_task_def finish_run)
  have run: "\<exists>v. catch (run_task prov b k) (task_failed k) w = (Inr (), v)" for b w
    using failed by (auto simp: catch_def split: prod.split sum.split)
  obtain answer t where ask: "attempt (call (p_models prov)) w = (Inr answer, t)"
    by (simp add: attempt_def split: prod.split)
  show ?thesis
    using retry run by (auto simp: execute_def ask get_run_def split: sum.split option.split)
qed

lemma lease_never_fails: "\<exists>x v. lease_task w = (Inr x, v)"
  by (auto simp: lease_task_def update_tasks_def split: option.split)

lemma work_round_run:
  "\<exists>v. work_round prov w = (Inr (), v)
     \<and> (case lease_task w of (r, t) \<Rightarrow> r = Inr None \<and> v = t\<lparr>w_clock := w_clock t + 1\<rparr>
        \<or> (\<exists>k. r = Inr (Some k) \<and> execute prov k t = (Inr (), v)))"
proof -
  obtain x t where l: "lease_task w = (Inr x, t)" using lease_never_fails by blast
  show ?thesis
  proof (cases x)
    case None
    then show ?thesis by (simp add: work_round_def catch_def l sleep_for_def)
  next
    case (Some k)
    then show ?thesis using run_never_fails [of prov k t] by (auto simp: work_round_def catch_def l)
  qed
qed

lemma work_round_keeps:
  assumes "\<And>w t. P w \<Longrightarrow> P (w\<lparr>w_clock := t\<rparr>)" and "\<And>k s sc c a l. keeps P (finish_task k s sc c a l)"
    and "\<And>k waiting. keeps P (retry_task k waiting)" and "keeps P lease_task"
  shows "keeps P (work_round prov)"
  unfolding work_round_def by (intro keeps_intro call_keeps execute_keeps assms)

text \<open>
  Property C40: a benchmark only reads the records. Whatever the provider does, a turn of the
  worker ends without an exception, and neither it nor creating a run nor a re-evaluation changes an
  account, a receipt or any part of one, an image, a collection, a tag, a confirmed category or a file; a
  re-evaluation does not change the benchmark's own tables either.
\<close>

theorem benchmark_reads_only:
  "(\<exists>v. work_round prov w = (Inr (), v) \<and> records v = records w)
   \<and> records (snd (create_benchmark sha enc prov q w)) = records w
   \<and> (\<exists>t. snd (reevaluate dump prov run_id receipt_id model w) = w\<lparr>w_clock := t\<rparr>)"
proof (intro conjI)
  have "keeps (\<lambda>v. records v = records w) (work_round prov)"
    by (intro work_round_keeps store_keeps_records) simp
  then show "\<exists>v. work_round prov w = (Inr (), v) \<and> records v = records w"
    using work_round_run [of prov w] by (auto dest: keepsD)
  have "keeps (\<lambda>v. records v = records w) (create_benchmark sha enc prov q)"
    unfolding create_benchmark_def Let_def
    by (intro keeps_intro reads_parts call_keeps store_keeps_records) simp
  then show "records (snd (create_benchmark sha enc prov q w)) = records w" by (auto dest: keepsD)
  have "keeps (\<lambda>v. \<exists>t. v = w\<lparr>w_clock := t\<rparr>) (reevaluate dump prov run_id receipt_id model)"
    unfolding reevaluate_def by (intro keeps_intro reads_parts call_keeps) auto
  moreover have "\<exists>t. w = w\<lparr>w_clock := t\<rparr>" by (rule exI [of _ "w_clock w"]) simp
  ultimately show "\<exists>t. snd (reevaluate dump prov run_id receipt_id model w) = w\<lparr>w_clock := t\<rparr>" by (rule keepsD)
qed

section \<open>What becomes of a leased task\<close>

definition put_back :: "task_row \<Rightarrow> bool" where
  "put_back t \<longleftrightarrow> (k_status t = Retrying \<or> k_status t = WaitingForModel) \<and> k_leased_until t = None"

text \<open>All rows of \<open>k\<close>'s key are satisfied by \<open>q\<close>, the others are those of \<open>ts\<close>.\<close>

definition only_task :: "task_row \<Rightarrow> (task_row \<Rightarrow> bool) \<Rightarrow> task_row list \<Rightarrow> world \<Rightarrow> bool" where
  "only_task k q ts w \<longleftrightarrow> (\<forall>t \<in> set (tasks_t w). same_task k t \<longrightarrow> q t) \<and> filter (\<lambda>t. \<not> same_task k t) (tasks_t w) = ts"

lemma same_task_update:
  "(\<And>t. task_key (f t) = task_key t) \<Longrightarrow>
   filter (\<lambda>t. \<not> same_task k t) (sql_update (same_task k) f ts) = filter (\<lambda>t. \<not> same_task k t) ts"
  by (induction ts) (auto simp: sql_update_def same_task_def)

lemma retry_only:
  "filter (\<lambda>t. \<not> same_task k t) (tasks_t w) = ts \<Longrightarrow> only_task k put_back ts (snd (retry_task k waiting w))"
  by (auto simp: only_task_def retry_task_def update_tasks_def put_back_def set_sql_update same_task_update task_key_def)

lemma finish_only:
  "filter (\<lambda>t. \<not> same_task k t) (tasks_t w) = ts \<Longrightarrow> only_task k put_back ts (snd (finish_task k s sc c a l w))"
  by (auto simp: only_task_def finish_run sql_delete_def)

text \<open>Before its end the execution leaves the tasks alone.\<close>

lemma run_task_cases:
  obtains e t where "run_task prov b k w = (Inl e, w\<lparr>w_clock := t\<rparr>)"
  | sc c a l t where "run_task prov b k w = finish_task k True sc c a l (w\<lparr>w_clock := t\<rparr>)"
proof -
  let ?m = "\<lambda>g. bind (expected_receipt_and_path (k_receipt_id k)) (\<lambda>p.
     bind (photo_at (snd p) ''Image missing'') (\<lambda>path.
     bind (call_within (b_timeout b) (p_analyse prov (k_model_id k) [path] [])) (\<lambda>a.
     bind (score_receipts (fst p) (an_receipt a)) (\<lambda>scores. g a scores))))"
  let ?g = "\<lambda>a scores. finish_task k True (sc_overall scores) (rc_confidence (an_receipt a)) (int (an_attempts a)) (of_int (an_elapsed_ms a))"
  have split: "?m h w = bind (?m (\<lambda>a scores. ret (a, scores))) (\<lambda>(a, scores). h a scores) w" for h :: "analysis \<Rightarrow> scores \<Rightarrow> (world, unit) py"
    by (simp add: bind_assoc)
  obtain r v where pre: "?m (\<lambda>a scores. ret (a, scores)) w = (r, v)" by fastforce
  have "keeps (\<lambda>v. \<exists>t. v = w\<lparr>w_clock := t\<rparr>) (?m (\<lambda>a scores. ret (a, scores)))"
    by (intro keeps_intro reads_parts call_keeps) auto
  moreover have "\<exists>t. w = w\<lparr>w_clock := t\<rparr>" by (rule exI [of _ "w_clock w"]) simp
  ultimately obtain t where v: "v = w\<lparr>w_clock := t\<rparr>" using pre by (auto dest: keepsD)
  have run: "run_task prov b k w = bind (?m (\<lambda>a scores. ret (a, scores))) (\<lambda>(a, scores). ?g a scores) w"
    unfolding run_task_def by (rule split)
  show thesis
  proof (cases r)
    case (Inl e)
    then have "run_task prov b k w = (Inl e, w\<lparr>w_clock := t\<rparr>)" using run pre v by simp
    then show thesis by (rule that(1))
  next
    case (Inr p)
    then have "run_task prov b k w = (case p of (a, scores) \<Rightarrow> ?g a scores) (w\<lparr>w_clock := t\<rparr>)" using run pre v by simp
    then show thesis by (cases p) (simp add: that(2))
  qed
qed

lemma execute_cases:
  assumes "has_run w (k_run_id k)"
  obtains (put) t waiting where "execute prov k w = retry_task k waiting (w\<lparr>w_clock := t\<rparr>)"
  | (fin) t s sc c a l where "execute prov k w = finish_task k s sc c a l (w\<lparr>w_clock := t\<rparr>)"
proof -
  obtain answer v where ask: "attempt (call (p_models prov)) w = (Inr answer, v)"
    by (simp add: attempt_def split: prod.split)
  then obtain t where v: "v = w\<lparr>w_clock := t\<rparr>" by (auto simp: attempt_def call_def split: prod.splits)
  have asked: "execute prov k w = (case answer of
       Inl _ \<Rightarrow> retry_task k False
     | Inr models \<Rightarrow>
        bind (get_run (k_run_id k)) (\<lambda>run. case run of
          None \<Rightarrow> ret ()
        | Some b \<Rightarrow> (case dict_get (map (\<lambda>m. (mi_id m, m)) models) (k_model_id k) of
             None \<Rightarrow> retry_task k True
           | Some info \<Rightarrow>
              if digest_changed b (k_model_id k) info then retry_task k True
              else catch (run_task prov b k) (task_failed k)))) v"
    unfolding execute_def by (rule bind_Inr) (rule ask)
  show thesis
  proof (cases answer)
    case (Inl e)
    then show thesis using put [of False t] by (simp add: asked v)
  next
    case (Inr models)
    have "fetchrow (filter (\<lambda>b. b_id b = k_run_id k) (runs_t v)) \<noteq> None"
      using assms by (auto simp del: not_None_eq simp: fetchrow_filter_None has_run_def v)
    then obtain b where row: "fetchrow (filter (\<lambda>b. b_id b = k_run_id k) (runs_t v)) = Some b" by blast
    show thesis
    proof (cases "dict_get (map (\<lambda>m. (mi_id m, m)) models) (k_model_id k)")
      case None
      then show thesis using put [of True t] row by (simp add: asked Inr get_run_def v)
    next
      case (Some info)
      have ex: "execute prov k w = (if digest_changed b (k_model_id k) info then retry_task k True
          else catch (run_task prov b k) (task_failed k)) v"
        using row Some by (simp add: asked Inr get_run_def)
      have failed: thesis if "execute prov k w = task_failed k e (w\<lparr>w_clock := t\<rparr>)" for e t
        using that by (cases e) (simp_all add: task_failed_def fail_task_def put fin)
      show thesis
      proof (cases "digest_changed b (k_model_id k) info")
        case True
        then show thesis using put [of True t] ex by (simp add: v)
      next
        case False
        show thesis
        proof (cases rule: run_task_cases [of prov b k v])
          case (1 e t')
          then show thesis using failed [of e t'] ex False by (simp add: catch_def v)
        next
          case (2 sc c a l t')
          then show thesis using fin [of True sc c a l t'] ex False by (simp add: catch_def finish_run v)
        qed
      qed
    qed
  qed
qed


lemma lease_run:
  assumes "lease_task w = (Inr x, v)"
  shows "x = None \<and> v = w \<or> (\<exists>k. x = Some k \<and> k \<in> set (tasks_t w) \<and> leasable (w_clock w) k
      \<and> v = w\<lparr>tasks_t := sql_update (same_task k) (take_task (w_clock w)) (tasks_t w)\<rparr>)"
proof -
  let ?q = "sort_key (\<lambda>k. (k_run_id k, k_receipt_id k)) (filter (leasable (w_clock w)) (tasks_t w))"
  show ?thesis
  proof (cases "fetchrow ?q")
    case None
    with assms show ?thesis by (simp add: lease_task_def)
  next
    case (Some k)
    then have "x = Some k" "v = w\<lparr>tasks_t := sql_update (same_task k) (take_task (w_clock w)) (tasks_t w)\<rparr>"
      using assms by (simp_all add: lease_task_def update_tasks_def)
    with fetchrow_mem [OF Some] show ?thesis by (intro disjI2 exI [of _ k]) simp
  qed
qed


section \<open>Waiting for a model\<close>

definition work_rounds :: "provider list \<Rightarrow> world \<Rightarrow> world" where
  "work_rounds provs w = foldl (\<lambda>w prov. state_of (work_round prov) w) w provs"

definition stuck :: "task_row \<Rightarrow> world \<Rightarrow> bool" where
  "stuck t w \<longleftrightarrow> db_ok w \<and> t \<in> set (tasks_t w) \<and> k_status t = WaitingForModel
     \<and> (\<forall>b \<in> set (runs_t w). b_id b = k_run_id t \<longrightarrow> \<not> b_completed b)"

lemma stuck_clock: "stuck t w \<Longrightarrow> stuck t (w\<lparr>w_clock := c\<rparr>)"
  by (simp add: stuck_def)

lemma stuck_other:
  assumes "\<not> same_task k t"
  shows "keeps (stuck t) (finish_task k s sc c a l)" "keeps (stuck t) (retry_task k waiting)"
proof -
  have f: "db_ok (snd (finish_task k s sc c a l w))" if "db_ok w" for w
    using benchmark_ops_ok(4) that by (rule keepsD)
  show "keeps (stuck t) (finish_task k s sc c a l)"
  proof (rule keepsI)
    fix w assume "stuck t w"
    then have w: "db_ok w" "t \<in> set (tasks_t w)" "k_status t = WaitingForModel"
      and runs: "\<forall>b \<in> set (runs_t w). b_id b = k_run_id t \<longrightarrow> \<not> b_completed b" by (simp_all add: stuck_def)
    have left: "t \<in> set (sql_delete (same_task k) (tasks_t w))" using w(2) assms by (simp add: set_sql_delete)
    have "\<not> b_completed b" if "b \<in> set (runs_t (snd (finish_task k s sc c a l w)))" "b_id b = k_run_id t" for b
      using that runs left by (auto simp: finish_run sql_exists_iff set_sql_update split: if_splits)
    then show "stuck t (snd (finish_task k s sc c a l w))"
      using f [OF w(1)] w left by (simp add: stuck_def) (simp add: finish_run)
  qed
  show "keeps (stuck t) (retry_task k waiting)"
  proof (rule keepsI)
    fix w assume "stuck t w"
    moreover then have "db_ok (snd (retry_task k waiting w))" using benchmark_ops_ok(3) by (auto simp: stuck_def dest: keepsD)
    ultimately show "stuck t (snd (retry_task k waiting w))"
      using assms by (simp add: stuck_def) (auto simp: retry_task_def update_tasks_def set_sql_update)
  qed
qed

lemma stuck_lease:
  assumes "stuck t w" and "lease_task w = (Inr x, v)"
  shows "stuck t v" and "x = Some k \<Longrightarrow> \<not> same_task k t"
proof -
  have other: "\<not> same_task k t" if "k \<in> set (tasks_t w)" "leasable (w_clock w) k" for k
  proof
    assume "same_task k t"
    moreover have "distinct (map task_key (tasks_t w))" using assms(1) by (simp add: stuck_def db_ok_def keys_ok_def)
    ultimately have "k = t" using assms(1) that by (auto simp: stuck_def same_task_def distinct_map dest: inj_onD)
    with that(2) assms(1) show False using waiting_never_leased by (simp add: stuck_def)
  qed
  have run: "x = None \<and> v = w \<or> (\<exists>k. x = Some k \<and> k \<in> set (tasks_t w) \<and> leasable (w_clock w) k
      \<and> v = w\<lparr>tasks_t := sql_update (same_task k) (take_task (w_clock w)) (tasks_t w)\<rparr>)"
    using assms(2) by (rule lease_run)
  show "x = Some k \<Longrightarrow> \<not> same_task k t" using run other by blast
  have "db_ok v" using keeps_run [OF benchmark_ops_ok(2) _ assms(2)] assms(1) by (simp add: stuck_def)
  then show "stuck t v"
    using run
  proof (elim disjE exE conjE)
    assume "v = w"
    with assms(1) show ?thesis by simp
  next
    fix k assume "db_ok v" "k \<in> set (tasks_t w)" "leasable (w_clock w) k"
      and v: "v = w\<lparr>tasks_t := sql_update (same_task k) (take_task (w_clock w)) (tasks_t w)\<rparr>"
    then show ?thesis using assms(1) other by (simp add: stuck_def v set_sql_update)
  qed
qed

lemma stuck_round: "stuck t w \<Longrightarrow> stuck t (state_of (work_round prov) w)"
proof -
  assume s: "stuck t w"
  obtain x v where l: "lease_task w = (Inr x, v)" using lease_never_fails by blast
  obtain u where u: "work_round prov w = (Inr (), u)"
    and cases: "x = None \<and> u = v\<lparr>w_clock := w_clock v + 1\<rparr> \<or> (\<exists>k. x = Some k \<and> execute prov k v = (Inr (), u))"
    using work_round_run [of prov w] by (auto simp: l)
  have "stuck t u"
    using cases
  proof (elim disjE exE conjE)
    assume "u = v\<lparr>w_clock := w_clock v + 1\<rparr>"
    with stuck_lease(1) [OF s l] stuck_clock show ?thesis by simp
  next
    fix k assume k: "x = Some k" "execute prov k v = (Inr (), u)"
    have "keeps (stuck t) (execute prov k)"
      using stuck_other [OF stuck_lease(2) [OF s l k(1)]] by (intro execute_keeps stuck_clock)
    then show ?thesis using stuck_lease(1) [OF s l] k(2) keeps_run by metis
  qed
  with u show ?thesis by (simp add: state_of_def)
qed

text \<open>
  Property C39: waiting for a model never ends. A task that was put back to wait for its model stays
  where it is, whatever models the provider offers later and however long the worker runs, and its
  run is never completed.
\<close>

theorem waiting_task_stuck:
  assumes "db_ok w" and "t \<in> set (tasks_t w)" and "k_status t = WaitingForModel"
    and "\<And>b. b \<in> set (runs_t w) \<Longrightarrow> b_id b = k_run_id t \<Longrightarrow> \<not> b_completed b"
  shows "t \<in> set (tasks_t (work_rounds provs w))
    \<and> (\<forall>b \<in> set (runs_t (work_rounds provs w)). b_id b = k_run_id t \<longrightarrow> \<not> b_completed b)"
proof -
  have "stuck t w" using assms by (simp add: stuck_def)
  then have "stuck t (work_rounds provs w)"
    unfolding work_rounds_def by (induction provs arbitrary: w) (simp_all add: stuck_round)
  then show ?thesis by (simp add: stuck_def)
qed

section \<open>Samples\<close>

lemma bench_started_ok: "db_ok bench_started"
  unfolding bench_started_def by (rule keepsD [OF benchmark_ops_ok(1) bench_world_ok])


definition bench_waiting :: world where
  "bench_waiting = snd (retry_task (new_task 100 ''m'' 1) True bench_started)"

lemma waiting_task_stuck_witness:
  "\<exists>t. t \<in> set (tasks_t (work_rounds [stuck_provider, stuck_provider] bench_waiting)) \<and> k_status t = WaitingForModel"
proof -
  have ok: "db_ok bench_waiting"
    unfolding bench_waiting_def by (rule keepsD [OF benchmark_ops_ok(3) bench_started_ok])
  have runs: "map (\<lambda>b. b_completed b) (runs_t bench_waiting) = [False]"
    by (simp add: bench_waiting_def retry_task_def update_tasks_def) code_simp
  obtain t where t: "t \<in> set (tasks_t bench_waiting)" "k_status t = WaitingForModel"
    by (simp add: bench_waiting_def retry_task_def update_tasks_def bench_started_tables sql_update_def same_task_def)
  have "\<not> b_completed b" if "b \<in> set (runs_t bench_waiting)" for b using runs that by auto
  with waiting_task_stuck [OF ok t, of "[stuck_provider, stuck_provider]"] t(2) show ?thesis by blast
qed

end
