(* ===== verification/StaticFiles.thy ===== *)
theory StaticFiles
  imports Tokens
begin

text \<open>
  The static files of the single-page application, main.py: which file \<open>spa_fallback\<close> sends for a
  request path. The tree of files with its symbolic links is the argument \<open>fs\<close>; absolute paths are
  the lists of their components. \<open>Path.resolve\<close> of Python 3.12 follows links wherever they lead, so what keeps
  a request inside the static directory is the check of the resolved path.
\<close>

section \<open>Resolving a path\<close>

datatype node = Missing | Directory | RegularFile | Symlink string

type_synonym file_tree = "string list \<Rightarrow> node"

definition is_link :: "node \<Rightarrow> bool" where
  "is_link n = (case n of Symlink _ \<Rightarrow> True | _ \<Rightarrow> False)"

definition is_absolute :: "string \<Rightarrow> bool" where
  "is_absolute p \<longleftrightarrow> p \<noteq> [] \<and> hd p = CHR ''/''"

text \<open>
  \<open>os.path.realpath\<close>: the components not yet walked are \<open>rest\<close>. A cycle of links has no result (None);
  there \<open>Path.resolve\<close> raises.
\<close>

partial_function (option) realpath :: "file_tree \<Rightarrow> string list \<Rightarrow> string list \<Rightarrow> string list option" where
  "realpath fs path rest = (case rest of
     [] \<Rightarrow> Some path
   | name # rest \<Rightarrow>
       if name = [] \<or> name = ''.'' then realpath fs path rest
       else if name = ''..'' then realpath fs (butlast path) rest
       else (case fs (path @ [name]) of
           Symlink target \<Rightarrow> realpath fs (if is_absolute target then [] else path) (split_on (CHR ''/'') target @ rest)
         | _ \<Rightarrow> realpath fs (path @ [name]) rest))"

section \<open>The fallback route\<close>

text \<open>Registered only where a build exists.\<close>

definition spa_registered :: "file_tree \<Rightarrow> string list \<Rightarrow> bool" where
  "spa_registered fs static \<longleftrightarrow> realpath fs [] (static @ [''index.html'']) \<noteq> None
     \<and> fs (the (realpath fs [] (static @ [''index.html'']))) = RegularFile"

text \<open>\<open>_STATIC_DIR / full_path\<close>: an absolute right operand replaces the left one.\<close>

definition candidate_parts :: "string list \<Rightarrow> string \<Rightarrow> string list" where
  "candidate_parts static full_path =
     (if is_absolute full_path then split_on (CHR ''/'') full_path else static @ split_on (CHR ''/'') full_path)"

definition spa_fallback :: "file_tree \<Rightarrow> string list \<Rightarrow> string \<Rightarrow> exn + string list" where
  "spa_fallback fs static full_path =
     (if full_path = ''api'' \<or> prefix ''api/'' full_path then Inl (HTTPError 404 ''Not found'')
      else if CHR 0x00 \<in> set full_path then Inl (ValueError ''embedded null byte'')
      else case realpath fs [] (candidate_parts static full_path) of
          None \<Rightarrow> Inl (OtherError ''Symlink loop'')
        | Some candidate \<Rightarrow>
            if full_path \<noteq> [] \<and> fs candidate = RegularFile \<and> prefix static candidate then Inr candidate
            else Inr (static @ [''index.html'']))"

section \<open>What a resolved path looks like\<close>

text \<open>No component is empty, a dot or two dots, and no leading part is a link: what is read is what is named.\<close>

definition proper_name :: "string \<Rightarrow> bool" where
  "proper_name n \<longleftrightarrow> n \<noteq> [] \<and> n \<noteq> ''.'' \<and> n \<noteq> ''..''"

definition link_free :: "file_tree \<Rightarrow> string list \<Rightarrow> bool" where
  "link_free fs p \<longleftrightarrow> (\<forall>n \<in> set p. proper_name n) \<and> (\<forall>k < length p. \<not> is_link (fs (take (Suc k) p)))"

lemma link_free_Nil [simp]: "link_free fs []"
  by (simp add: link_free_def)

lemma link_free_snoc: "link_free fs (p @ [n]) \<longleftrightarrow> link_free fs p \<and> proper_name n \<and> \<not> is_link (fs (p @ [n]))"
  by (auto simp: link_free_def less_Suc_eq take_Suc_conv_app_nth nth_append)

lemma link_free_butlast: "link_free fs p \<Longrightarrow> link_free fs (butlast p)"
  by (cases p rule: rev_cases) (auto simp: link_free_snoc)

lemma realpath_link_free: "realpath fs path rest = Some q \<Longrightarrow> link_free fs path \<longrightarrow> link_free fs q"
proof (rule realpath.raw_induct [where P = "\<lambda>fs path rest q. link_free fs path \<longrightarrow> link_free fs q"])
  fix rp fs path rest q
  assume "\<And>fs path rest q. rp fs path rest = Some q \<Longrightarrow> link_free fs path \<longrightarrow> link_free fs q"
    and "(case rest of [] \<Rightarrow> Some path
      | name # rest \<Rightarrow>
        if name = [] \<or> name = ''.'' then rp fs path rest
        else if name = ''..'' then rp fs (butlast path) rest
        else (case fs (path @ [name]) of
            Symlink target \<Rightarrow> rp fs (if is_absolute target then [] else path) (split_on (CHR ''/'') target @ rest)
          | _ \<Rightarrow> rp fs (path @ [name]) rest)) = Some q"
  then show "link_free fs path \<longrightarrow> link_free fs q"
    by (auto simp: link_free_snoc link_free_butlast proper_name_def is_link_def split: list.splits if_splits node.splits)
qed

lemma realpath_stays:
  assumes "link_free fs (path @ rest)"
  shows "realpath fs path rest = Some (path @ rest)"
  using assms
proof (induction rest arbitrary: path)
  case Nil
  then show ?case by (simp add: realpath.simps)
next
  case (Cons n rest)
  have free: "link_free fs ((path @ [n]) @ rest)" using Cons.prems by simp
  have n: "proper_name n" using Cons.prems by (simp add: link_free_def)
  have "\<not> is_link (fs (path @ [n]))" using Cons.prems by (auto simp: link_free_def dest: spec [of _ "length path"])
  then have "realpath fs path (n # rest) = realpath fs (path @ [n]) rest"
    using n by (subst realpath.simps) (auto simp: proper_name_def is_link_def split: node.splits)
  then show ?case using Cons.IH [OF free] by simp
qed

lemma split_on_py_join:
  assumes "\<forall>n \<in> set ns. d \<notin> set n" and "ns \<noteq> []"
  shows "split_on d (py_join [d] ns) = ns"
  using assms by (induction "[d]" ns rule: py_join.induct) (simp_all add: split_on_part split_on_append)

section \<open>Only static files, and all of them\<close>

text \<open>
  Property C17: whatever the request path is (dots, doubled slashes, absolute names, names of symbolic
  links), what is sent is index.html or a regular file whose real place is inside the static
  directory; and every file of a static directory without links is sent for its own relative path,
  unless it hides behind the api prefix.
\<close>

theorem spa_serves_static_only:
  "(\<forall>full_path q. spa_fallback fs static full_path = Inr q \<longrightarrow>
      q = static @ [''index.html''] \<or> prefix static q \<and> fs q = RegularFile \<and> link_free fs q)
   \<and> (\<forall>names. link_free fs (static @ names) \<and> fs (static @ names) = RegularFile \<and> names \<noteq> [] \<and> hd names \<noteq> ''api''
        \<and> (\<forall>n \<in> set names. CHR ''/'' \<notin> set n \<and> CHR 0x00 \<notin> set n) \<longrightarrow>
      spa_fallback fs static (py_join ''/'' names) = Inr (static @ names))"
proof (intro conjI allI impI; (elim conjE)?)
  fix full_path q assume "spa_fallback fs static full_path = Inr q"
  then show "q = static @ [''index.html''] \<or> prefix static q \<and> fs q = RegularFile \<and> link_free fs q"
    using realpath_link_free [of fs "[]" "candidate_parts static full_path" q]
    by (auto simp: spa_fallback_def split: if_splits option.splits)
next
  fix names assume free: "link_free fs (static @ names)" and reg: "fs (static @ names) = RegularFile" and ne: "names \<noteq> []"
    and api: "hd names \<noteq> ''api''" and plain: "\<forall>n \<in> set names. CHR ''/'' \<notin> set n \<and> CHR 0x00 \<notin> set n"
  let ?p = "py_join ''/'' names"
  have split: "split_on (CHR ''/'') ?p = names" using split_on_py_join [OF _ ne] plain by simp
  have "\<forall>n \<in> set names. proper_name n" using free by (simp add: link_free_def)
  then have first: "hd names \<noteq> [] \<and> CHR ''/'' \<notin> set (hd names)" using ne plain by (auto simp: proper_name_def)
  obtain rest where "?p = hd names @ rest" using ne by (cases names rule: remdups_adj.cases) auto
  then have "\<not> is_absolute ?p \<and> ?p \<noteq> []" using first by (cases "hd names") (auto simp: is_absolute_def)
  moreover have "CHR 0x00 \<notin> set ?p" using plain by (induction "''/''" names rule: py_join.induct) auto
  moreover have "\<not> (?p = ''api'' \<or> prefix ''api/'' ?p)"
  proof
    assume "?p = ''api'' \<or> prefix ''api/'' ?p"
    then have "hd (split_on (CHR ''/'') ?p) = ''api''"
      using split_on_part [of "CHR ''/''" "''api''"] split_on_append [of "CHR ''/''" "''api''"] by (auto simp: prefix_def)
    then show False using split api by simp
  qed
  moreover have "realpath fs [] (static @ names) = Some (static @ names)" using realpath_stays [of fs "[]"] free by simp
  ultimately show "spa_fallback fs static ?p = Inr (static @ names)"
    by (simp add: spa_fallback_def candidate_parts_def split reg)
qed

text \<open>A build with one asset and a link that leads out of it.\<close>

definition sample_tree :: file_tree where
  "sample_tree p = (if p = [''app'', ''static'', ''a.js''] \<or> p = [''app'', ''static'', ''index.html''] \<or> p = [''etc'', ''passwd'']
     then RegularFile else if p = [''app'', ''static'', ''out''] then Symlink ''/etc'' else Directory)"

lemma link_free_sample: "link_free sample_tree [''app'', ''static'', ''a.js'']"
  by (auto simp: link_free_def proper_name_def is_link_def sample_tree_def less_Suc_eq)

theorem spa_serves_static_only_witness:
  "spa_fallback sample_tree [''app'', ''static''] ''a.js'' = Inr [''app'', ''static'', ''a.js'']
   \<and> realpath sample_tree [] (candidate_parts [''app'', ''static''] ''out/passwd'') = Some [''etc'', ''passwd'']
   \<and> spa_fallback sample_tree [''app'', ''static''] ''out/passwd'' \<noteq> Inr [''etc'', ''passwd'']"
proof -
  have serve: "spa_fallback sample_tree [''app'', ''static''] (py_join ''/'' [''a.js'']) = Inr ([''app'', ''static''] @ [''a.js''])"
  proof (rule spa_serves_static_only [THEN conjunct2, THEN spec, THEN mp])
    show "link_free sample_tree ([''app'', ''static''] @ [''a.js'']) \<and> sample_tree ([''app'', ''static''] @ [''a.js'']) = RegularFile
       \<and> [''a.js''] \<noteq> [] \<and> hd [''a.js''] \<noteq> ''api'' \<and> (\<forall>n \<in> set [''a.js'']. CHR ''/'' \<notin> set n \<and> CHR 0x00 \<notin> set n)"
      using link_free_sample by (simp add: sample_tree_def)
  qed
  have out: "realpath sample_tree [] (candidate_parts [''app'', ''static''] ''out/passwd'') = Some [''etc'', ''passwd'']"
    by (simp add: candidate_parts_def is_absolute_def realpath.simps sample_tree_def)
  have "spa_fallback sample_tree [''app'', ''static''] ''out/passwd'' \<noteq> Inr [''etc'', ''passwd'']"
  proof
    assume "spa_fallback sample_tree [''app'', ''static''] ''out/passwd'' = Inr [''etc'', ''passwd'']"
    from spa_serves_static_only [THEN conjunct1, THEN spec, THEN spec, THEN mp, OF this] show False by simp
  qed
  then show ?thesis using serve out by simp
qed

end
