(* ===== verification/Lifecycle.thy ===== *)
theory Lifecycle
  imports Settings BenchmarkService StaticFiles
begin

text \<open>
  Starting and stopping the application: the lifespan of main.py and the connection pools of the
  three database providers (init_db and destroy_db of ReceiptDB, ImageDB and UserDB, called through
  ReceiptService). What the server of the database answers is the argument \<open>dbms\<close>; its schema is the
  migrated one.
\<close>

section \<open>Connection pools\<close>

datatype pool_kind = ReceiptsPool | ImagesPool | UsersPool

type_synonym pools = "pool_kind \<Rightarrow> bool"

text \<open>The exceptions of making a pool, of looking for the table, of closing, and of making the image directories.\<close>

record dbms =
  dm_create :: "pool_kind \<Rightarrow> exn option"
  dm_check :: "pool_kind \<Rightarrow> exn option"
  dm_close :: "pool_kind \<Rightarrow> exn option"
  dm_mkdir :: "exn option"

definition may_fail :: "exn option \<Rightarrow> ('s, unit) py" where
  "may_fail fault = (case fault of None \<Rightarrow> ret () | Some e \<Rightarrow> raise e)"

text \<open>The pool is kept when looking for the table fails; UserDB does not look.\<close>

definition init_pool :: "dbms \<Rightarrow> pool_kind \<Rightarrow> (pools, unit) py" where
  "init_pool dm k = bind (gets (\<lambda>p. p k)) (\<lambda>there.
     if there then ret ()
     else seq (may_fail (dm_create dm k))
       (seq (modify (\<lambda>p. p(k := True)))
         (if k = UsersPool then ret () else may_fail (dm_check dm k))))"

definition destroy_pool :: "dbms \<Rightarrow> pool_kind \<Rightarrow> (pools, unit) py" where
  "destroy_pool dm k = bind (gets (\<lambda>p. p k)) (\<lambda>there.
     if there then seq (may_fail (dm_close dm k)) (modify (\<lambda>p. p(k := False))) else ret ())"

definition service_init_db :: "dbms \<Rightarrow> (pools, unit) py" where
  "service_init_db dm = seq (init_pool dm ReceiptsPool) (seq (init_pool dm ImagesPool) (init_pool dm UsersPool))"

definition service_destroy_db :: "dbms \<Rightarrow> (pools, unit) py" where
  "service_destroy_db dm = seq (destroy_pool dm ReceiptsPool) (seq (destroy_pool dm ImagesPool) (destroy_pool dm UsersPool))"

section \<open>The application\<close>

text \<open>
  \<open>app.state\<close>: the benchmark service is there or not, with its worker, and \<open>an_attached\<close> tells that the collection
  service is. \<open>w_db_ready\<close> of the database means that every pool is there.
\<close>

record application =
  an_server :: server
  an_pools :: pools
  an_provider :: "provider option"
  an_scheduler :: worker
  an_benchmarks :: "bench_worker option"
  an_attached :: bool

definition set_ready :: "pools \<Rightarrow> server \<Rightarrow> server" where
  "set_ready p s = s\<lparr>sv_world := (sv_world s)\<lparr>w_db_ready := p ReceiptsPool \<and> p ImagesPool \<and> p UsersPool\<rparr>\<rparr>"

definition on_server :: "(server, 'a) py \<Rightarrow> (application, 'a) py" where
  "on_server m a = (case m (an_server a) of (r, s) \<Rightarrow> (r, a\<lparr>an_server := s\<rparr>))"

definition on_pools :: "(pools, 'a) py \<Rightarrow> (application, 'a) py" where
  "on_pools m a = (case m (an_pools a) of (r, p) \<Rightarrow> (r, a\<lparr>an_server := set_ready p (an_server a), an_pools := p\<rparr>))"

definition suppressed :: "('s, unit) py \<Rightarrow> ('s, unit) py" where
  "suppressed m = catch m (\<lambda>_. ret ())"

text \<open>\<open>bootstrap_admin(receipt_service.user_db, settings)\<close>; without a pool \<open>user_db.pool\<close> raises.\<close>

definition bootstrap :: "crypto \<Rightarrow> (application, unit) py" where
  "bootstrap cy = bind (gets (\<lambda>a. (an_pools a UsersPool, st_auth (pr_settings (sv_process (an_server a)))))) (\<lambda>(ready, auth).
     if ready then on_server (on_world (bootstrap_admin cy auth))
     else raise (OtherError ''Database pool not initialised. Call init_db() first.''))"

definition startup :: "crypto \<Rightarrow> dbms \<Rightarrow> provider \<Rightarrow> provider \<Rightarrow> (application, unit) py" where
  "startup cy dm ollama openai =
     bind (gets (\<lambda>a. pr_settings (sv_process (an_server a)))) (\<lambda>st.
     seq (on_server (on_process (mark_startup_settings st)))
     (bind (lift_result (get_llm_provider (ls_provider (st_llm st)) ollama openai)) (\<lambda>prov.
     seq (may_fail (dm_mkdir dm))
     (seq (suppressed (on_pools (service_init_db dm)))
     (bind (gets (\<lambda>a. an_pools a ReceiptsPool)) (\<lambda>db_ready.
      seq (if db_ready then suppressed (bootstrap cy) else ret ())
      (seq (may_fail (dm_mkdir dm))
      (seq (modify (\<lambda>a. a\<lparr>an_provider := Some prov, an_scheduler := \<lparr>wk_running = False, wk_wake = False\<rparr>,
         an_benchmarks := if db_ready then Some \<lparr>bw_running = False, bw_stopping = False\<rparr> else None, an_attached := db_ready\<rparr>))
      (seq (modify (\<lambda>a. a\<lparr>an_scheduler := start_worker (an_scheduler a)\<rparr>))
       (modify (\<lambda>a. a\<lparr>an_benchmarks := map_option start_benchmarks (an_benchmarks a)\<rparr>)))))))))))"

definition shutdown :: "dbms \<Rightarrow> (application, unit) py" where
  "shutdown dm =
     seq (modify (\<lambda>a. a\<lparr>an_scheduler := stop_worker (an_scheduler a)\<rparr>))
     (seq (modify (\<lambda>a. a\<lparr>an_benchmarks := map_option stop_benchmarks (an_benchmarks a)\<rparr>))
       (suppressed (on_pools (service_destroy_db dm))))"

section \<open>The pools\<close>

lemma may_fail_simps [simp]: "may_fail None = ret ()" "may_fail (Some e) = raise e"
  by (simp_all add: may_fail_def)

lemma destroy_all:
  assumes "\<forall>k. dm_close dm k = None"
  shows "service_destroy_db dm p = (Inr (), \<lambda>_. False)"
proof -
  have one: "destroy_pool dm k q = (Inr (), q(k := False))" for k q
    using assms by (auto simp: destroy_pool_def intro: fun_upd_idem [symmetric])
  have "p(ReceiptsPool := False, ImagesPool := False, UsersPool := False) = (\<lambda>_. False)"
  proof
    fix k show "(p(ReceiptsPool := False, ImagesPool := False, UsersPool := False)) k = False" by (cases k) simp_all
  qed
  then show ?thesis by (simp add: service_destroy_db_def seq_def bind_def one)
qed

text \<open>The pools are made in order, and the first exception leaves the later ones unmade.\<close>

lemma init_order:
  assumes "service_init_db dm (\<lambda>_. False) = (r, p)"
  shows "(p UsersPool \<longrightarrow> p ImagesPool) \<and> (p ImagesPool \<longrightarrow> p ReceiptsPool)
    \<and> (p ReceiptsPool \<longleftrightarrow> dm_create dm ReceiptsPool = None)
    \<and> (r = Inr () \<longleftrightarrow> p UsersPool)"
  using assms
  by (cases "dm_create dm ReceiptsPool"; cases "dm_check dm ReceiptsPool"; cases "dm_create dm ImagesPool";
      cases "dm_check dm ImagesPool"; cases "dm_create dm UsersPool")
    (auto simp: service_init_db_def init_pool_def seq_def bind_def)

lemma init_ready:
  "service_init_db dm (\<lambda>_. False) = (r, p) \<Longrightarrow>
     p UsersPool \<longleftrightarrow> (\<forall>k. dm_create dm k = None) \<and> dm_check dm ReceiptsPool = None \<and> dm_check dm ImagesPool = None"
  by (cases "dm_create dm ReceiptsPool"; cases "dm_check dm ReceiptsPool"; cases "dm_create dm ImagesPool";
      cases "dm_check dm ImagesPool"; cases "dm_create dm UsersPool")
    (auto simp: service_init_db_def init_pool_def seq_def bind_def, metis pool_kind.exhaust)

section \<open>Coming up\<close>

lemma seq_Inr: "m s = (Inr x, t) \<Longrightarrow> seq m n s = n t"
  by (simp add: seq_def)

lemma suppressed_run: "suppressed m s = (Inr (), snd (m s))"
  by (cases "m s"; cases "fst (m s)") (auto simp: suppressed_def catch_def)

lemma bootstrap_world:
  "snd (bootstrap cy a) = (if an_pools a UsersPool
     then a\<lparr>an_server := (an_server a)\<lparr>sv_world := snd (bootstrap_admin cy (st_auth (pr_settings (sv_process (an_server a))))
       (sv_world (an_server a)))\<rparr>\<rparr> else a)"
  by (simp add: bootstrap_def on_server_def on_world_def split: prod.split)

lemma mark_startup_run:
  "on_server (on_process (mark_startup_settings st)) a = (Inr (), a\<lparr>an_server := (an_server a)\<lparr>sv_process := (sv_process (an_server a))
     \<lparr>pr_started := Some (ls_provider (st_llm st), ls_host (st_llm st))\<rparr>\<rparr>\<rparr>)"
  by (simp add: on_server_def on_process_def mark_startup_settings_def)

text \<open>The server once the settings are marked, the pools \<open>p\<close> made and the bootstrap over.\<close>

definition booted :: "crypto \<Rightarrow> pools \<Rightarrow> server \<Rightarrow> server" where
  "booted cy p s = (let st = pr_settings (sv_process s);
      s1 = set_ready p (s\<lparr>sv_process := (sv_process s)\<lparr>pr_started := Some (ls_provider (st_llm st), ls_host (st_llm st))\<rparr>\<rparr>) in
     if p UsersPool then s1\<lparr>sv_world := snd (bootstrap_admin cy (st_auth st) (sv_world s1))\<rparr> else s1)"

lemma startup_run:
  assumes none: "an_pools a = (\<lambda>_. False)" and prov: "get_llm_provider (ls_provider (st_llm (pr_settings (sv_process (an_server a))))) ollama openai = Inr prov"
    and dirs: "dm_mkdir dm = None" and pools: "service_init_db dm (\<lambda>_. False) = (r, p)"
  shows "startup cy dm ollama openai a = (Inr (), \<lparr>an_server = booted cy p (an_server a), an_pools = p, an_provider = Some prov,
     an_scheduler = \<lparr>wk_running = True, wk_wake = True\<rparr>,
     an_benchmarks = if p ReceiptsPool then Some \<lparr>bw_running = True, bw_stopping = False\<rparr> else None, an_attached = p ReceiptsPool\<rparr>)"
proof -
  let ?st = "pr_settings (sv_process (an_server a))"
  let ?s = "(an_server a)\<lparr>sv_process := (sv_process (an_server a))\<lparr>pr_started := Some (ls_provider (st_llm ?st), ls_host (st_llm ?st))\<rparr>\<rparr>"
  let ?a1 = "a\<lparr>an_server := ?s\<rparr>"
  let ?a2 = "?a1\<lparr>an_server := set_ready p ?s, an_pools := p\<rparr>"
  let ?a3 = "?a2\<lparr>an_server := booted cy p (an_server a)\<rparr>"
  have p1: "suppressed (on_pools (service_init_db dm)) ?a1 = (Inr (), ?a2)"
    by (simp add: suppressed_run on_pools_def none pools)
  have up: "p UsersPool \<longrightarrow> p ReceiptsPool" using init_order [OF pools] by blast
  have p2: "(if p ReceiptsPool then suppressed (bootstrap cy) else ret ()) ?a2 = (Inr (), ?a3)"
    using up by (auto simp: suppressed_run bootstrap_world booted_def Let_def set_ready_def)
  have lift: "lift_result (get_llm_provider (ls_provider (st_llm ?st)) ollama openai) ?a1 = (Inr prov, ?a1)"
    by (simp add: prov lift_result_def)
  have dir: "may_fail (dm_mkdir dm) t = (Inr (), t)" for t :: application by (simp add: dirs)
  have ask: "gets (\<lambda>a. an_pools a ReceiptsPool) ?a2 = (Inr (p ReceiptsPool), ?a2)" by simp
  show ?thesis
    unfolding startup_def
    by (rule trans, rule bind_Inr, rule gets_apply, rule trans, rule seq_Inr, rule mark_startup_run, rule trans, rule bind_Inr, rule lift, rule trans, rule seq_Inr, rule dir,
        rule trans, rule seq_Inr, rule p1, rule trans, rule bind_Inr, rule ask, rule trans, rule seq_Inr, rule p2,
        rule trans, rule seq_Inr, rule dir)
      (simp add: start_worker_def start_benchmarks_def)
qed

lemma bootstrap_keeps_ready: "keeps (\<lambda>w. w_db_ready w = b) (bootstrap_admin cy a)"
proof -
  have "keeps (\<lambda>w. w_db_ready w = b) (insert_user x)" for x by (rule keepsI) (simp add: insert_user_def)
  moreover have "keeps (\<lambda>w. w_db_ready w = b) (update_receipts p f)" for p f
    by (rule keepsI) (simp add: update_receipts_def Let_def)
  moreover have "keeps (\<lambda>w. w_db_ready w = b) (update_images p f)" for p f
    by (rule keepsI) (simp add: update_images_def Let_def)
  moreover have "keeps (\<lambda>w. w_db_ready w = b) gen_uuid" by (rule keepsI) (simp add: gen_uuid_def)
  moreover have "keeps (\<lambda>w. w_db_ready w = b) (hash_password cy p a)" for p by (rule keepsI) (simp add: hash_password_def)
  ultimately show ?thesis
    unfolding bootstrap_admin_def create_user_def count_users_def set_owner_of_orphan_rows_def by (intro keeps_intro)
qed

lemma booted_facts:
  assumes "db_ok (sv_world s)" and "(p UsersPool \<longrightarrow> p ImagesPool) \<and> (p ImagesPool \<longrightarrow> p ReceiptsPool)"
  shows "db_ok (sv_world (booted cy p s)) \<and> (w_db_ready (sv_world (booted cy p s)) \<longleftrightarrow> p UsersPool)
    \<and> sv_world (booted cy p s) = (if p UsersPool
        then snd (bootstrap_admin cy (st_auth (pr_settings (sv_process s))) ((sv_world s)\<lparr>w_db_ready := True\<rparr>))
        else (sv_world s)\<lparr>w_db_ready := False\<rparr>)
    \<and> pr_settings (sv_process (booted cy p s)) = pr_settings (sv_process s)
    \<and> \<not> runtime_restart_required (pr_settings (sv_process s)) (sv_process (booted cy p s))"
proof -
  let ?w = "(sv_world s)\<lparr>w_db_ready := True\<rparr>" and ?b = "bootstrap_admin cy (st_auth (pr_settings (sv_process s)))"
  have "db_ok (snd (?b ?w))" by (rule keepsD [OF auth_ok(5)]) (simp add: assms(1))
  moreover have "w_db_ready (snd (?b ?w)) = True" by (rule keepsD [OF bootstrap_keeps_ready]) simp
  ultimately show ?thesis using assms
    by (cases "p UsersPool") (auto simp: booted_def Let_def set_ready_def runtime_restart_required_def)
qed


section \<open>A provider nobody can build\<close>

text \<open>
  Fact: an administrator can save the provider anthropic. The request is accepted and written to
  config.yaml; with these settings the next start raises ValueError before anything is there.
\<close>

lemma saved_anthropic_stops_start:
  assumes "put_settings_route cy dk cookie u s = (Inr v, s')" and "su_provider u = ANTHROPIC"
  shows "\<exists>e a'. startup cy dm ollama openai (a\<lparr>an_server := s'\<rparr>) = (Inl (ValueError e), a') \<and> an_pools a' = an_pools a
    \<and> sv_world (an_server a') = sv_world s"
proof -
  have "ls_provider (st_llm (pr_settings (sv_process s'))) = ANTHROPIC \<and> sv_world s' = sv_world s"
    using assms by (cases rule: put_settings_run [of cy dk cookie u s]) (auto simp: saved_def apply_update_def)
  then show ?thesis
    by (simp add: startup_def seq_def bind_def mark_startup_run lift_result_def get_llm_provider_def)
qed

section \<open>Going down\<close>

text \<open>
  Fact: stopping always succeeds, stops both workers and changes no table; without an exception of the
  database every pool is closed. (After one, the pools behind the failing one stay open.)
\<close>

lemma application_goes_down:
  "\<exists>a'. shutdown dm a = (Inr (), a') \<and> \<not> wk_running (an_scheduler a')
     \<and> (\<forall>b. an_benchmarks a' = Some b \<longrightarrow> \<not> bw_running b \<and> bw_stopping b)
     \<and> (\<exists>r. sv_world (an_server a') = (sv_world (an_server a))\<lparr>w_db_ready := r\<rparr>)
     \<and> ((\<forall>k. dm_close dm k = None) \<longrightarrow> an_pools a' = (\<lambda>_. False) \<and> \<not> w_db_ready (sv_world (an_server a')))"
proof -
  obtain r p where close: "service_destroy_db dm (an_pools a) = (r, p)" by fastforce
  have "(\<forall>k. dm_close dm k = None) \<longrightarrow> p = (\<lambda>_. False)" using close destroy_all [of dm "an_pools a"] by auto
  then show ?thesis
    by (auto simp: shutdown_def suppressed_run on_pools_def close set_ready_def stop_worker_def stop_benchmarks_def)
qed

section \<open>A start without a database, and one with half of it\<close>

definition no_database :: dbms where
  "no_database = \<lparr>dm_create = (\<lambda>_. Some (OSError ''refused'')), dm_check = (\<lambda>_. None), dm_close = (\<lambda>_. None), dm_mkdir = None\<rparr>"

definition sample_application :: application where
  "sample_application = \<lparr>an_server = sample_server, an_pools = (\<lambda>_. False), an_provider = None,
     an_scheduler = \<lparr>wk_running = False, wk_wake = False\<rparr>, an_benchmarks = None, an_attached = False\<rparr>"

text \<open>Fact: when only the pool of the images fails, the benchmark worker starts on a service without images.\<close>

lemma half_a_database:
  "\<exists>a'. startup sample_crypto (no_database\<lparr>dm_create := (\<lambda>k. if k = ImagesPool then Some (OSError ''refused'') else None)\<rparr>)
       stuck_provider stuck_provider sample_application = (Inr (), a')
     \<and> an_benchmarks a' = Some \<lparr>bw_running = True, bw_stopping = False\<rparr> \<and> \<not> an_pools a' ImagesPool"
proof -
  let ?dm = "no_database\<lparr>dm_create := (\<lambda>k. if k = ImagesPool then Some (OSError ''refused'') else None)\<rparr>"
  have pools: "service_init_db ?dm (\<lambda>_. False) = (Inl (OSError ''refused''), (\<lambda>_. False)(ReceiptsPool := True))"
    by (simp add: service_init_db_def init_pool_def no_database_def seq_def bind_def)
  have "get_llm_provider (ls_provider (st_llm (pr_settings (sv_process (an_server sample_application))))) stuck_provider stuck_provider
      = Inr stuck_provider"
    by (simp add: sample_application_def sample_server_def sample_settings_def get_llm_provider_def)
  then show ?thesis
    using startup_run [of sample_application stuck_provider stuck_provider stuck_provider ?dm _ _ sample_crypto, OF _ _ _ pools]
    by (simp add: sample_application_def no_database_def)
qed


end
