(* ===== verification/Migrations.thy ===== *)
theory Migrations
  imports ReceiptStore "HOL-Library.Multiset"
begin

text \<open>
  What the migrations of alembic/versions do to data. Rows of an older revision are records of their
  own, named after the revision; the rows of Schema are those of revision 0009. Of 0002 it is the
  trigger that keeps an image from being linked to two receipts where old duplicates forbid the unique index;
  of 0001 the seeded tags and its downgrade.
\<close>

section \<open>0001 and 0005: tables and tags\<close>

definition SEED_TAGS_0001 :: "string list" where
  "SEED_TAGS_0001 = [''alcohol'', ''beverage'', ''coffee'', ''food'', ''fresh'', ''household'', ''hygiene'', ''office'',
     ''electronics'', ''gift'', ''pet'', ''travel'', ''subscription'', ''service'', ''other'']"

text \<open>\<open>INSERT ... ON CONFLICT (name) DO NOTHING\<close>\<close>

definition add_tags :: "string list \<Rightarrow> string list \<Rightarrow> string list" where
  "add_tags new tags = fold (\<lambda>t ts. if t \<in> set ts then ts else ts @ [t]) new tags"

definition seed_tags_0001 :: "string list \<Rightarrow> string list" where
  "seed_tags_0001 = add_tags SEED_TAGS_0001"

definition upgrade_0005 :: "string list \<Rightarrow> string list" where
  "upgrade_0005 = add_tags [''deposit'']"

definition downgrade_0005 :: "string list \<Rightarrow> string list" where
  "downgrade_0005 = sql_delete (\<lambda>t. t = ''deposit'')"

text \<open>Fact: a freshly migrated database has the tags of \<open>fresh_world\<close>.\<close>

lemma seeded_tags: "upgrade_0005 (seed_tags_0001 []) = SEED_TAGS"
  by code_simp

text \<open>
  The foreign keys of revision 0001 as pairs of the referring and the referenced table. DROP TABLE
  without CASCADE is refused while another table refers to the table.
\<close>

definition FOREIGN_KEYS_0001 :: "(string \<times> string) list" where
  "FOREIGN_KEYS_0001 = [(''receipts'', ''users''), (''line_items'', ''receipts''), (''taxes'', ''receipts''),
     (''images'', ''receipts''), (''images'', ''users''), (''receipts'', ''images''),
     (''benchmark_tasks'', ''benchmark_runs''), (''benchmark_tasks'', ''receipts''), (''benchmark_summaries'', ''benchmark_runs'')]"

definition drop_table :: "string \<Rightarrow> string list \<Rightarrow> exn + string list" where
  "drop_table t tables = (if t \<notin> set tables then Inr tables
     else if list_ex (\<lambda>(a, b). b = t \<and> a \<noteq> t \<and> a \<in> set tables) FOREIGN_KEYS_0001
     then Inl (OtherError (''cannot drop table '' @ t @ '' because other objects depend on it''))
     else Inr (removeAll t tables))"

fun drop_tables :: "string list \<Rightarrow> string list \<Rightarrow> exn + string list" where
  "drop_tables [] tables = Inr tables"
| "drop_tables (t # ts) tables = (case drop_table t tables of Inl e \<Rightarrow> Inl e | Inr rest \<Rightarrow> drop_tables ts rest)"

definition TABLES_0001 :: "string list" where
  "TABLES_0001 = [''users'', ''receipts'', ''line_items'', ''taxes'', ''images'', ''benchmark_runs'', ''benchmark_tasks'',
     ''benchmark_summaries'', ''tags'']"

definition downgrade_0001 :: "string list \<Rightarrow> exn + string list" where
  "downgrade_0001 = drop_tables [''tags'', ''benchmark_summaries'', ''benchmark_tasks'', ''benchmark_runs'', ''images'',
     ''taxes'', ''line_items'', ''receipts'', ''users'']"

text \<open>
  Fact: the downgrade of the first revision is refused, because receipts and images refer to each other
  and images is dropped without CASCADE while receipts is there.
\<close>

lemma downgrade_0001_refused:
  "downgrade_0001 TABLES_0001 = Inl (OtherError ''cannot drop table images because other objects depend on it'')"
  by code_simp

section \<open>0002: one receipt for an image, with old duplicates\<close>

text \<open>Old duplicates decide whether the index is a unique one.\<close>

definition unique_index_0002 :: "receipt_row list \<Rightarrow> bool" where
  "unique_index_0002 rows \<longleftrightarrow> distinct (map r_image_id (filter (\<lambda>r. r_image_id r \<noteq> None) rows))"

text \<open>The trigger function on a new row, with the old one of an UPDATE; a refusal is reported as a unique violation.\<close>

definition check_receipt_image_id :: "receipt_row list \<Rightarrow> receipt_row option \<Rightarrow> receipt_row \<Rightarrow> bool" where
  "check_receipt_image_id rows old new \<longleftrightarrow>
     r_image_id new = None \<or> (\<exists>o' \<in> set_option old. r_image_id new = r_image_id o')
     \<or> \<not> list_ex (\<lambda>r. r_image_id r = r_image_id new \<and> r_id r \<noteq> r_id new) rows"

text \<open>One row inserted, updated or deleted under the trigger.\<close>

inductive trigger_step :: "receipt_row list \<Rightarrow> receipt_row list \<Rightarrow> bool" where
  insert: "r_id r \<notin> r_id ` set rows \<Longrightarrow> check_receipt_image_id rows None r \<Longrightarrow> trigger_step rows (rows @ [r])"
| update: "r \<in> set rows \<Longrightarrow> r_id r' = r_id r \<Longrightarrow> check_receipt_image_id rows (Some r) r' \<Longrightarrow>
     trigger_step rows (sql_update (\<lambda>x. r_id x = r_id r) (\<lambda>_. r') rows)"
| delete: "trigger_step rows (sql_delete p rows)"

definition links :: "receipt_row list \<Rightarrow> uuid \<Rightarrow> nat" where
  "links rows k = length (filter (\<lambda>r. r_image_id r = Some k) rows)"

lemma links_update:
  assumes "distinct (map r_id rows)" and "r \<in> set rows" and "r_id r' = r_id r"
  shows "links (sql_update (\<lambda>x. r_id x = r_id r) (\<lambda>_. r') rows) k + (if r_image_id r = Some k then 1 else 0)
    = links rows k + (if r_image_id r' = Some k then 1 else 0)"
  using assms
proof (induction rows)
  case (Cons x rows)
  show ?case
  proof (cases "x = r")
    case True
    have "\<forall>y \<in> set rows. r_id y \<noteq> r_id r" using Cons.prems(1) True by (auto simp: image_iff)
    then have "sql_update (\<lambda>x. r_id x = r_id r) (\<lambda>_. r') rows = rows" by (rule sql_update_none)
    then show ?thesis using True by (simp add: links_def sql_update_def)
  next
    case False
    then have r: "r \<in> set rows" using Cons.prems(2) by simp
    then have "r_id x \<noteq> r_id r" using Cons.prems(1) by (auto simp: image_iff)
    then show ?thesis using Cons.IH [OF _ r Cons.prems(3)] Cons.prems(1) by (simp add: links_def sql_update_def)
  qed
qed simp

lemma trigger_step_ids: "trigger_step rows rows' \<Longrightarrow> distinct (map r_id rows) \<Longrightarrow> distinct (map r_id rows')"
proof (induction rule: trigger_step.induct)
  case (update r rows r')
  have "map r_id (sql_update (\<lambda>x. r_id x = r_id r) (\<lambda>_. r') rows) = map r_id rows"
    using update(2) by (simp add: sql_update_def)
  then show ?case using update(4) by simp
qed (auto simp: distinct_map_sql_delete)

lemma trigger_step_links:
  assumes "trigger_step rows rows'" and "distinct (map r_id rows)"
  shows "links rows' k \<le> max 1 (links rows k)"
  using assms
proof (induction rule: trigger_step.induct)
  case (insert r rows)
  show ?case
  proof (cases "r_image_id r = Some k")
    case True
    have "\<not> list_ex (\<lambda>x. r_image_id x = Some k \<and> r_id x \<noteq> r_id r) rows"
      using insert(2) unfolding check_receipt_image_id_def True by simp
    then have "r_image_id x \<noteq> Some k" if "x \<in> set rows" for x
      using imageI [OF that, of r_id] insert(1) that unfolding list_ex_iff by metis
    then have "filter (\<lambda>x. r_image_id x = Some k) rows = []" by (simp add: filter_empty_conv)
    then show ?thesis using True by (simp add: links_def)
  qed (simp add: links_def)
next
  case (update r rows r')
  note count = links_update [OF update(4,1,2), of k]
  show ?case
  proof (cases "r_image_id r' = Some k \<and> r_image_id r \<noteq> Some k")
    case True
    then have i: "r_image_id r' = Some k" "r_image_id r \<noteq> Some k" by simp_all
    have "r_image_id x \<noteq> Some k" if x: "x \<in> set rows" for x
    proof
      assume k: "r_image_id x = Some k"
      have "\<not> list_ex (\<lambda>x. r_image_id x = Some k \<and> r_id x \<noteq> r_id r) rows"
        using update(3) i(2) i(2) [symmetric] unfolding check_receipt_image_id_def update(2) i(1) by simp
      then have "r_id x = r_id r" using k x unfolding list_ex_iff by blast
      then have "x = r" using update(1,4) x by (auto simp: distinct_map dest: inj_onD)
      then show False using k True by simp
    qed
    then have "filter (\<lambda>x. r_image_id x = Some k) rows = []" by (simp add: filter_empty_conv)
    then show ?thesis using count True by (simp add: links_def)
  next
    case False
    then show ?thesis using count by (auto split: if_splits)
  qed
next
  case (delete rows p)
  have "links (sql_delete p rows) k = length (filter (\<lambda>r. \<not> p r) (filter (\<lambda>r. r_image_id r = Some k) rows))"
    by (simp add: links_def sql_delete_def conj_commute)
  also have "\<dots> \<le> links rows k" unfolding links_def by (rule length_filter_le)
  finally have "links (sql_delete p rows) k \<le> links rows k" .
  then show ?case by simp
qed

lemma unique_index_links: "unique_index_0002 xs \<longleftrightarrow> (\<forall>k. links xs k \<le> 1)"
proof (induction xs)
  case (Cons x xs)
  have one: "links xs k = 0 \<longleftrightarrow> Some k \<notin> set (map r_image_id xs)" for k
    unfolding links_def length_0_conv filter_empty_conv set_map image_iff by metis
  show ?case
  proof (cases "r_image_id x")
    case None
    then show ?thesis using Cons by (simp add: unique_index_0002_def links_def)
  next
    case (Some k)
    have "Some k \<in> r_image_id ` {r \<in> set xs. \<exists>y. r_image_id r = Some y} \<longleftrightarrow> links xs k \<noteq> 0"
    proof -
      have "Some k \<in> r_image_id ` {r \<in> set xs. \<exists>y. r_image_id r = Some y} \<longleftrightarrow> Some k \<in> r_image_id ` set xs"
        unfolding image_iff by (metis (mono_tags, lifting) mem_Collect_eq)
      then show ?thesis using one [of k] by simp
    qed
    then have "unique_index_0002 (x # xs) \<longleftrightarrow> links xs k = 0 \<and> (\<forall>k. links xs k \<le> 1)"
      using Some Cons by (auto simp: unique_index_0002_def)
    also have "\<dots> \<longleftrightarrow> (\<forall>j. links (x # xs) j \<le> 1)"
    proof -
      have "links (x # xs) j = links xs j + (if j = k then 1 else 0)" for j using Some by (simp add: links_def)
      then have step: "(\<forall>j. links (x # xs) j \<le> 1) \<longleftrightarrow> (\<forall>j. links xs j + (if j = k then 1 else 0) \<le> 1)" by (simp only:)
      show ?thesis unfolding step
      proof (intro iffI conjI allI; (elim conjE)?)
        fix j assume h: "\<forall>j. links xs j + (if j = k then 1 else 0) \<le> 1"
        show "links xs k = 0" using spec [OF h, of k] by simp
        show "links xs j \<le> 1" using spec [OF h, of j] by (simp split: if_splits)
      next
        fix j assume "links xs k = 0" "\<forall>k. links xs k \<le> 1"
        then show "links xs j + (if j = k then 1 else 0) \<le> 1" by simp
      qed
    qed
    finally show ?thesis .
  qed
qed (simp add: unique_index_0002_def links_def)

text \<open>
  Fact: images that had one receipt keep at most one. Whatever sequence of inserts, updates and
  deletes runs under the trigger of 0002, no image gets more receipts than it had, or than one; on a table
  without old duplicates the unique index stays satisfiable, and there the trigger refuses an insert
  exactly when the index would.
\<close>

theorem duplicates_never_grow:
  assumes "trigger_step\<^sup>*\<^sup>* (receipts_t w) rows" and "distinct (map r_id (receipts_t w))"
  shows "(\<forall>k. links rows k \<le> max 1 (links (receipts_t w) k))
    \<and> (unique_index_0002 (receipts_t w) \<longrightarrow> unique_index_0002 rows)
    \<and> (r_id r \<notin> r_id ` set (receipts_t w) \<longrightarrow>
         check_receipt_image_id (receipts_t w) None r \<longleftrightarrow> \<not> image_taken w (r_image_id r))"
proof -
  have grow: "distinct (map r_id rows) \<and> (\<forall>k. links rows k \<le> max 1 (links (receipts_t w) k))"
    using assms(1)
  proof (induction rule: rtranclp_induct)
    case (step y z)
    have "links z k \<le> max 1 (links (receipts_t w) k)" for k
    proof -
      have "links z k \<le> max 1 (links y k)" "links y k \<le> max 1 (links (receipts_t w) k)"
        using trigger_step_links [OF step(2)] step(3) by blast+
      then show ?thesis by linarith
    qed
    then show ?case using trigger_step_ids [OF step(2)] step(3) by simp
  qed (use assms(2) in simp)
  have "unique_index_0002 rows" if u: "unique_index_0002 (receipts_t w)"
    unfolding unique_index_links
  proof
    fix k show "links rows k \<le> 1"
      using spec [OF conjunct2 [OF grow], of k] spec [OF u [unfolded unique_index_links], of k] by simp
  qed
  moreover have "r_id r \<notin> r_id ` set (receipts_t w) \<Longrightarrow>
      check_receipt_image_id (receipts_t w) None r \<longleftrightarrow> \<not> image_taken w (r_image_id r)"
    by (auto simp: check_receipt_image_id_def image_taken_def list_ex_iff image_iff)
  ultimately show ?thesis using grow by simp
qed

section \<open>0006 and 0008: positions, categories and printed descriptions of the line items\<close>

record item_0003 =
  o_id :: uuid
  o_receipt_id :: uuid
  o_description :: string
  o_quantity :: rat
  o_unit_price :: rat
  o_total_price :: rat
  o_tags :: "string list"

record item_0006 = item_0003 +
  o_position :: nat

text \<open>\<open>SELECT id, ROW_NUMBER() OVER (PARTITION BY receipt_id ORDER BY id) - 1 AS n FROM line_items\<close>\<close>

definition row_numbers :: "item_0003 list \<Rightarrow> (uuid \<times> nat) list" where
  "row_numbers items = concat (map (\<lambda>r.
     map (\<lambda>(n, i). (o_id i, n)) (enumerate 0 (sort_key o_id (filter (\<lambda>i. o_receipt_id i = r) items))))
     (remdups (map o_receipt_id items)))"

text \<open>The column is added with default 0, then each row gets the number of its identifier.\<close>

definition upgrade_0006 :: "item_0003 list \<Rightarrow> item_0006 list" where
  "upgrade_0006 items = (let added = map (\<lambda>i. item_0003.extend i (item_0006.fields 0)) items; sub = row_numbers items in
     map (\<lambda>i. case map_of sub (o_id i) of None \<Rightarrow> i | Some n \<Rightarrow> i\<lparr>o_position := n\<rparr>) added)"

definition downgrade_0006 :: "item_0006 list \<Rightarrow> item_0003 list" where
  "downgrade_0006 = map item_0003.truncate"

text \<open>Three columns with their defaults; the description is copied, and the tag deposit becomes the category.\<close>

definition item_0008 :: "item_0006 \<Rightarrow> item_row" where
  "item_0008 i = \<lparr>li_id = o_id i, li_receipt_id = o_receipt_id i, li_description = o_description i, li_original = o_description i,
     li_category = ''unknown'', li_source = FromUnknown, li_quantity = o_quantity i, li_unit_price = o_unit_price i,
     li_total_price = o_total_price i, li_tags = o_tags i, li_position = o_position i\<rparr>"

definition upgrade_0008 :: "item_0006 list \<Rightarrow> item_row list" where
  "upgrade_0008 items = sql_update (\<lambda>i. ''deposit'' \<in> set (li_tags i)) (\<lambda>i. i\<lparr>li_category := ''deposit''\<rparr>) (map item_0008 items)"

definition downgrade_0008 :: "item_row list \<Rightarrow> item_0006 list" where
  "downgrade_0008 = map (\<lambda>i. \<lparr>o_id = li_id i, o_receipt_id = li_receipt_id i, o_description = li_description i,
     o_quantity = li_quantity i, o_unit_price = li_unit_price i, o_total_price = li_total_price i, o_tags = li_tags i,
     o_position = li_position i\<rparr>)"

text \<open>The items of a receipt in the order of their identifiers.\<close>

definition by_id :: "item_0003 list \<Rightarrow> uuid \<Rightarrow> item_0003 list" where
  "by_id items r = sort_key o_id (filter (\<lambda>i. o_receipt_id i = r) items)"

lemma set_numbered: "set (map (\<lambda>(n, i). (f i, n)) (enumerate 0 xs)) = {(f (xs ! n), n) | n. n < length xs}"
proof -
  have "(f (xs ! n), n) \<in> set (map (\<lambda>(n, i). (f i, n)) (enumerate 0 xs))" if "n < length xs" for n
    using that by (auto simp: image_iff in_set_enumerate_eq intro!: bexI [of _ "(n, xs ! n)"])
  then show ?thesis by (auto simp: in_set_enumerate_eq)
qed

lemma row_numbers_set:
  "(k, n) \<in> set (row_numbers items) \<longleftrightarrow> (\<exists>r. n < length (by_id items r) \<and> k = o_id (by_id items r ! n))"
proof -
  have "set (row_numbers items) = (\<Union>r \<in> o_receipt_id ` set items. {(o_id (by_id items r ! n), n) | n. n < length (by_id items r)})"
    unfolding row_numbers_def set_concat by_id_def [symmetric] set_map [of _ "remdups _"] image_image set_numbered by simp
  moreover have "r \<in> o_receipt_id ` set items" if "n < length (by_id items r)" for n r
  proof -
    have "by_id items r ! n \<in> set items" "o_receipt_id (by_id items r ! n) = r"
      using nth_mem [OF that] by (auto simp: by_id_def)
    then show ?thesis by (metis imageI)
  qed
  ultimately show ?thesis by (auto simp: image_iff) blast
qed

lemma row_numbers_of:
  assumes "distinct (map o_id items)" and "n < length (by_id items r)"
  shows "map_of (row_numbers items) (o_id (by_id items r ! n)) = Some n"
proof -
  have inj: "inj_on o_id (set items)" and d: "distinct items" using assms(1) by (simp_all add: distinct_map)
  have mem: "by_id items r ! n \<in> set items \<and> o_receipt_id (by_id items r ! n) = r" if "n < length (by_id items r)" for n r
    using nth_mem [OF that] by (auto simp: by_id_def)
  have only: "m = n" if "(o_id (by_id items r ! n), m) \<in> set (row_numbers items)" for m
  proof -
    obtain q where q: "m < length (by_id items q)" "o_id (by_id items r ! n) = o_id (by_id items q ! m)"
      using \<open>(o_id (by_id items r ! n), m) \<in> set (row_numbers items)\<close> row_numbers_set by blast
    then have "by_id items r ! n = by_id items q ! m" using inj mem assms(2) by (metis inj_onD)
    moreover have "q = r" using calculation mem [OF q(1)] mem [OF assms(2)] by metis
    moreover have "distinct (by_id items r)" using d by (simp add: by_id_def)
    ultimately show ?thesis using q(1) assms(2) nth_eq_iff_index_eq by metis
  qed
  have "(o_id (by_id items r ! n), n) \<in> set (row_numbers items)" using assms(2) row_numbers_set by blast
  then obtain m where "map_of (row_numbers items) (o_id (by_id items r ! n)) = Some m"
    by (metis domIff dom_map_of_conv_image_fst fst_conv imageI not_None_eq)
  with only map_of_SomeD show ?thesis by metis
qed

text \<open>The row both migrations together make of an item.\<close>

definition upgraded :: "item_0003 list \<Rightarrow> item_0003 \<Rightarrow> item_row" where
  "upgraded items i = \<lparr>li_id = o_id i, li_receipt_id = o_receipt_id i, li_description = o_description i,
     li_original = o_description i, li_category = if ''deposit'' \<in> set (o_tags i) then ''deposit'' else ''unknown'',
     li_source = FromUnknown, li_quantity = o_quantity i, li_unit_price = o_unit_price i, li_total_price = o_total_price i,
     li_tags = o_tags i, li_position = (case map_of (row_numbers items) (o_id i) of None \<Rightarrow> 0 | Some n \<Rightarrow> n)\<rparr>"

lemma upgraded_rows: "upgrade_0008 (upgrade_0006 items) = map (upgraded items) items"
  by (auto simp: upgrade_0008_def upgrade_0006_def sql_update_def item_0008_def upgraded_def item_0003.defs item_0006.defs
      split: option.split)

lemma downgraded_rows: "downgrade_0006 (downgrade_0008 (map (upgraded items) xs)) = xs"
  by (induction xs) (simp_all add: downgrade_0006_def downgrade_0008_def upgraded_def item_0003.defs)

lemma upgraded_order:
  assumes "distinct (map o_id items)"
  shows "sort_key li_position (filter (\<lambda>i. li_receipt_id i = r) (map (upgraded items) items)) = map (upgraded items) (by_id items r)"
    and "map li_position (map (upgraded items) (by_id items r)) = [0..<length (by_id items r)]"
proof -
  show pos: "map li_position (map (upgraded items) (by_id items r)) = [0..<length (by_id items r)]"
    by (rule nth_equalityI) (simp_all add: upgraded_def row_numbers_of [OF assms])
  have "filter (\<lambda>i. li_receipt_id i = r) (map (upgraded items) items) = map (upgraded items) (filter (\<lambda>i. o_receipt_id i = r) items)"
    by (simp add: filter_map comp_def upgraded_def)
  then have m: "mset (filter (\<lambda>i. li_receipt_id i = r) (map (upgraded items) items)) = mset (map (upgraded items) (by_id items r))"
    by (simp add: by_id_def)
  have "distinct (map li_position (map (upgraded items) (by_id items r)))" unfolding pos by simp
  then have "inj_on li_position (set (filter (\<lambda>i. li_receipt_id i = r) (map (upgraded items) items)))"
    unfolding mset_eq_setD [OF m] by (simp only: distinct_map)
  moreover have "sorted (map li_position (map (upgraded items) (by_id items r)))" unfolding pos by simp
  ultimately show "sort_key li_position (filter (\<lambda>i. li_receipt_id i = r) (map (upgraded items) items))
      = map (upgraded items) (by_id items r)"
    by (intro sort_key_inj_key_eq [OF m])
qed

text \<open>
  Property C33: the line items survive the migrations. After 0006 and 0008 every receipt lists exactly its old
  items, in the order of their identifiers, at the positions 0, 1, 2 and so on; each has its old values, its
  description as printed one, and the category deposit exactly if it had that tag. Going back gives
  the old rows.
\<close>

theorem items_survive_migration:
  assumes "distinct (map o_id items)" and "items_t w = upgrade_0008 (upgrade_0006 items)"
  shows "\<exists>xs. list_line_items r w = (Inr xs, w)
    \<and> map li_id xs = map o_id (sort_key o_id (filter (\<lambda>i. o_receipt_id i = r) items))
    \<and> map li_position xs = [0..<length xs]
    \<and> (\<forall>x \<in> set xs. li_original x = li_description x \<and> li_source x = FromUnknown
         \<and> li_category x = (if ''deposit'' \<in> set (li_tags x) then ''deposit'' else ''unknown''))
    \<and> downgrade_0006 (downgrade_0008 (items_t w)) = items"
proof (intro exI conjI)
  let ?xs = "map (upgraded items) (by_id items r)"
  show "list_line_items r w = (Inr ?xs, w)"
    using upgraded_order(1) [OF assms(1)] by (simp add: list_line_items_def assms(2) upgraded_rows)
  show "map li_id ?xs = map o_id (sort_key o_id (filter (\<lambda>i. o_receipt_id i = r) items))"
    by (simp add: by_id_def upgraded_def comp_def)
  show "map li_position ?xs = [0..<length ?xs]" using upgraded_order(2) [OF assms(1)] by simp
  show "\<forall>x \<in> set ?xs. li_original x = li_description x \<and> li_source x = FromUnknown
       \<and> li_category x = (if ''deposit'' \<in> set (li_tags x) then ''deposit'' else ''unknown'')"
    by (auto simp: upgraded_def)
  show "downgrade_0006 (downgrade_0008 (items_t w)) = items"
    unfolding assms(2) upgraded_rows by (rule downgraded_rows)
qed

section \<open>0009: submissions of several photos\<close>

text \<open>Every column up to 0008; the two new ones have defaults, and the check allows two more statuses.\<close>

record image_0008 =
  io_id :: uuid
  io_filename :: "string option"
  io_media :: "string option"
  io_size :: "int option"
  io_path :: "string option"
  io_thumb :: "string option"
  io_status :: image_status
  io_error :: "string option"
  io_receipt_id :: "uuid option"
  io_bypass :: bool
  io_user_id :: "uuid option"
  io_created_at :: timestamp
  io_analyzed_at :: "timestamp option"
  io_processing_at :: "timestamp option"

definition status_check_0002 :: "image_status \<Rightarrow> bool" where
  "status_check_0002 s \<longleftrightarrow> s \<in> {Pending, Processing, Analyzed, Failed}"

definition upgrade_0009 :: "image_0008 list \<Rightarrow> image_row list" where
  "upgrade_0009 = map (\<lambda>i. \<lparr>im_id = io_id i, im_filename = io_filename i, im_media = io_media i, im_size = io_size i,
     im_path = io_path i, im_thumb = io_thumb i, im_status = io_status i, im_error = io_error i, im_receipt_id = io_receipt_id i,
     im_bypass = io_bypass i, im_user_id = io_user_id i, im_created_at = io_created_at i, im_analyzed_at = io_analyzed_at i,
     im_processing_at = io_processing_at i, im_additional = [], im_model_id = None\<rparr>)"

definition without_columns_0009 :: "image_row \<Rightarrow> image_0008" where
  "without_columns_0009 i = \<lparr>io_id = im_id i, io_filename = im_filename i, io_media = im_media i, io_size = im_size i,
     io_path = im_path i, io_thumb = im_thumb i, io_status = im_status i, io_error = im_error i, io_receipt_id = im_receipt_id i,
     io_bypass = im_bypass i, io_user_id = im_user_id i, io_created_at = im_created_at i, io_analyzed_at = im_analyzed_at i,
     io_processing_at = im_processing_at i\<rparr>"

definition downgrade_0009 :: "image_row list \<Rightarrow> exn + image_0008 list" where
  "downgrade_0009 images =
     (let failed = sql_update (\<lambda>i. im_status i = TimedOut \<or> im_status i = Unreadable) (\<lambda>i. i\<lparr>im_status := Failed\<rparr>) images in
      if list_all (\<lambda>i. status_check_0002 (im_status i)) failed then Inr (map without_columns_0009 failed) else Inl CheckViolation)"

text \<open>
  Fact: 0009 can be undone without loss on data of 0008, each old row is a submission of one photo, and
  its downgrade is never refused; but an image that had ended as timed out or unreadable is claimable
  again once the database is upgraded anew.
\<close>

lemma images_survive_migration:
  "(\<forall>i \<in> set (upgrade_0009 olds). length (image_parts i) = 1)
   \<and> (list_all (\<lambda>i. status_check_0002 (io_status i)) olds \<longrightarrow> downgrade_0009 (upgrade_0009 olds) = Inr olds)
   \<and> (\<exists>back. downgrade_0009 images = Inr back
       \<and> (\<forall>i \<in> set images. im_status i \<in> {TimedOut, Unreadable} \<longrightarrow>
            (\<exists>j \<in> set (upgrade_0009 back). im_id j = im_id i \<and> claimable now j)))"
proof (intro conjI)
  show "\<forall>i \<in> set (upgrade_0009 olds). length (image_parts i) = 1" by (auto simp: upgrade_0009_def image_parts_def)
  show "list_all (\<lambda>i. status_check_0002 (io_status i)) olds \<longrightarrow> downgrade_0009 (upgrade_0009 olds) = Inr olds"
  proof
    assume ok: "list_all (\<lambda>i. status_check_0002 (io_status i)) olds"
    then have "sql_update (\<lambda>i. im_status i = TimedOut \<or> im_status i = Unreadable) (\<lambda>i. i\<lparr>im_status := Failed\<rparr>) (upgrade_0009 olds)
        = upgrade_0009 olds"
      by (intro sql_update_none) (auto simp: upgrade_0009_def status_check_0002_def list_all_iff)
    moreover have "map without_columns_0009 (upgrade_0009 olds) = olds"
      by (simp add: upgrade_0009_def comp_def without_columns_0009_def) (rule map_idI, simp)
    ultimately show "downgrade_0009 (upgrade_0009 olds) = Inr olds"
      using ok by (simp add: downgrade_0009_def Let_def upgrade_0009_def list_all_iff)
  qed
  let ?f = "\<lambda>i. if im_status i = TimedOut \<or> im_status i = Unreadable then i\<lparr>im_status := Failed\<rparr> else i"
  have ok: "status_check_0002 (im_status (?f i))" for i by (cases "im_status i") (simp_all add: status_check_0002_def)
  have all: "list_all (\<lambda>x. status_check_0002 (im_status (?f x))) images" unfolding list_all_iff using ok by blast
  have down: "downgrade_0009 images = Inr (map without_columns_0009 (map ?f images))"
    unfolding downgrade_0009_def Let_def sql_update_def list.pred_map comp_def if_P [OF all] by (rule refl)
  show "\<exists>back. downgrade_0009 images = Inr back
       \<and> (\<forall>i \<in> set images. im_status i \<in> {TimedOut, Unreadable} \<longrightarrow>
            (\<exists>j \<in> set (upgrade_0009 back). im_id j = im_id i \<and> claimable now j))"
    unfolding down
    by (rule exI, rule conjI, rule refl) (auto simp: upgrade_0009_def without_columns_0009_def claimable_def)
qed

section \<open>Samples\<close>

text \<open>Two receipts that were linked to image 7 before 0002; the link of the second one is then removed.\<close>

definition linked_row :: "uuid \<Rightarrow> uuid option \<Rightarrow> receipt_row" where
  "linked_row k i = \<lparr>r_id = k, r_confidence = 90, r_merchant_name = ''Shop'', r_merchant_address = None, r_receipt_number = None,
     r_date = Date 2026 9 5, r_time = None, r_currency = ''EUR'', r_category = ''grocery'', r_subtotal = 1, r_discount_total = 0,
     r_tax_total = 0, r_tip = None, r_total = 1, r_payment_method = ''cash'', r_created_at = 900, r_status = Unverified,
     r_image_id = i, r_verified = False, r_user_id = None\<rparr>"

theorem duplicates_never_grow_witness:
  "trigger_step [linked_row 1 (Some 7), linked_row 2 (Some 7)] [linked_row 1 (Some 7), linked_row 2 None]
   \<and> links [linked_row 1 (Some 7), linked_row 2 None] 7 \<le> 2
   \<and> \<not> check_receipt_image_id [linked_row 1 (Some 7), linked_row 2 (Some 7)] None (linked_row 3 (Some 7))"
proof -
  let ?w = "fresh_world\<lparr>receipts_t := [linked_row 1 (Some 7), linked_row 2 (Some 7)]\<rparr>"
  have step: "trigger_step [linked_row 1 (Some 7), linked_row 2 (Some 7)] [linked_row 1 (Some 7), linked_row 2 None]"
    using trigger_step.update [of "linked_row 2 (Some 7)" "[linked_row 1 (Some 7), linked_row 2 (Some 7)]" "linked_row 2 None"]
    by (simp add: linked_row_def check_receipt_image_id_def sql_update_def)
  have "distinct (map r_id (receipts_t ?w))" "r_id (linked_row 3 (Some 7)) \<notin> r_id ` set (receipts_t ?w)"
    by (simp_all add: linked_row_def)
  with duplicates_never_grow [of ?w "[linked_row 1 (Some 7), linked_row 2 None]" "linked_row 3 (Some 7)"] step
  have "links [linked_row 1 (Some 7), linked_row 2 None] 7 \<le> max 1 (links (receipts_t ?w) 7)"
    "check_receipt_image_id (receipts_t ?w) None (linked_row 3 (Some 7)) \<longleftrightarrow> \<not> image_taken ?w (Some 7)"
    by (auto simp: linked_row_def)
  then show ?thesis using step by (simp add: links_def image_taken_def linked_row_def)
qed

definition old_items :: "item_0003 list" where
  "old_items = [\<lparr>o_id = 7, o_receipt_id = 1, o_description = ''Pfand'', o_quantity = 1, o_unit_price = 1, o_total_price = 1,
     o_tags = [''deposit'']\<rparr>, \<lparr>o_id = 3, o_receipt_id = 1, o_description = ''Cola'', o_quantity = 1, o_unit_price = 2,
     o_total_price = 2, o_tags = []\<rparr>]"

theorem items_survive_migration_witness:
  "\<exists>xs. list_line_items 1 (fresh_world\<lparr>items_t := upgrade_0008 (upgrade_0006 old_items)\<rparr>)
      = (Inr xs, fresh_world\<lparr>items_t := upgrade_0008 (upgrade_0006 old_items)\<rparr>)
    \<and> map li_id xs = [3, 7] \<and> map li_position xs = [0, 1]"
proof -
  let ?w = "fresh_world\<lparr>items_t := upgrade_0008 (upgrade_0006 old_items)\<rparr>"
  have "distinct (map o_id old_items)" by (simp add: old_items_def)
  moreover have "items_t ?w = upgrade_0008 (upgrade_0006 old_items)" by simp
  ultimately show ?thesis
  proof (rule items_survive_migration [where r = 1, THEN exE]; elim conjE)
    fix xs assume xs: "list_line_items 1 ?w = (Inr xs, ?w)"
      "map li_id xs = map o_id (sort_key o_id (filter (\<lambda>i. o_receipt_id i = 1) old_items))" "map li_position xs = [0..<length xs]"
    have ids: "map li_id xs = [3, 7]" using xs(2) by (simp add: old_items_def)
    then have "length (map li_id xs) = 2" by simp
    then have "length xs = 2" by simp
    then have "map li_position xs = [0, 1]" using xs(3) by (simp add: upt_conv_Cons)
    then show ?thesis using xs(1) ids by (intro exI [of _ xs] conjI)
  qed
qed

end
