(* ===== verification/Thumbnails.thy ===== *)
theory Thumbnails
  imports ReceiptService
begin

text \<open>
  scripts/generate_thumbnails.py, which makes the thumbnails that are missing: the images without one
  are read in one statement, then each is resolved to a file, given a thumbnail and updated, every
  UPDATE being committed on its own.
\<close>

section \<open>The script\<close>

record backfill_args =
  ba_dry_run :: bool
  ba_limit :: "int option"

text \<open>The first candidate that is a file: the stored path, then its name in each directory.\<close>

definition resolve_stored :: "string list \<Rightarrow> string \<Rightarrow> world \<Rightarrow> string option" where
  "resolve_stored extra_dirs stored_path w =
     (let stored = py_strip stored_path in
      if stored = [] then None
      else fetchrow (filter (\<lambda>c. file_exists c w)
        (stored # map (\<lambda>d. path_join d (path_name stored)) (filter (\<lambda>d. d \<noteq> []) extra_dirs))))"

text \<open>The statement has no ORDER BY; the rows are taken as the table has them. A limit of 0 counts as none.\<close>

definition lacks_thumbnail :: "image_row \<Rightarrow> bool" where
  "lacks_thumbnail i \<longleftrightarrow> im_thumb i = None \<and> im_path i \<noteq> None"

definition select_missing :: "backfill_args \<Rightarrow> (world, image_row list) py" where
  "select_missing args = bind (gets (\<lambda>w. filter lacks_thumbnail (images_t w))) (\<lambda>rows.
     case ba_limit args of None \<Rightarrow> ret rows
     | Some n \<Rightarrow> if n = 0 then ret rows
         else seq (guard (0 < n) (OtherError ''LIMIT must not be negative'')) (ret (take (nat n) rows)))"

datatype backfill_outcome = Processed | Skipped | Undecoded

definition backfill_row :: "image_cfg \<Rightarrow> bool \<Rightarrow> image_row \<Rightarrow> (world, backfill_outcome) py" where
  "backfill_row cfg dry_run row =
     bind (gets (resolve_stored [ic_save cfg, ic_tmp cfg] (case im_path row of None \<Rightarrow> [] | Some p \<Rightarrow> p))) (\<lambda>path. case path of
       None \<Rightarrow> ret Skipped
     | Some p \<Rightarrow> bind (if dry_run then ret None else generate_thumbnail cfg p) (\<lambda>thumb. case thumb of
         None \<Rightarrow> ret Undecoded
       | Some t \<Rightarrow> seq (if dry_run then ret () else update_image_thumbnail_path (im_id row) t) (ret Processed)))"

text \<open>The three numbers of the report: processed, without a file, not decoded.\<close>

definition run_backfill :: "image_cfg \<Rightarrow> backfill_args \<Rightarrow> (world, nat \<times> nat \<times> nat) py" where
  "run_backfill cfg args =
     bind (select_missing args) (\<lambda>rows.
     bind (collect rows (backfill_row cfg (ba_dry_run args))) (\<lambda>outs.
       ret (count_list outs Processed, count_list outs Skipped, count_list outs Undecoded)))"

section \<open>One row\<close>

definition with_thumbs :: "world \<Rightarrow> nat" where
  "with_thumbs w = length (filter (\<lambda>i. im_thumb i \<noteq> None) (images_t w))"

definition blank_thumb :: "image_row \<Rightarrow> image_row" where
  "blank_thumb i = i\<lparr>im_thumb := None\<rparr>"

lemma count_updated:
  assumes "distinct (map key rows)" and "r \<in> set rows" and "\<not> P r" and "P (f r)"
  shows "length (filter P (sql_update (\<lambda>x. key x = key r) f rows)) = Suc (length (filter P rows))"
  using assms
proof (induction rows)
  case (Cons x rows)
  show ?case
  proof (cases "x = r")
    case True
    then have "\<forall>y \<in> set rows. key y \<noteq> key r" using Cons.prems(1) by (auto simp: image_iff)
    then have "sql_update (\<lambda>x. key x = key r) f rows = rows" by (rule sql_update_none)
    then show ?thesis using True Cons.prems(3,4) by (simp add: sql_update_def)
  next
    case False
    then have r: "r \<in> set rows" using Cons.prems(2) by simp
    then have "key x \<noteq> key r" using Cons.prems(1) by (auto simp: image_iff)
    then show ?thesis using Cons.IH [OF _ r Cons.prems(3,4)] Cons.prems(1) by (simp add: sql_update_def)
  qed
qed simp

lemma resolved_file: "resolve_stored ds s w = Some p \<Longrightarrow> file_exists p w"
  by (auto simp: resolve_stored_def Let_def split: if_splits dest!: fetchrow_filter_Some)

lemma generate_run:
  obtains "generate_thumbnail cfg p w = (Inr None, w)"
  | t where "generate_thumbnail cfg p w = (Inr (Some (thumb_for p)), w\<lparr>w_files := (w_files w)(thumb_for p := Some t)\<rparr>)"
proof (cases "w_files w p")
  case None
  then show ?thesis by (intro that(1)) (simp add: generate_thumbnail_def)
next
  case (Some c)
  then show ?thesis
    by (cases "ic_thumb cfg c") (simp_all add: that generate_thumbnail_def write_file_def)
qed

lemma set_thumb_run:
  assumes "db_ok w" 
  shows "update_image_thumbnail_path k t w
    = (Inr (), w\<lparr>images_t := sql_update (\<lambda>i. im_id i = k) (\<lambda>i. i\<lparr>im_thumb := Some t\<rparr>) (images_t w)\<rparr>)"
proof -
  have "\<not> list_ex (\<lambda>i. \<not> ref_opt (has_receipt w) (im_receipt_id i) \<or> \<not> ref_opt (has_user w) (im_user_id i))
      (map (\<lambda>i. i\<lparr>im_thumb := Some t\<rparr>) (filter (\<lambda>i. im_id i = k) (images_t w)))"
    using db_okD(4) [OF assms] by (auto simp: image_refs_def list_ex_iff)
  then show ?thesis by (simp add: update_image_thumbnail_path_def on_image_def update_images_def bind_def Let_def)
qed

lemma backfill_row_run:
  assumes "db_ok w"
  obtains o' where "o' \<noteq> Processed" "backfill_row cfg dry row w = (Inr o', w)"
  | t c where "\<not> dry" "backfill_row cfg dry row w = (Inr Processed, w\<lparr>w_files := (w_files w)(t := Some c),
      images_t := sql_update (\<lambda>i. im_id i = im_id row) (\<lambda>i. i\<lparr>im_thumb := Some t\<rparr>) (images_t w)\<rparr>)"
proof (cases "resolve_stored [ic_save cfg, ic_tmp cfg] (case im_path row of None \<Rightarrow> [] | Some p \<Rightarrow> p) w")
  case None
  then show ?thesis by (intro that(1) [of Skipped]) (simp_all add: backfill_row_def)
next
  case (Some p)
  show ?thesis
  proof (cases dry)
    case True
    then show ?thesis using Some by (intro that(1) [of Undecoded]) (simp_all add: backfill_row_def)
  next
    case False
    show ?thesis
    proof (rule generate_run [of cfg p w])
      assume "generate_thumbnail cfg p w = (Inr None, w)"
      then show ?thesis using Some False by (intro that(1) [of Undecoded]) (simp_all add: backfill_row_def)
    next
      fix t assume g: "generate_thumbnail cfg p w = (Inr (Some (thumb_for p)), w\<lparr>w_files := (w_files w)(thumb_for p := Some t)\<rparr>)"
      have "db_ok (w\<lparr>w_files := (w_files w)(thumb_for p := Some t)\<rparr>)" using assms by simp
      from set_thumb_run [OF this] show ?thesis
        using Some False g by (intro that(2)) (simp_all add: backfill_row_def seq_def)
    qed
  qed
qed

section \<open>The whole run\<close>

text \<open>What holds after some of the rows \<open>S\<close>: \<open>n\<close> thumbnails more than in the beginning, nothing else.\<close>

definition backfilled :: "world \<Rightarrow> image_row set \<Rightarrow> nat \<Rightarrow> world \<Rightarrow> bool" where
  "backfilled w S n v \<longleftrightarrow> v = w\<lparr>w_files := w_files v, images_t := images_t v\<rparr>
     \<and> map blank_thumb (images_t v) = map blank_thumb (images_t w)
     \<and> (\<forall>q. w_files w q \<noteq> None \<longrightarrow> w_files v q \<noteq> None)
     \<and> (\<forall>i \<in> set (images_t v). i \<in> set (images_t w)
          \<or> (\<exists>r \<in> S. \<exists>t. i = r\<lparr>im_thumb := Some t\<rparr> \<and> file_exists t v))
     \<and> with_thumbs v = with_thumbs w + n"

lemma backfilled_refl: "backfilled w S 0 w"
  by (simp add: backfilled_def)

lemma backfilled_trans:
  assumes "backfilled u {r} m v" and "backfilled v S n w" and "r \<notin> S" and "\<And>i. i \<in> S \<Longrightarrow> im_id i \<noteq> im_id r"
  shows "backfilled u (insert r S) (m + n) w"
  unfolding backfilled_def
proof (intro conjI)
  have v: "v = u\<lparr>w_files := w_files v, images_t := images_t v\<rparr>" and w: "w = v\<lparr>w_files := w_files w, images_t := images_t w\<rparr>"
    using assms(1,2) by (simp_all add: backfilled_def)
  show "w = u\<lparr>w_files := w_files w, images_t := images_t w\<rparr>" by (subst w, subst v) simp
  show "map blank_thumb (images_t w) = map blank_thumb (images_t u)" "with_thumbs w = with_thumbs u + (m + n)"
    "\<forall>q. w_files u q \<noteq> None \<longrightarrow> w_files w q \<noteq> None"
    using assms(1,2) by (simp_all add: backfilled_def)
  show "\<forall>i \<in> set (images_t w). i \<in> set (images_t u)
      \<or> (\<exists>r \<in> insert r S. \<exists>t. i = r\<lparr>im_thumb := Some t\<rparr> \<and> file_exists t w)"
  proof
    fix i assume "i \<in> set (images_t w)"
    then consider "i \<in> set (images_t v)" | q t where "q \<in> S" "i = q\<lparr>im_thumb := Some t\<rparr>" "file_exists t w"
      using assms(2) by (auto simp: backfilled_def)
    then show "i \<in> set (images_t u) \<or> (\<exists>r \<in> insert r S. \<exists>t. i = r\<lparr>im_thumb := Some t\<rparr> \<and> file_exists t w)"
    proof cases
      case 1
      then have "i \<in> set (images_t u) \<or> (\<exists>t. i = r\<lparr>im_thumb := Some t\<rparr> \<and> file_exists t v)"
        using assms(1) by (simp add: backfilled_def)
      moreover have "file_exists t v \<Longrightarrow> file_exists t w" for t using assms(2) by (simp add: backfilled_def file_exists_def)
      ultimately show ?thesis by blast
    qed blast
  qed
qed

lemma backfill_row_step:
  assumes "db_ok w" and "row \<in> set (images_t w)" and "lacks_thumbnail row" and "backfill_row cfg dry row w = (Inr x, v)"
  shows "backfilled w {row} (if x = Processed then 1 else 0) v \<and> db_ok v \<and> (x = Processed \<longrightarrow> \<not> dry)
    \<and> (\<forall>i \<in> set (images_t w). im_id i \<noteq> im_id row \<longrightarrow> i \<in> set (images_t v))"
proof (rule backfill_row_run [OF assms(1), of cfg dry row])
  fix o' assume "o' \<noteq> Processed" "backfill_row cfg dry row w = (Inr o', w)"
  then show ?thesis using assms(1,4) by (simp add: backfilled_refl)
next
  fix t c assume d: "\<not> dry" and run: "backfill_row cfg dry row w = (Inr Processed, w\<lparr>w_files := (w_files w)(t := Some c),
      images_t := sql_update (\<lambda>i. im_id i = im_id row) (\<lambda>i. i\<lparr>im_thumb := Some t\<rparr>) (images_t w)\<rparr>)"
  then have x: "x = Processed" and v: "v = w\<lparr>w_files := (w_files w)(t := Some c),
      images_t := sql_update (\<lambda>i. im_id i = im_id row) (\<lambda>i. i\<lparr>im_thumb := Some t\<rparr>) (images_t w)\<rparr>"
    using assms(4) by simp_all
  have "with_thumbs v = Suc (with_thumbs w)"
    using count_updated [OF image_ids_distinct [OF assms(1)] assms(2), of "\<lambda>i. im_thumb i \<noteq> None" "\<lambda>i. i\<lparr>im_thumb := Some t\<rparr>"] assms(3)
    by (simp add: with_thumbs_def v lacks_thumbnail_def)
  moreover have "i = row" if "i \<in> set (images_t w)" "im_id i = im_id row" for i
    using image_unique [OF assms(1) that(1) assms(2) that(2)] .
  moreover have "map blank_thumb (images_t v) = map blank_thumb (images_t w)" by (simp add: v sql_update_def blank_thumb_def)
  moreover have "db_ok v"
  proof -
    let ?u = "w\<lparr>w_files := (w_files w)(t := Some c)\<rparr>"
    have u: "db_ok ?u" using assms(1) by simp
    have "keeps db_ok (update_image_thumbnail_path (im_id row) t)" unfolding update_image_thumbnail_path_def by (rule on_image_ok) simp
    from keeps_run [OF this u set_thumb_run [OF u]] show ?thesis by (simp add: v)
  qed
  ultimately show ?thesis using x d
    by (auto simp: backfilled_def v set_sql_update file_exists_def)
qed

lemma backfill_rows_run:
  assumes "db_ok w" and "set rows \<subseteq> set (images_t w)" and "\<forall>r \<in> set rows. lacks_thumbnail r" and "distinct (map im_id rows)"
    and "collect rows (backfill_row cfg dry) w = (Inr outs, v)"
  shows "backfilled w (set rows) (count_list outs Processed) v \<and> length outs = length rows
    \<and> (dry \<longrightarrow> count_list outs Processed = 0)"
  using assms
proof (induction rows arbitrary: w outs)
  case Nil
  then show ?case by (simp add: backfilled_refl)
next
  case (Cons r rows)
  obtain x u xs where one: "backfill_row cfg dry r w = (Inr x, u)" and more: "collect rows (backfill_row cfg dry) u = (Inr xs, v)"
    and outs: "outs = x # xs" using Cons.prems(5) by (auto simp: bind_eq_Inr)
  have step: "backfilled w {r} (if x = Processed then 1 else 0) u" "db_ok u" "x = Processed \<longrightarrow> \<not> dry"
    "\<forall>i \<in> set (images_t w). im_id i \<noteq> im_id r \<longrightarrow> i \<in> set (images_t u)"
    using backfill_row_step [OF Cons.prems(1) _ _ one] Cons.prems(2,3) by auto
  have new: "im_id i \<noteq> im_id r" if "i \<in> set rows" for i using that Cons.prems(4) by (auto simp: image_iff)
  have rest: "backfilled u (set rows) (count_list xs Processed) v \<and> length xs = length rows
      \<and> (dry \<longrightarrow> count_list xs Processed = 0)"
    by (rule Cons.IH [OF step(2) _ _ _ more]) (use Cons.prems(2-4) step(4) new in auto)
  have "r \<notin> set rows" using new by blast
  from backfilled_trans [OF step(1) conjunct1 [OF rest] this new] show ?case
    using rest step(3) by (auto simp: outs)
qed

lemma backfilled_weaken: "backfilled w S n v \<Longrightarrow> S \<subseteq> T \<Longrightarrow> backfilled w T n v"
  unfolding backfilled_def by blast

lemma outcomes_counted: "count_list outs Processed + count_list outs Skipped + count_list outs Undecoded = length outs"
proof (induction outs)
  case (Cons x outs)
  then show ?case by (cases x) simp_all
qed simp

lemma dry_row_reads: "keeps P (backfill_row cfg True row)"
  unfolding backfill_row_def by (intro keeps_intro) (simp_all add: keeps_intro)

definition selected_rows :: "backfill_args \<Rightarrow> world \<Rightarrow> image_row list" where
  "selected_rows args w = (let rows = filter lacks_thumbnail (images_t w) in
     case ba_limit args of None \<Rightarrow> rows | Some n \<Rightarrow> if n = 0 then rows else take (nat n) rows)"

lemma select_missing_run: "select_missing args w = (Inr rows, v) \<Longrightarrow> rows = selected_rows args w \<and> v = w"
  by (auto simp: select_missing_def selected_rows_def Let_def seq_eq_Inr guard_eq_Inr split: option.splits if_splits)

text \<open>
  Fact: a run only adds thumbnails, and its report adds up. Each selected image is counted once; the first
  number is how many images have a thumbnail more than before, each of these a file that is there; no other
  column, row or table changes and no file disappears. A dry run changes nothing, but it reports
  nothing as processed either.
\<close>

theorem thumbnails_backfilled:
  assumes "db_ok w" and "run_backfill cfg args w = (Inr (p, s, f), v)"
  shows "p + s + f = length (selected_rows args w) \<and> with_thumbs v = with_thumbs w + p
    \<and> v = w\<lparr>w_files := w_files v, images_t := images_t v\<rparr>
    \<and> map blank_thumb (images_t v) = map blank_thumb (images_t w)
    \<and> (\<forall>q. file_exists q w \<longrightarrow> file_exists q v)
    \<and> (\<forall>i \<in> set (images_t v). i \<in> set (images_t w)
         \<or> (\<exists>r \<in> set (selected_rows args w). \<exists>t. i = r\<lparr>im_thumb := Some t\<rparr> \<and> file_exists t v))
    \<and> (ba_dry_run args \<longrightarrow> p = 0 \<and> v = w)"
proof -
  let ?rows = "selected_rows args w"
  obtain outs where run: "collect ?rows (backfill_row cfg (ba_dry_run args)) w = (Inr outs, v)"
    and counts: "p = count_list outs Processed" "s = count_list outs Skipped" "f = count_list outs Undecoded"
    using assms(2) select_missing_run [of args w] by (auto simp: run_backfill_def bind_eq_Inr)
  have sub: "set ?rows \<subseteq> {i \<in> set (images_t w). lacks_thumbnail i}"
    by (auto simp: selected_rows_def Let_def split: option.splits if_splits dest: in_set_takeD)
  have "distinct (map im_id (filter lacks_thumbnail (images_t w)))"
    using image_ids_distinct [OF assms(1)] by (simp add: distinct_map_filter)
  then have d: "distinct (map im_id ?rows)"
    by (auto simp: selected_rows_def Let_def take_map [symmetric] split: option.split)
  have all: "backfilled w (set ?rows) p v \<and> length outs = length ?rows \<and> (ba_dry_run args \<longrightarrow> p = 0)"
    unfolding counts by (rule backfill_rows_run [OF assms(1) _ _ d run]) (use sub in auto)
  have "v = w" if "ba_dry_run args"
  proof -
    have "keeps (\<lambda>u. u = w) (collect ?rows (backfill_row cfg True))" by (intro keeps_collect dry_row_reads)
    from keeps_run [OF this refl] show ?thesis using run that by simp
  qed
  moreover have "p + s + f = length ?rows" using outcomes_counted [of outs] all by (simp add: counts)
  ultimately show ?thesis using all by (auto simp: backfilled_def file_exists_def)
qed

theorem thumbnails_backfilled_witness:
  "\<exists>v. run_backfill sample_cfg \<lparr>ba_dry_run = False, ba_limit = None\<rparr> disk_world = (Inr (2, 0, 0), v)
     \<and> with_thumbs v = 2 \<and> run_backfill sample_cfg \<lparr>ba_dry_run = True, ba_limit = None\<rparr> disk_world = (Inr (0, 0, 2), disk_world)"
proof -
  have ok: "db_ok disk_world" by (simp add: disk_world_def)
  have "fst (run_backfill sample_cfg \<lparr>ba_dry_run = False, ba_limit = None\<rparr> disk_world) = Inr (2, 0, 0)" by code_simp
  then obtain v where run: "run_backfill sample_cfg \<lparr>ba_dry_run = False, ba_limit = None\<rparr> disk_world = (Inr (2, 0, 0), v)"
    by (metis prod.collapse)
  have "with_thumbs disk_world = 0" by code_simp
  then have "with_thumbs v = 2" using thumbnails_backfilled [OF ok run] by simp
  moreover have "fst (run_backfill sample_cfg \<lparr>ba_dry_run = True, ba_limit = None\<rparr> disk_world) = Inr (0, 0, 2)" by code_simp
  then have "run_backfill sample_cfg \<lparr>ba_dry_run = True, ba_limit = None\<rparr> disk_world = (Inr (0, 0, 2), disk_world)"
    using thumbnails_backfilled [OF ok, of sample_cfg "\<lparr>ba_dry_run = True, ba_limit = None\<rparr>"]
    by (cases "run_backfill sample_cfg \<lparr>ba_dry_run = True, ba_limit = None\<rparr> disk_world") auto
  ultimately show ?thesis using run by blast
qed

end
