(* ===== verification/ContextBudget.thy ===== *)
theory ContextBudget
  imports Thumbnails
begin

text \<open>
  scripts/context_budget.py, which measures what a prompt, its tags and a photo cost in tokens of a
  model: percentiles of the measured photos, the counting requests to the Ollama server, the measurement
  and the table of what still fits. The server is the argument \<open>ollama\<close>. Python's floats are
  doubles (\<open>to_double\<close>).
\<close>

section \<open>Rounding between whole numbers\<close>

lemma round_half_even_between:
  assumes "of_int a \<le> x" and "x \<le> of_int b"
  shows "a \<le> round_half_even x \<and> round_half_even x \<le> b"
proof -
  have f: "a \<le> \<lfloor>x\<rfloor>" "\<lfloor>x\<rfloor> \<le> b" using assms by (simp_all add: le_floor_iff floor_le_iff)
  have up: "\<lfloor>x\<rfloor> + 1 \<le> b" if "of_int \<lfloor>x\<rfloor> < x"
  proof -
    have "of_int \<lfloor>x\<rfloor> < (of_int b :: rat)" using that assms(2) by linarith
    then show ?thesis by simp
  qed
  show ?thesis unfolding round_half_even_def Let_def using f up by (auto split: if_splits)
qed

text \<open>Doubles hold whole numbers up to 2^53, so rounding does not leave an interval between two of them.\<close>

lemma to_double_between:
  assumes "of_int a \<le> x" and "x \<le> of_int b" and "0 \<le> a" and "b < 2 ^ 53"
  shows "of_int a \<le> to_double x \<and> to_double x \<le> of_int b"
proof (cases "x = 0")
  case False
  then have x: "0 < x" using assms(1,3) by (metis dual_order.trans le_less of_int_0_le_iff)
  define q where "q = (2 :: rat) powi (ilog 2 x - 52)"
  have q: "0 < q" by (simp add: q_def)
  have "2 powi ilog 2 x \<le> x" using ilog_bounds [of 2 x] x by simp
  also have "x < 2 powi 53"
  proof -
    have "of_int b < (of_int (2 ^ 53) :: rat)" using assms(4) by (simp only: of_int_less_iff)
    then show ?thesis using assms(2) by (simp add: power_int_def)
  qed
  finally have "ilog 2 x < 53" using power_int_increasing [of 53 "ilog 2 x" "2 :: rat"] by (metis linorder_not_less one_le_numeral)
  then have unit: "1 / q = of_int (2 ^ nat (52 - ilog 2 x))" by (simp add: q_def power_int_def divide_simps)
  then have whole: "of_int c / q = of_int (c * 2 ^ nat (52 - ilog 2 x))" for c
    by (metis (no_types, lifting) mult.right_neutral of_int_mult times_divide_eq_right)
  have "of_int (a * 2 ^ nat (52 - ilog 2 x)) \<le> x / q" "x / q \<le> of_int (b * 2 ^ nat (52 - ilog 2 x))"
    unfolding whole [symmetric] using assms(1,2) q by (simp_all add: divide_right_mono)
  from round_half_even_between [OF this] have r: "of_int a / q \<le> of_int (round_half_even (x / q))"
    "of_int (round_half_even (x / q)) \<le> of_int b / q" unfolding whole of_int_le_iff by simp_all
  have "to_double x = of_int (round_half_even (x / q)) * q"
    using x by (simp add: to_double_def round_sig_def Let_def q_def)
  then show ?thesis using r q by (simp add: divide_le_eq le_divide_eq)
qed (use assms in \<open>simp add: to_double_def round_sig_def\<close>)

section \<open>Percentiles\<close>

definition at_index :: "int list \<Rightarrow> int \<Rightarrow> exn + int" where
  "at_index xs i = (if - int (length xs) \<le> i \<and> i < int (length xs)
     then Inr (xs ! nat (if i < 0 then i + int (length xs) else i)) else Inl (OtherError ''list index out of range''))"

text \<open>\<open>pct / 100.0\<close>, the product and the interpolation are operations on doubles.\<close>

definition rank_of :: "int list \<Rightarrow> rat \<Rightarrow> rat" where
  "rank_of vals p = to_double (of_int (int (length vals) - 1) * to_double (p / 100))"

definition percentile :: "int list \<Rightarrow> rat \<Rightarrow> exn + rat" where
  "percentile vals p =
     (if vals = [] then Inr 0
      else if length vals = 1 then map_sum id of_int (at_index vals 0)
      else let rank = rank_of vals p; lo = \<lfloor>rank\<rfloor>; hi = \<lceil>rank\<rceil> in
        if lo = hi then map_sum id of_int (at_index vals lo)
        else case (at_index vals lo, at_index vals hi) of
            (Inr a, Inr b) \<Rightarrow> Inr (to_double (of_int a + to_double (of_int (b - a) * to_double (rank - of_int lo))))
          | (Inl e, _) \<Rightarrow> Inl e | (_, Inl e) \<Rightarrow> Inl e)"

lemma rank_range:
  assumes "vals \<noteq> []" and "int (length vals) < 2 ^ 53" and "0 \<le> p" and "p \<le> 100"
  shows "0 \<le> rank_of vals p \<and> rank_of vals p \<le> of_int (int (length vals) - 1)"
proof -
  have f: "0 \<le> to_double (p / 100) \<and> to_double (p / 100) \<le> 1"
    using to_double_between [of 0 "p / 100" 1] assms(3,4) by simp
  have n: "0 \<le> int (length vals) - 1" using assms(1) by (cases vals) simp_all
  have "0 \<le> of_int (int (length vals) - 1) * to_double (p / 100)" using f n by (metis mult_nonneg_nonneg of_int_0_le_iff)
  moreover have "of_int (int (length vals) - 1) * to_double (p / 100) \<le> of_int (int (length vals) - 1) * 1"
    by (rule mult_left_mono) (use f n in \<open>simp_all only: of_int_0_le_iff\<close>)
  ultimately show ?thesis
    using to_double_between [of 0 "of_int (int (length vals) - 1) * to_double (p / 100)" "int (length vals) - 1"] assms(2)
    by (simp add: rank_of_def)
qed

lemma interpolated:
  assumes "0 \<le> a" and "a \<le> b" and "b < 2 ^ 53" and "0 \<le> t" and "t \<le> 1"
  shows "of_int a \<le> to_double (of_int a + to_double (of_int (b - a) * to_double t))
    \<and> to_double (of_int a + to_double (of_int (b - a) * to_double t)) \<le> of_int b"
proof -
  have t: "0 \<le> to_double t \<and> to_double t \<le> 1" using to_double_between [of 0 t 1] assms(4,5) by simp
  have d: "0 \<le> (of_int (b - a) :: rat)" using assms(2) by simp
  have "0 \<le> of_int (b - a) * to_double t" "of_int (b - a) * to_double t \<le> of_int (b - a)"
    using t d mult_left_mono [of "to_double t" 1 "of_int (b - a)"] by (simp_all del: of_int_diff)
  then have "0 \<le> to_double (of_int (b - a) * to_double t) \<and> to_double (of_int (b - a) * to_double t) \<le> of_int (b - a)"
    using to_double_between [of 0 "of_int (b - a) * to_double t" "b - a"] assms(1,3) by simp
  then show ?thesis using to_double_between [OF _ _ assms(1,3)] by simp
qed

text \<open>
  Fact: a percentile of measured token counts is one of them or lies between two of them. For a sorted,
  non-empty list of counts, lengths and counts below 2^53 and any percentage, no index is out of range and the
  result is not below the least and not above the greatest count, whatever the rounding of the doubles.
\<close>

theorem percentile_within:
  assumes "sorted vals" and "vals \<noteq> []" and "int (length vals) < 2 ^ 53" and "0 \<le> p" and "p \<le> 100"
    and "0 \<le> hd vals" and "last vals < 2 ^ 53"
  shows "\<exists>x. percentile vals p = Inr x \<and> of_int (hd vals) \<le> x \<and> x \<le> of_int (last vals)"
proof -
  let ?r = "rank_of vals p"
  have r: "0 \<le> ?r" "?r \<le> of_int (int (length vals) - 1)" using rank_range [OF assms(2-5)] by auto
  have hi: "\<lceil>?r\<rceil> \<le> int (length vals) - 1" using r(2) by (simp only: ceiling_le_iff)
  have lo: "0 \<le> \<lfloor>?r\<rfloor>" using r(1) by simp
  have "\<lfloor>?r\<rfloor> \<le> \<lceil>?r\<rceil>" by (rule floor_le_ceiling)
  note lo = lo order_trans [OF this hi] and hi = order_trans [OF lo(1) this] hi
  have at: "at_index vals i = Inr (vals ! nat i)" if "0 \<le> i" "i \<le> int (length vals) - 1" for i
    using that by (simp add: at_index_def)
  have range: "hd vals \<le> vals ! n \<and> vals ! n \<le> last vals" if "n < length vals" for n
    using that assms(1,2) sorted_nth_mono [of vals 0 n] sorted_nth_mono [of vals n "length vals - 1"]
    by (simp add: hd_conv_nth last_conv_nth)
  have single: "\<exists>x. map_sum id of_int (at_index vals i) = Inr x \<and> of_int (hd vals) \<le> x \<and> x \<le> (of_int (last vals) :: rat)"
    if "0 \<le> i" "i \<le> int (length vals) - 1" for i using at [OF that] range [of "nat i"] that by simp
  show ?thesis
  proof (cases "length vals = 1 \<or> \<lfloor>?r\<rfloor> = \<lceil>?r\<rceil>")
    case True
    then show ?thesis using assms(2) single [of 0] single [OF lo] by (auto simp: percentile_def Let_def)
  next
    case False
    let ?a = "vals ! nat \<lfloor>?r\<rfloor>" and ?b = "vals ! nat \<lceil>?r\<rceil>"
    have run: "percentile vals p = Inr (to_double (of_int ?a + to_double (of_int (?b - ?a) * to_double (?r - of_int \<lfloor>?r\<rfloor>))))"
      using False assms(2) at [OF lo] at [OF hi] by (simp add: percentile_def Let_def)
    have idx: "nat \<lfloor>?r\<rfloor> < length vals" "nat \<lceil>?r\<rceil> < length vals" "nat \<lfloor>?r\<rfloor> \<le> nat \<lceil>?r\<rceil>"
      using lo hi floor_le_ceiling [of ?r] by linarith+
    then have a: "hd vals \<le> ?a" and b: "?b \<le> last vals" using range by blast+
    have "?a \<le> ?b"
      by (rule sorted_nth_mono [OF assms(1) idx(3,2)])
    moreover have "0 \<le> ?r - of_int \<lfloor>?r\<rfloor>" "?r - of_int \<lfloor>?r\<rfloor> \<le> 1" by linarith+
    ultimately have bounds: "of_int ?a \<le> to_double (of_int ?a + to_double (of_int (?b - ?a) * to_double (?r - of_int \<lfloor>?r\<rfloor>)))
        \<and> to_double (of_int ?a + to_double (of_int (?b - ?a) * to_double (?r - of_int \<lfloor>?r\<rfloor>))) \<le> of_int ?b"
      using a b assms(6,7) by (intro interpolated) linarith+
    show ?thesis
      unfolding run
      by (intro exI conjI, rule refl) (meson bounds a b of_int_le_iff order_trans)+
  qed
qed

theorem percentile_within_witness:
  "percentile [600, 700, 1000] 50 = Inr 700 \<and> (\<exists>x. percentile [600, 700, 1000] 90 = Inr x \<and> 600 \<le> x \<and> x \<le> 1000)"
proof -
  have "percentile [600, 700, 1000] 50 = Inr 700" by code_simp
  moreover have "\<exists>x. percentile [600, 700, 1000] 90 = Inr x \<and> of_int (hd [600, 700, 1000]) \<le> x \<and> x \<le> of_int (last [600, 700, 1000])"
    by (rule percentile_within) simp_all
  ultimately show ?thesis by simp
qed

section \<open>The prompt with tags\<close>

definition TAG_POOL :: "string list" where
  "TAG_POOL = [''alcohol'', ''beverage'', ''cheese'', ''coffee'', ''deposit'', ''electronics'', ''food'', ''fresh'', ''gift'',
     ''household'', ''household goods'', ''hygiene'', ''meat'', ''meat product'', ''office'', ''other'', ''pet'', ''poultry'',
     ''service'', ''subscription'', ''supplement'', ''travel'', ''bakery'', ''dairy'', ''frozen'', ''snack'', ''spice'',
     ''canned goods'', ''detergent'', ''paper products'']"

definition probe_tags :: "nat \<Rightarrow> string list" where
  "probe_tags n = map (\<lambda>i. if n \<le> length TAG_POOL then TAG_POOL ! (i mod length TAG_POOL) else ''tag_'' @ nat_str i) [0..<n]"

definition build_tags_prompt :: "string \<Rightarrow> string \<Rightarrow> nat \<Rightarrow> string" where
  "build_tags_prompt receipt_schema multi_schema n = build_prompt receipt_schema multi_schema (probe_tags n) 1"

text \<open>
  Fact: the realistic pool is only used for at most 30 tags; for the default probe of 250 the tags are
  \<open>tag_0\<close>, \<open>tag_1\<close> and so on.
\<close>

lemma probe_is_synthetic: "t \<in> set (probe_tags 250) \<Longrightarrow> prefix ''tag_'' t"
  by (auto simp: probe_tags_def TAG_POOL_def)

text \<open>The same search for the file of a stored path as in generate_thumbnails.py.\<close>

definition resolve_image_path :: "string list \<Rightarrow> string \<Rightarrow> world \<Rightarrow> string option" where
  "resolve_image_path extra_dirs raw = resolve_stored extra_dirs raw"

section \<open>Counting on the server\<close>

record ollama_model =
  om_model :: "string option"
  om_name :: "string option"
  om_context :: "int option"
  om_caps :: "string list option"

text \<open>The replies of \<open>/api/tags\<close>, of \<open>/api/show\<close> (model_info and capabilities) and the \<open>prompt_eval_count\<close> of \<open>/api/generate\<close>.\<close>

record ollama_api =
  ol_tags :: "exn + ollama_model list"
  ol_show :: "string \<Rightarrow> exn + (string \<times> int) list \<times> string list"
  ol_eval :: "string \<Rightarrow> string \<Rightarrow> string option \<Rightarrow> int \<Rightarrow> exn + int option"

definition context_length :: "ollama_api \<Rightarrow> string \<Rightarrow> exn + int" where
  "context_length ol model = (case ol_tags ol of Inl e \<Rightarrow> Inl e
   | Inr ms \<Rightarrow> (case fetchrow (filter (\<lambda>m. om_model m = Some model \<or> om_name m = Some model) ms) of
       Some m \<Rightarrow> Inr (case om_context m of None \<Rightarrow> 0 | Some c \<Rightarrow> c)
     | None \<Rightarrow> (case ol_show ol model of Inl e \<Rightarrow> Inl e
         | Inr (info, _) \<Rightarrow> (case fetchrow (filter (\<lambda>(k, v). suffix ''context_length'' k) info) of
             None \<Rightarrow> Inr 0 | Some (_, v) \<Rightarrow> Inr v))))"

text \<open>The first model that says it sees; if none does in the list, the first that says so when asked.\<close>

fun shown_vision :: "ollama_api \<Rightarrow> ollama_model list \<Rightarrow> exn + string option" where
  "shown_vision ol [] = Inr None"
| "shown_vision ol (m # ms) = (case om_model m of
     None \<Rightarrow> shown_vision ol ms
   | Some name \<Rightarrow> if name = [] then shown_vision ol ms
       else (case ol_show ol name of Inl e \<Rightarrow> Inl e
         | Inr (_, caps) \<Rightarrow> if ''vision'' \<in> set caps then Inr (Some name) else shown_vision ol ms))"

definition listed_vision :: "ollama_model \<Rightarrow> bool" where
  "listed_vision m \<longleftrightarrow> om_model m \<noteq> None \<and> om_model m \<noteq> Some [] \<and> (case om_caps m of None \<Rightarrow> False | Some cs \<Rightarrow> ''vision'' \<in> set cs)"

definition choose_model :: "ollama_api \<Rightarrow> string option \<Rightarrow> exn + string option" where
  "choose_model ol wanted = (if wanted \<noteq> None \<and> wanted \<noteq> Some [] then Inr wanted
     else case ol_tags ol of Inl e \<Rightarrow> Inl e
       | Inr ms \<Rightarrow> (case fetchrow (filter listed_vision ms) of
           Some m \<Rightarrow> Inr (om_model m)
         | None \<Rightarrow> shown_vision ol ms))"

definition has_photo :: "string option \<Rightarrow> bool" where
  "has_photo photo \<longleftrightarrow> photo \<noteq> None \<and> photo \<noteq> Some []"

definition num_ctx_for :: "int \<Rightarrow> int \<Rightarrow> string \<Rightarrow> string option \<Rightarrow> int \<Rightarrow> int" where
  "num_ctx_for ctx cap prompt photo headroom =
     (let guess = max (int (length prompt) div 3 + (if has_photo photo then 6000 else 0)) headroom in
      if ctx \<noteq> 0 then min ctx (max guess cap) else guess)"

definition count_tokens :: "ollama_api \<Rightarrow> string \<Rightarrow> int \<Rightarrow> int \<Rightarrow> string \<Rightarrow> string option \<Rightarrow> exn + int" where
  "count_tokens ol model ctx cap prompt photo =
     map_sum id (\<lambda>n. case n of None \<Rightarrow> 0 | Some k \<Rightarrow> k)
       (ol_eval ol model prompt (if has_photo photo then photo else None) (num_ctx_for ctx cap prompt photo 4096))"

text \<open>
  Fact: the window asked for holds the guessed prompt unless the model's own window is smaller, and
  never exceeds the model's window where that is known.
\<close>

lemma num_ctx_bounds:
  "(ctx = 0 \<or> max (int (length prompt) div 3) headroom + 6000 \<le> ctx \<longrightarrow> int (length prompt) div 3 \<le> num_ctx_for ctx cap prompt photo headroom)
   \<and> (ctx \<noteq> 0 \<longrightarrow> num_ctx_for ctx cap prompt photo headroom \<le> ctx)"
  by (auto simp: num_ctx_for_def Let_def)

section \<open>The measurement and the report\<close>

record budget =
  bu_ctx :: int
  bu_base :: int
  bu_per_tag :: rat
  bu_image :: int

definition measure_budget ::
  "ollama_api \<Rightarrow> string \<Rightarrow> string \<Rightarrow> string \<Rightarrow> int \<Rightarrow> nat \<Rightarrow> string option \<Rightarrow> exn + budget" where
  "measure_budget ol model receipt_schema multi_schema cap probe photo =
     (let plain = build_prompt receipt_schema multi_schema [] 1 in
      case context_length ol model of Inl e \<Rightarrow> Inl e | Inr ctx \<Rightarrow>
     (case count_tokens ol model ctx cap plain None of Inl e \<Rightarrow> Inl e | Inr base \<Rightarrow>
     (case count_tokens ol model ctx cap (build_tags_prompt receipt_schema multi_schema probe) None of Inl e \<Rightarrow> Inl e | Inr big \<Rightarrow>
      let per_tag = (if probe = 0 then 0 else to_double (of_int (big - base) / of_nat probe)) in
      if has_photo photo
      then (case count_tokens ol model ctx cap plain photo of Inl e \<Rightarrow> Inl e
        | Inr n \<Rightarrow> Inr \<lparr>bu_ctx = ctx, bu_base = base, bu_per_tag = per_tag, bu_image = n - base\<rparr>)
      else Inr \<lparr>bu_ctx = ctx, bu_base = base, bu_per_tag = per_tag, bu_image = 0\<rparr>)))"

definition prompt_tokens :: "budget \<Rightarrow> bool \<Rightarrow> nat \<Rightarrow> int" where
  "prompt_tokens b with_image n = bu_base b + round_half_even (to_double (of_nat n * bu_per_tag b))
     + (if with_image then bu_image b else 0)"

definition budget_headroom :: "budget \<Rightarrow> bool \<Rightarrow> int \<Rightarrow> nat \<Rightarrow> int" where
  "budget_headroom b with_image output n = max 0 (bu_ctx b - prompt_tokens b with_image n - output)"

text \<open>The rows of the table: the tag count, the prompt and what is left.\<close>

definition growth_table :: "budget \<Rightarrow> bool \<Rightarrow> int \<Rightarrow> nat \<Rightarrow> (nat \<times> int \<times> int) list" where
  "growth_table b with_image output current =
     map (\<lambda>n. (n, prompt_tokens b with_image n, budget_headroom b with_image output n))
       (sorted_list_of_set ({0, 25, 50, 100, 250, 500, 1000} \<union> (if current = 0 then {} else {current})))"

definition fits :: "budget \<Rightarrow> bool \<Rightarrow> int \<Rightarrow> nat \<Rightarrow> bool" where
  "fits b with_image output current \<longleftrightarrow> bu_image b \<le> budget_headroom b with_image output current"

text \<open>
  Fact: the verdict on the sample photo counts it twice. The script measures a photo only if one is given, and
  then the prompt it subtracts already holds the photo; "fits" asks for room for another one.
\<close>

lemma fits_counts_twice:
  assumes "0 < bu_image b"
  shows "fits b True output n \<longleftrightarrow> prompt_tokens b False n + 2 * bu_image b + output \<le> bu_ctx b"
  using assms by (auto simp: fits_def budget_headroom_def prompt_tokens_def)

lemma fits_counts_twice_witness:
  "\<not> fits \<lparr>bu_ctx = 8192, bu_base = 1500, bu_per_tag = 0, bu_image = 3000\<rparr> True 2000 0
   \<and> prompt_tokens \<lparr>bu_ctx = 8192, bu_base = 1500, bu_per_tag = 0, bu_image = 3000\<rparr> True 0 + 2000 \<le> 8192"
  by (subst fits_counts_twice) (simp_all add: prompt_tokens_def to_double_def round_sig_def round_half_even_def)

text \<open>
  The tag counts at which the prompt without a photo reaches half and four fifths of the window; \<open>int\<close>
  cuts off towards zero.
\<close>

definition int_of_float :: "rat \<Rightarrow> int" where
  "int_of_float x = (if x < 0 then - \<lfloor>- x\<rfloor> else \<lfloor>x\<rfloor>)"

definition tag_limits :: "budget \<Rightarrow> int list" where
  "tag_limits b = (if 0 < bu_per_tag b
     then map (\<lambda>f. int_of_float (to_double (to_double (to_double (to_double f * of_int (bu_ctx b)) - of_int (bu_base b)) / bu_per_tag b)))
       [1 / 2, 4 / 5]
     else [])"

text \<open>
  The whole run: the photo as base64 text, the list of current tags (or the exception of asking for it, which
  counts as no tags), and what is printed when everything could be measured.
\<close>

record budget_args =
  ga_model :: "string option"
  ga_photo :: "string option"
  ga_tags :: "exn + string list"
  ga_output :: int
  ga_probe :: nat
  ga_cap :: int

record budget_report =
  gr_model :: string
  gr_budget :: budget
  gr_growth :: "(nat \<times> int \<times> int) list"
  gr_limits :: "int list"
  gr_headroom :: int
  gr_fits :: "bool option"

definition live_tags :: "budget_args \<Rightarrow> nat" where
  "live_tags g = (case ga_tags g of Inl _ \<Rightarrow> 0 | Inr ts \<Rightarrow> length ts)"

definition report_budget :: "budget_args \<Rightarrow> string \<Rightarrow> budget \<Rightarrow> budget_report" where
  "report_budget g model b = (let img = has_photo (ga_photo g); n = live_tags g in
     \<lparr>gr_model = model, gr_budget = b, gr_growth = growth_table b img (ga_output g) n, gr_limits = tag_limits b,
      gr_headroom = budget_headroom b img (ga_output g) n,
      gr_fits = (if bu_image b = 0 then None else Some (fits b img (ga_output g) n))\<rparr>)"

definition run_budget :: "ollama_api \<Rightarrow> string \<Rightarrow> string \<Rightarrow> budget_args \<Rightarrow> int \<times> budget_report option" where
  "run_budget ol receipt_schema multi_schema g = (case choose_model ol (ga_model g) of
     Inr (Some model) \<Rightarrow> (case measure_budget ol model receipt_schema multi_schema (ga_cap g) (ga_probe g) (ga_photo g) of
         Inr b \<Rightarrow> (0, Some (report_budget g model b))
       | Inl e \<Rightarrow> (1, None))
   | Inr None \<Rightarrow> (1, None)
   | Inl e \<Rightarrow> (1, None))"

text \<open>
  Fact: a run ends with 0 exactly when it has something to report; the table is ordered by tag count, each
  count once, and its row for the current number of tags is the headline; no room is reported as less than none.
\<close>

lemma budget_report_consistent:
  "(fst (run_budget ol rs ms g) = 0 \<longleftrightarrow> snd (run_budget ol rs ms g) \<noteq> None)
   \<and> sorted_wrt (<) (map fst (gr_growth (report_budget g model b)))
   \<and> (live_tags g, prompt_tokens b (has_photo (ga_photo g)) (live_tags g), gr_headroom (report_budget g model b))
       \<in> set (gr_growth (report_budget g model b))
   \<and> (\<forall>(n, p, room) \<in> set (gr_growth (report_budget g model b)). 0 \<le> room \<and> p + room + ga_output g \<ge> bu_ctx b)"
proof (intro conjI)
  show "fst (run_budget ol rs ms g) = 0 \<longleftrightarrow> snd (run_budget ol rs ms g) \<noteq> None"
    by (simp add: run_budget_def split: sum.split option.split)
  have fin: "finite ({0, 25, 50, 100, 250, 500, 1000} \<union> (if live_tags g = 0 then {} else {live_tags g}))" by simp
  show "sorted_wrt (<) (map fst (gr_growth (report_budget g model b)))"
    unfolding report_budget_def growth_table_def Let_def budget_report.select_convs map_map comp_def fst_conv map_ident
    by (rule strict_sorted_list_of_set)
  show "(live_tags g, prompt_tokens b (has_photo (ga_photo g)) (live_tags g), gr_headroom (report_budget g model b))
      \<in> set (gr_growth (report_budget g model b))"
    unfolding report_budget_def growth_table_def Let_def budget_report.select_convs set_map set_sorted_list_of_set [OF fin]
    by (rule image_eqI [of _ _ "live_tags g"]) simp_all
  show "\<forall>(n, p, room) \<in> set (gr_growth (report_budget g model b)). 0 \<le> room \<and> p + room + ga_output g \<ge> bu_ctx b"
    unfolding report_budget_def growth_table_def Let_def budget_report.select_convs set_map set_sorted_list_of_set [OF fin]
    by (auto simp: budget_headroom_def)
qed

text \<open>The costs of the sampled photos and the number of rows without a file.\<close>

fun sample_costs :: "ollama_api \<Rightarrow> string \<Rightarrow> budget \<Rightarrow> int \<Rightarrow> string \<Rightarrow> string list \<Rightarrow> (string \<Rightarrow> string) \<Rightarrow> string list \<Rightarrow>
    (world, int list \<times> nat) py" where
  "sample_costs ol model b cap plain dirs b64 [] = ret ([], 0)"
| "sample_costs ol model b cap plain dirs b64 (raw # raws) =
     bind (gets (\<lambda>w. case resolve_image_path dirs raw w of None \<Rightarrow> None | Some p \<Rightarrow> w_files w p)) (\<lambda>content. case content of
       None \<Rightarrow> bind (sample_costs ol model b cap plain dirs b64 raws) (\<lambda>(costs, gone). ret (costs, Suc gone))
     | Some c \<Rightarrow> bind (lift_result (count_tokens ol model (bu_ctx b) cap plain (Some (b64 c)))) (\<lambda>n.
         bind (sample_costs ol model b cap plain dirs b64 raws) (\<lambda>(costs, gone). ret ((n - bu_base b) # costs, gone))))"

text \<open>\<open>vals = sorted(measured)\<close> with the least, the median, the 90th percentile and the greatest cost.\<close>

definition cost_report :: "int list \<Rightarrow> (int \<times> (exn + rat) \<times> (exn + rat) \<times> int) option" where
  "cost_report measured = (if measured = [] then None else
     let vals = sort measured in Some (hd vals, percentile vals 50, percentile vals 90, last vals))"

text \<open>
  Fact: every sampled row is either measured or counted as unresolvable.
\<close>

lemma sample_accounts_rows:
  "sample_costs ol model b cap plain dirs b64 raws w = (Inr (costs, gone), v) \<Longrightarrow> length costs + gone = length raws"
proof (induction raws arbitrary: costs gone w)
  case (Cons raw raws)
  then show ?case
    by (cases "case resolve_image_path dirs raw w of None \<Rightarrow> None | Some p \<Rightarrow> w_files w p")
      (auto simp: bind_eq_Inr lift_result_def split: sum.splits)
qed simp

end
