(* ===== verification/BenchmarkScripts.thy ===== *)
theory BenchmarkScripts
  imports Auth BenchmarkService ContextBudget
begin

text \<open>
  Two scripts around benchmarks: scripts/create_benchmark_run.py, which queues a run through the API
  (its client is the argument \<open>api\<close>), and scripts/llm_benchmark_runner.py, a comparison of mocked models by
  the median of their hit rates.
\<close>

section \<open>Queueing a run\<close>

record run_args =
  ra_username :: "string option"
  ra_password :: "string option"
  ra_model_ids :: "string list option"
  ra_receipt_ids :: "string list option"
  ra_category :: "string option"
  ra_max_confidence :: "int option"
  ra_limit :: "int option"
  ra_timeout :: int
  ra_policy :: string
  ra_absolute :: "string option"
  ra_relative :: "string option"
  ra_apply_flags :: bool

definition opt_json :: "('a \<Rightarrow> json) \<Rightarrow> 'a option \<Rightarrow> json" where
  "opt_json f x = (case x of None \<Rightarrow> JNull | Some y \<Rightarrow> f y)"

text \<open>Keys without a value are left out.\<close>

definition request_payload :: "run_args \<Rightarrow> (string \<times> json) list" where
  "request_payload ra = filter (\<lambda>(k, v). v \<noteq> JNull)
     [(''model_ids'', opt_json (\<lambda>xs. JArr (map JStr xs)) (ra_model_ids ra)),
      (''receipt_ids'', opt_json (\<lambda>xs. JArr (map JStr xs)) (ra_receipt_ids ra)),
      (''category'', opt_json JStr (ra_category ra)), (''max_source_confidence'', opt_json JInt (ra_max_confidence ra)),
      (''limit'', opt_json JInt (ra_limit ra)), (''request_timeout_seconds'', JInt (ra_timeout ra)),
      (''council_policy'', JStr (ra_policy ra)), (''council_absolute_threshold'', opt_json JStr (ra_absolute ra)),
      (''council_relative_threshold'', opt_json JStr (ra_relative ra)), (''apply_council_flags'', JBool (ra_apply_flags ra))]"

text \<open>The requests that succeed or not: the login and the creation, which answers with the identifier of the run.\<close>

record api_client =
  cl_login :: "string \<Rightarrow> string \<Rightarrow> exn + unit"
  cl_create :: "bool \<Rightarrow> (string \<times> json) list \<Rightarrow> exn + string"

definition queue_run :: "api_client \<Rightarrow> run_args \<Rightarrow> int \<times> string option" where
  "queue_run api ra =
     (if given (ra_username ra) \<noteq> given (ra_password ra) then (2, None)
      else case (if given (ra_username ra) then cl_login api (the (ra_username ra)) (the (ra_password ra)) else Inr ()) of
          Inl e \<Rightarrow> (1, None)
        | Inr _ \<Rightarrow> (case cl_create api (given (ra_username ra)) (request_payload ra) of
            Inl e \<Rightarrow> (1, None) | Inr k \<Rightarrow> (0, Some k)))"

text \<open>
  Fact: the payload has each key at most once and a limit exactly if one was given, and the exit code is 0
  exactly when a run was created; a lone name or password sends nothing.
\<close>

lemma payload_keys_distinct: "distinct (map fst (request_payload ra))"
  unfolding request_payload_def by (rule distinct_map_filter) simp

lemma payload_limit:
  "(''limit'', j) \<in> set (request_payload ra) \<longleftrightarrow> (\<exists>n. ra_limit ra = Some n \<and> j = JInt n)"
proof -
  have "(''limit'', j) \<in> set (request_payload ra) \<longleftrightarrow> j \<noteq> JNull \<and> j = opt_json JInt (ra_limit ra)"
    unfolding request_payload_def set_filter by (simp add: conj_commute)
  then show ?thesis by (cases "ra_limit ra") (auto simp: opt_json_def)
qed

lemma queue_run_exit:
  "fst (queue_run api ra) = 0 \<longleftrightarrow> snd (queue_run api ra) \<noteq> None"
  "given (ra_username ra) \<noteq> given (ra_password ra) \<Longrightarrow> queue_run api ra = (2, None)"
  by (simp_all add: queue_run_def split: sum.split)

section \<open>Comparing mocked models\<close>

definition field_accuracy :: "(string \<times> string) list \<Rightarrow> (string \<times> string) list \<Rightarrow> rat" where
  "field_accuracy analysis truth =
     to_double (of_nat (length (filter (\<lambda>(k, v). map_of truth k = Some v) analysis)) / of_nat (max 1 (length analysis)))"

definition mock_analysis :: "(string \<times> string) list" where
  "mock_analysis = [(''field_a'', ''mock_value''), (''field_b'', ''mock_value'')]"

definition ground_truth :: "(string \<times> string) list" where
  "ground_truth = [(''field_a'', ''expected_A''), (''field_b'', ''expected_B'')]"

definition analyze_receipt :: "string \<Rightarrow> exn + (string \<times> string) list" where
  "analyze_receipt model = (if model = ''llama3'' \<or> model = ''phi3'' then Inr mock_analysis
     else Inl (ValueError (''Unsupported model: '' @ model)))"

definition receipt_paths :: "string \<Rightarrow> string list" where
  "receipt_paths dir = map (\<lambda>n. dir @ n) [''/01_receipt.jpg'', ''/02_invoice.jpg'', ''/03_coupon.jpg'']"

text \<open>\<open>sorted_values[-1]\<close> of an empty list is out of range.\<close>

definition calculate_median :: "rat list \<Rightarrow> exn + rat" where
  "calculate_median xs = (let s = sort xs; n = length xs in
     if n = 0 then Inl (OtherError ''list index out of range'')
     else if odd n then Inr (s ! (n div 2))
     else Inr (to_double (to_double (s ! (n div 2 - 1) + s ! (n div 2)) / 2)))"

text \<open>The exception of one receipt is printed; the receipt then has no entry.\<close>

definition model_hits :: "string \<Rightarrow> string \<Rightarrow> rat list" where
  "model_hits dir model = List.map_filter (\<lambda>p. case analyze_receipt model of
     Inl e \<Rightarrow> None | Inr a \<Rightarrow> Some (field_accuracy a ground_truth)) (receipt_paths dir)"

fun run_models :: "string \<Rightarrow> string list \<Rightarrow> exn + (string \<times> rat) list" where
  "run_models dir [] = Inr []"
| "run_models dir (m # ms) = (case calculate_median (model_hits dir m) of Inl e \<Rightarrow> Inl e
     | Inr x \<Rightarrow> map_sum id (\<lambda>rs. (m, x) # rs) (run_models dir ms))"

text \<open>\<open>max\<close> keeps the first of equals.\<close>

fun best_model :: "(string \<times> rat) list \<Rightarrow> string" where
  "best_model [] = []"
| "best_model [(m, x)] = m"
| "best_model ((m, x) # (n, y) # rs) = (if x < y then best_model ((n, y) # rs) else best_model ((m, x) # rs))"

definition run_comparison :: "string \<Rightarrow> string list \<Rightarrow> exn + string" where
  "run_comparison dir models = map_sum id best_model (run_models dir (if models = [] then [''llama3'', ''phi3''] else models))"

text \<open>
  Fact: although the exceptions of the receipts are caught, one model the script does not know ends the whole run
  with an IndexError; otherwise the first model wins.
\<close>

lemma run_models_known:
  "\<forall>m \<in> set models. m = ''llama3'' \<or> m = ''phi3'' \<Longrightarrow> run_models dir models = Inr (map (\<lambda>m. (m, 0)) models)"
proof (induction models)
  case (Cons m ms)
  have zero: "field_accuracy mock_analysis ground_truth = 0" by code_simp
  have "model_hits dir m = [0, 0, 0]"
    using Cons.prems zero by (simp add: model_hits_def analyze_receipt_def receipt_paths_def map_filter_def)
  then show ?case using Cons by (simp add: calculate_median_def)
qed simp

lemma run_models_unknown:
  "\<exists>m \<in> set models. m \<noteq> ''llama3'' \<and> m \<noteq> ''phi3'' \<Longrightarrow> run_models dir models = Inl (OtherError ''list index out of range'')"
proof (induction models)
  case (Cons m ms)
  show ?case
  proof (cases "m = ''llama3'' \<or> m = ''phi3''")
    case True
    then have "run_models dir [m] = Inr [(m, 0)]" using run_models_known [of "[m]"] by simp
    moreover have "\<exists>k \<in> set ms. k \<noteq> ''llama3'' \<and> k \<noteq> ''phi3''" using Cons.prems True by auto
    ultimately show ?thesis using Cons.IH by (auto split: sum.splits)
  next
    case False
    then have "model_hits dir m = []" by (simp add: model_hits_def analyze_receipt_def map_filter_def)
    then show ?thesis by (simp add: calculate_median_def)
  qed
qed simp

lemma best_of_equals: "best_model ((m, 0) # map (\<lambda>m. (m, 0)) ms) = m"
  by (induction ms) auto

lemma comparison_outcome:
  "run_comparison dir (m # ms) = (if \<forall>k \<in> set (m # ms). k = ''llama3'' \<or> k = ''phi3'' then Inr m
     else Inl (OtherError ''list index out of range''))"
proof (cases "\<forall>k \<in> set (m # ms). k = ''llama3'' \<or> k = ''phi3''")
  case True
  then show ?thesis using run_models_known [OF True, of dir] best_of_equals [of m ms] by (simp only: run_comparison_def) simp
next
  case False
  then show ?thesis using run_models_unknown [of "m # ms" dir] by (auto simp: run_comparison_def)
qed

end
