(* ===== verification/Spec2Isabelle.thy ===== *)
theory Spec2Isabelle
  imports QueueSpec ItemStats CollectionApi Uploads Lifecycle Migrations BenchmarkScripts
begin

text \<open>
  vision-bill: photos of receipts become structured, categorised purchases.

  A user uploads one or several photos of a receipt. They are kept as files with one row in the
  table images, which is also the analysis queue. A language model reads the photos, either while
  the upload waits or later in the background worker; the answer is checked, its line items are
  given categories, and receipt, items and taxes are stored for the user. The user then corrects,
  verifies, groups (collections), searches, and looks at statistics; an administrator may see
  everybody's data, change settings and run benchmarks of models against verified receipts.

  \<^bold>\<open>The state and the actions.\<close> A method or route is an action \<open>(state, value) py\<close> (Prelude): it returns an
  exception or a value, with the state it leaves in either case. The state \<open>world\<close> (Schema) has one
  list of rows for each table of alembic/versions at revision 0009, the files on disk, the clock and
  the supply of identifiers. \<open>process\<close> and \<open>server\<close> (Settings) add the settings of the running process and
  config.yaml. Sequences of statements outside a transaction leave what they wrote when a later one
  fails; \<open>transaction\<close> rolls back. Exceptions are the constructors of \<open>exn\<close>. Amounts are rationals rounded
  where PostgreSQL (NUMERIC(12, 2)) or Python's Decimal rounds, doubles only in the benchmark scores.

  \<^bold>\<open>Foundations.\<close>
  \<^item> Prelude: actions, exceptions, triples and \<open>keeps\<close>, the list operations behind SQL statements.
  \<^item> PyText, PyNumeric, PyDate: the parts of str, re, Decimal, datetime and uuid the source uses.
  \<^item> Models: model/receipt.py, model/item_category.py, model/db/image.py, with the pydantic constraints.
  \<^item> Schema: rows, keys, CHECKs, ON DELETE rules as the engine applies them to each statement.
  \<^item> Integrity: \<open>db_ok\<close>, what these promise together, kept by every statement of Schema.
  \<^item> Interfaces: the locales \<open>scoped_table\<close> (rows only their owner or a see-all caller finds),
    \<open>scoped_writer\<close> (an operation on one row, which does nothing to a row out of scope) and
    \<open>lease_queue\<close> (a claim that excludes others until it expires). They are interpreted on receipts,
    images, collections (ReceiptStore, ImageStore, CollectionStore) and benchmark tasks (BenchmarkStore).

  \<^bold>\<open>Components, theory by theory\<close> (paths under src/src/vision_bill).
  \<^item> ImageStore: provider/db/image_db.py, and the relation \<open>qstep\<close> of the queue: workers claim, finish or
    are too late, time passes, submissions come and go. Two workers never hold one image, and what is
    settled stays settled.
  \<^item> QueueSpec: the queue as an abstract specification (waiting, held by a worker, ended) and the simulation
    by which \<open>qstep\<close> refines it (locale \<open>simulation\<close>).
  \<^item> ReceiptStore, ReceiptEditing: provider/db/receipt_db.py. One receipt for each image, replaced as a
    whole; a category confirmed by the user decides before the model's; edits keep identities; every
    write is all or nothing.
  \<^item> CollectionStore: provider/db/collection_db.py and service/collection_service.py. One active
    collection for each user, unique names, memberships within one owner, totals that add up.
  \<^item> ImageFiles: service/image_service.py, temporary and permanent photo files and thumbnails.
  \<^item> MultiImage: helper/duplicates.py with difflib's ratio, and what merging overlapping photos may leave out.
  \<^item> LlmProvider: provider/llm, the prompt, reading an answer, the loop of three attempts.
  \<^item> ReceiptService: service/receipt_service.py, the active collection, the deadline, temporary files.
  \<^item> Search, Statistics, ItemStats: listing, ILIKE search, the statistics by currency, merchant, weekday
    and so on, and spending by item category with its reconciliation.
  \<^item> Scheduler: service/analysis_scheduler.py, one image, one cycle, the life cycle of the worker.
  \<^item> BenchmarkScoring, BenchmarkStore, BenchmarkService: service/benchmark_scoring.py,
    provider/db/benchmark_db.py, service/benchmark_service.py and api/benchmarks.py, with the relation \<open>bench_step\<close>.
  \<^item> Tokens, Auth: security/, provider/db/user_db.py, api/auth.py and the bootstrap of main.py.
  \<^item> ImageApi, Uploads, ReceiptApi, CollectionApi: api/images.py, api/receipts.py, api/collections.py and
    api/tags.py, each route with its status codes and the order of its effects.
  \<^item> Settings: config.py and api/system.
  \<^item> Lifecycle, StaticFiles: main.py, the pools of the stores, start and stop of the application in whatever
    state the database is, and the fallback route that sends the files of the frontend.
  \<^item> Migrations: the steps of alembic/versions that change rows, on records of the older revisions: seeded
    tags, positions, categories, several photos, the trigger for databases with old duplicates, and
    what the downgrades leave.
  \<^item> Thumbnails, ContextBudget, BenchmarkScripts: src/scripts, the backfill of thumbnails, the token
    budget of a prompt, queueing a benchmark run and comparing mocked models.

  A service method that only passes its arguments on to a store is that store's definition. A route
  takes the user that its router's dependency, \<open>get_current_user\<close> of Auth, has found.

  \<^bold>\<open>The properties\<close> stand in the theory of the component whose code they are about, with a
  witness where they have hypotheses; the other facts are marked Fact. Properties
  that span components are those of the routes (Uploads, ReceiptApi, CollectionApi), of the background
  workers (Scheduler, BenchmarkService), of the sessions (Auth, Settings) and of the start of the
  application (Lifecycle).

  \<^bold>\<open>Termination and bounds.\<close> Loops are structural recursions on what the code iterates over, so no
  fuel is needed: the cycle of the worker on the list of waiting images, the repair loop on the
  attempts left (RETRY_LIMIT is 3). Two functions terminate by a measure: difflib's matching blocks on
  the lengths of both texts and splitlines on the text. \<open>realpath\<close> of StaticFiles may follow symbolic links
  for ever; it is a partial function whose None is the exception Python raises. The endless loops of the two background
  workers appear as one round each (\<open>worker_round\<close>, \<open>work_round\<close>).

  \<^bold>\<open>Parameters.\<close> Code outside the repository is an argument of the definitions that use it: the
  model server's replies with the time they take, JSON and YAML, libmagic and Pillow, HMAC and argon2
  (the record \<open>crypto\<close>, whose documented behaviour is the hypothesis \<open>crypto_sound\<close>), the number of digits of
  SQL's AVG. The wording of their messages is theirs.

  \<^bold>\<open>Not modelled.\<close> Migration steps that only add or drop columns, constraints or plain indexes; the
  registration of the routers, request parsing and JSON encoding by FastAPI; the precedence of sources
  inside pydantic-settings; logging and printing; the command lines of the scripts, the scripts that make a
  single call or run tests, and scripts/test_gpc_tagging.py, which imports modules the package does not have;
  end-to-end stubs and tests; the TypeScript frontend. Concurrency is modelled where the code
  protects itself against it (claims, leases, the lock of a cycle); elsewhere an action runs without interruption.
\<close>

end
